(* ===== verification/Prelude.thy ===== *)
theory Prelude
  imports Main "HOL-Library.Sublist" "HOL-Library.List_Lexorder" "HOL-Library.Char_ord"
begin

text \<open>
  Shared vocabulary of the development: the abort value of a Go test helper, programs
  that pass a world along and stop at the first abort, and the generic list lemmas the
  components share.  Every helper of the package under \<^verbatim>\<open>internal/harness\<close> takes a
  \<^verbatim>\<open>*testing.T\<close> and ends the test with \<^verbatim>\<open>t.Fatalf\<close>; that call never returns, so a
  helper is a function into a sum whose left side is the message of the abort.
\<close>

named_theorems prog_simps "unfolding rules of world-passing programs"
named_theorems prog_rules "closure rules of program triples"

section \<open>Aborts\<close>

text \<open>A \<^verbatim>\<open>t.Fatalf(format, args...)\<close>: the format and the string arguments it is given.\<close>

datatype fatal = Fatalf string "string list"

type_synonym 'a outcome = "fatal + 'a"

section \<open>Programs over a world\<close>

type_synonym ('w, 'a) prog = "'w \<Rightarrow> 'a outcome \<times> 'w"

definition ret :: "'a \<Rightarrow> ('w, 'a) prog" where
  "ret x = (\<lambda>w. (Inr x, w))"

definition abort :: "fatal \<Rightarrow> ('w, 'a) prog" where
  "abort e = (\<lambda>w. (Inl e, w))"

definition andthen :: "('w, 'a) prog \<Rightarrow> ('a \<Rightarrow> ('w, 'b) prog) \<Rightarrow> ('w, 'b) prog" where
  "andthen m f = (\<lambda>w. case m w of (Inl e, w') \<Rightarrow> (Inl e, w') | (Inr x, w') \<Rightarrow> f x w')"

text \<open>A Go \<^verbatim>\<open>for _, x := range xs\<close> whose body may abort.\<close>

primrec for_each :: "'a list \<Rightarrow> ('a \<Rightarrow> ('w, 'b) prog) \<Rightarrow> ('w, 'b list) prog" where
  "for_each [] f = ret []"
| "for_each (x # xs) f = andthen (f x) (\<lambda>y. andthen (for_each xs f) (\<lambda>ys. ret (y # ys)))"

lemma ret_apply [simp, prog_simps]: "ret x w = (Inr x, w)"
  by (simp add: ret_def)

lemma abort_apply [simp, prog_simps]: "abort e w = (Inl e, w)"
  by (simp add: abort_def)

lemma andthen_ret [simp]: "andthen (ret x) f = f x"
  by (simp add: andthen_def fun_eq_iff)

lemma andthen_abort [simp]: "andthen (abort e) f = abort e"
  by (simp add: andthen_def fun_eq_iff)

lemma andthen_ret_right [simp]: "andthen m ret = m"
  by (auto simp: andthen_def fun_eq_iff split: prod.split sum.split)

lemma andthen_assoc: "andthen (andthen m f) g = andthen m (\<lambda>x. andthen (f x) g)"
  by (auto simp: andthen_def fun_eq_iff split: prod.split sum.split)

lemma andthen_Inr [prog_simps]: "m w = (Inr x, w') \<Longrightarrow> andthen m f w = f x w'"
  by (simp add: andthen_def)

lemma andthen_Inl [prog_simps]: "m w = (Inl e, w') \<Longrightarrow> andthen m f w = (Inl e, w')"
  by (simp add: andthen_def)

lemma andthen_eq_Inr_iff:
  "andthen m f w = (Inr y, w'') \<longleftrightarrow> (\<exists>x w'. m w = (Inr x, w') \<and> f x w' = (Inr y, w''))"
  by (auto simp: andthen_def split: prod.split sum.split)

lemma andthen_eq_Inl_iff:
  "andthen m f w = (Inl e, w'') \<longleftrightarrow>
     m w = (Inl e, w'') \<or> (\<exists>x w'. m w = (Inr x, w') \<and> f x w' = (Inl e, w''))"
  by (auto simp: andthen_def split: prod.split sum.split)

text \<open>
  A triple in the style of a total-outcome Hoare logic: from \<open>P\<close>, a normal end
  satisfies \<open>Q\<close> and an abort satisfies \<open>E\<close>.
\<close>

definition triple ::
  "('w \<Rightarrow> bool) \<Rightarrow> ('w, 'a) prog \<Rightarrow> ('a \<Rightarrow> 'w \<Rightarrow> bool) \<Rightarrow> (fatal \<Rightarrow> 'w \<Rightarrow> bool) \<Rightarrow> bool" where
  "triple P m Q E \<longleftrightarrow>
     (\<forall>w. P w \<longrightarrow> (case m w of (Inl e, w') \<Rightarrow> E e w' | (Inr x, w') \<Rightarrow> Q x w'))"

lemma triple_ret [prog_rules]: "(\<And>w. P w \<Longrightarrow> Q x w) \<Longrightarrow> triple P (ret x) Q E"
  by (simp add: triple_def)

lemma triple_abort [prog_rules]: "(\<And>w. P w \<Longrightarrow> E e w) \<Longrightarrow> triple P (abort e) Q E"
  by (simp add: triple_def)

lemma triple_andthen [prog_rules]:
  assumes "triple P m R E" and "\<And>x. triple (R x) (f x) Q E"
  shows "triple P (andthen m f) Q E"
  using assms by (fastforce simp: triple_def andthen_def split: prod.splits sum.splits)

lemma triple_for_each:
  assumes "\<And>x. x \<in> set xs \<Longrightarrow> triple P (f x) (\<lambda>_. P) E"
  shows "triple P (for_each xs f) (\<lambda>_. P) E"
  using assms
proof (induction xs)
  case Nil
  show ?case unfolding for_each.simps by (rule triple_ret)
next
  case (Cons x xs)
  have tail: "triple P (andthen (for_each xs f) (\<lambda>ys. ret (y # ys))) (\<lambda>_. P) E" for y
    
    by (rule triple_andthen [OF Cons.IH]) (auto simp: Cons.prems intro: triple_ret)
  show ?case
    unfolding for_each.simps
    by (rule triple_andthen [where R = "\<lambda>_. P"]) (simp_all add: Cons.prems tail)
qed

lemma tripleD_Inr: "triple P m Q E \<Longrightarrow> P w \<Longrightarrow> m w = (Inr x, w') \<Longrightarrow> Q x w'"
  by (fastforce simp: triple_def)

lemma tripleD_Inl: "triple P m Q E \<Longrightarrow> P w \<Longrightarrow> m w = (Inl e, w') \<Longrightarrow> E e w'"
  by (fastforce simp: triple_def)

lemma triple_invariantI:
  assumes "\<And>w r w'. P w \<Longrightarrow> m w = (r, w') \<Longrightarrow> P w'"
  shows "triple P m (\<lambda>_. P) (\<lambda>_. P)"
  unfolding triple_def
proof (intro allI impI)
  fix w assume "P w"
  from assms [OF this] show "case m w of (Inl e, w') \<Rightarrow> P w' | (Inr x, w') \<Rightarrow> P w'"
    by (auto split: prod.split sum.split)
qed

text \<open>A program that leaves a part of the world alone, however it ends.\<close>

definition keeps :: "('w \<Rightarrow> 'p) \<Rightarrow> ('w, 'a) prog \<Rightarrow> bool" where
  "keeps f m \<longleftrightarrow> (\<forall>w. f (snd (m w)) = f w)"

lemma keepsD: "keeps f m \<Longrightarrow> m w = (r, w') \<Longrightarrow> f w' = f w"
  unfolding keeps_def by (metis snd_conv)

lemma keeps_ret [prog_rules]: "keeps f (ret x)"
  by (simp add: keeps_def)

lemma keeps_abort [prog_rules]: "keeps f (abort e)"
  by (simp add: keeps_def)

lemma keeps_andthen [prog_rules]:
  assumes "keeps f m" and "\<And>x. keeps f (g x)"
  shows "keeps f (andthen m g)"
  unfolding keeps_def
proof
  fix w
  obtain r w' where m: "m w = (r, w')" by (cases "m w")
  then have "f w' = f w" using assms(1) keepsD by metis
  then show "f (snd (andthen m g w)) = f w"
    using assms(2) m by (cases r) (simp_all add: andthen_def keeps_def)
qed

lemma keeps_after: "(\<And>x. keeps f (g x)) \<Longrightarrow> f (snd (andthen m g w)) = f (snd (m w))"
  by (auto simp: keeps_def andthen_def split: prod.split sum.split)

lemma keeps_for_each [prog_rules]: "(\<And>x. x \<in> set xs \<Longrightarrow> keeps f (g x)) \<Longrightarrow> keeps f (for_each xs g)"
  by (induction xs) (auto intro!: prog_rules)

section \<open>Lists\<close>

lemma takeWhile_append_stop:
  "\<forall>x\<in>set xs. P x \<Longrightarrow> \<not> P y \<Longrightarrow> takeWhile P (xs @ y # ys) = xs"
  by (simp add: takeWhile_append2)

lemma sort_set_unique:
  assumes "set xs = set ys" and "distinct xs" and "distinct ys"
  shows "sort xs = sort (ys :: 'a::linorder list)"
  using assms by (intro sorted_distinct_set_unique) auto

lemma sort_eq_Nil [simp]: "sort xs = [] \<longleftrightarrow> xs = ([] :: 'a::linorder list)"
  by (metis set_empty set_sort)

end
