(* ===== verification/Go_Text.thy ===== *)
theory Go_Text
  imports Prelude
begin

text \<open>
  The functions of Go's \<^verbatim>\<open>strings\<close>, \<^verbatim>\<open>path/filepath\<close>, \<^verbatim>\<open>strconv\<close> and \<^verbatim>\<open>bufio\<close>
  packages the harness calls.  A Go string is a sequence of bytes, so it is a
  \<^typ>\<open>string\<close> whose characters are read as bytes.  Comparison of Go strings is
  bytewise, which is the order of \<^verbatim>\<open>HOL-Library.List_Lexorder\<close> over \<^verbatim>\<open>Char_ord\<close>.
\<close>

type_synonym bytes = string

abbreviation nl :: char where "nl \<equiv> CHR ''\<newline>''"
abbreviation dquote :: char where "dquote \<equiv> CHR 0x22"
abbreviation bslash :: char where "bslash \<equiv> CHR 0x5C"

section \<open>Prefixes, suffixes, substrings\<close>

definition has_prefix :: "string \<Rightarrow> string \<Rightarrow> bool" where
  "has_prefix s p \<longleftrightarrow> prefix p s"

definition has_suffix :: "string \<Rightarrow> string \<Rightarrow> bool" where
  "has_suffix s p \<longleftrightarrow> prefix (rev p) (rev s)"

definition trim_prefix :: "string \<Rightarrow> string \<Rightarrow> string" where
  "trim_prefix s p = (if has_prefix s p then drop (length p) s else s)"

definition trim_suffix :: "string \<Rightarrow> string \<Rightarrow> string" where
  "trim_suffix s p = (if has_suffix s p then take (length s - length p) s else s)"

fun contains :: "string \<Rightarrow> string \<Rightarrow> bool" where
  "contains [] p \<longleftrightarrow> p = []"
| "contains (c # s) p \<longleftrightarrow> prefix p (c # s) \<or> contains s p"

text \<open>\<^verbatim>\<open>strings.Cut\<close>: the text before and after the first occurrence, and whether there is one.\<close>

fun cut :: "string \<Rightarrow> string \<Rightarrow> string \<times> string \<times> bool" where
  "cut [] sep = ([], [], sep = [])"
| "cut (c # s) sep =
     (if prefix sep (c # s) then ([], drop (length sep) (c # s), True)
      else case cut s sep of (b, a, found) \<Rightarrow> (c # b, a, found))"

text \<open>\<^verbatim>\<open>strings.CutPrefix\<close>.\<close>

definition cut_prefix :: "string \<Rightarrow> string \<Rightarrow> string option" where
  "cut_prefix s p = (if has_prefix s p then Some (drop (length p) s) else None)"

lemma has_prefix_append [simp]: "has_prefix (p @ s) p"
  by (simp add: has_prefix_def)

lemma has_prefix_iff: "has_prefix s p \<longleftrightarrow> (\<exists>t. s = p @ t)"
  by (auto simp: has_prefix_def prefix_def)

lemma has_suffix_iff: "has_suffix s p \<longleftrightarrow> (\<exists>t. s = t @ p)"
proof
  assume "has_suffix s p"
  then obtain t where "rev s = rev p @ t" by (auto simp: has_suffix_def prefix_def)
  then have "s = rev t @ p" by (metis rev_append rev_rev_ident)
  then show "\<exists>t. s = t @ p" ..
qed (auto simp: has_suffix_def)

lemma has_suffix_append [simp]: "has_suffix (s @ p) p"
  by (auto simp: has_suffix_iff)

lemma trim_prefix_append [simp]: "trim_prefix (p @ s) p = s"
  by (simp add: trim_prefix_def)

lemma trim_suffix_append [simp]: "trim_suffix (s @ p) p = s"
  by (simp add: trim_suffix_def)

lemma contains_iff: "contains s p \<longleftrightarrow> (\<exists>u v. s = u @ p @ v)"
proof (induction s)
  case (Cons c s)
  show ?case
  proof
    assume "contains (c # s) p"
    then consider "prefix p (c # s)" | "contains s p" by auto
    then show "\<exists>u v. c # s = u @ p @ v"
    proof cases
      case 1
      then show ?thesis by (metis append_Nil prefix_def)
    next
      case 2
      with Cons.IH obtain u v where "s = u @ p @ v" by blast
      then show ?thesis by (metis append_Cons)
    qed
  next
    assume "\<exists>u v. c # s = u @ p @ v"
    then obtain u v where uv: "c # s = u @ p @ v" by blast
    show "contains (c # s) p"
    proof (cases u)
      case Nil
      with uv have "prefix p (c # s)" by simp
      then show ?thesis by simp
    next
      case (Cons d u')
      with uv have "s = u' @ p @ v" by simp
      with Cons.IH show ?thesis by auto
    qed
  qed
qed auto

lemma cut_found: "cut s sep = (b, a, True) \<Longrightarrow> s = b @ sep @ a"
  by (induction s sep arbitrary: b a rule: cut.induct)
     (auto simp: prefix_def split: if_splits prod.splits)

lemma cut_not_found: "cut s sep = (b, a, False) \<Longrightarrow> b = s \<and> a = []"
  by (induction s sep arbitrary: b a rule: cut.induct) (auto split: if_splits prod.splits)

lemma cut_char_found:
  "c \<notin> set b \<Longrightarrow> cut (b @ c # a) [c] = (b, a, True)"
  by (induction b) auto

lemma cut_char_absent: "c \<notin> set s \<Longrightarrow> cut s [c] = (s, [], False)"
  by (induction s) auto

section \<open>Splitting and joining\<close>

text \<open>\<^verbatim>\<open>strings.Split\<close> by a one-byte separator.\<close>

fun split_char :: "char \<Rightarrow> string \<Rightarrow> string list" where
  "split_char c [] = [[]]"
| "split_char c (x # s) =
     (if x = c then [] # split_char c s
      else case split_char c s of [] \<Rightarrow> [[x]] | l # ls \<Rightarrow> (x # l) # ls)"

text \<open>
  \<^verbatim>\<open>strings.Split\<close> by any non-empty separator (the harness never passes an empty one,
  for which Go splits into runes instead).
\<close>

function split_str :: "string \<Rightarrow> string \<Rightarrow> string list" where
  "split_str s sep =
     (if sep = [] \<or> \<not> snd (snd (cut s sep)) then [s]
      else fst (cut s sep) # split_str (fst (snd (cut s sep))) sep)"
  by pat_completeness auto
termination
proof (relation "measure (\<lambda>(s, sep). length s)")
  fix s sep :: string
  assume guard: "\<not> (sep = [] \<or> \<not> snd (snd (cut s sep)))"
  obtain b a where "cut s sep = (b, a, True)"
    using guard by (cases "cut s sep") auto
  with cut_found [OF this] guard
  show "((fst (snd (cut s sep)), sep), (s, sep)) \<in> measure (\<lambda>(s, sep). length s)" by simp
qed simp

declare split_str.simps [simp del]

fun join :: "string list \<Rightarrow> string \<Rightarrow> string" where
  "join [] sep = []"
| "join [x] sep = x"
| "join (x # y # xs) sep = x @ sep @ join (y # xs) sep"

lemma split_char_not_Nil [simp]: "split_char c s \<noteq> []"
  by (induction s) (auto split: list.split)

lemma split_char_append:
  "c \<notin> set a \<Longrightarrow> split_char c (a @ c # b) = a # split_char c b"
  by (induction a) auto

lemma split_char_absent: "c \<notin> set a \<Longrightarrow> split_char c a = [a]"
  by (induction a) auto

lemma split_char_pieces: "l \<in> set (split_char c s) \<Longrightarrow> c \<notin> set l"
  by (induction s arbitrary: l) (fastforce split: list.splits if_splits)+

lemma join_split_char: "join (split_char c s) [c] = s"
proof (induction s)
  case (Cons x s)
  obtain l ls where "split_char c s = l # ls" by (cases "split_char c s") auto
  with Cons.IH show ?case by (cases ls) auto
qed simp

lemma split_char_join:
  "xs \<noteq> [] \<Longrightarrow> (\<And>x. x \<in> set xs \<Longrightarrow> c \<notin> set x) \<Longrightarrow> split_char c (join xs [c]) = xs"
  by (induction xs rule: induct_list012) (auto simp: split_char_append split_char_absent)

text \<open>\<^verbatim>\<open>strings.FieldsFunc\<close>: the maximal runs of bytes that are not separators.\<close>

function fields_func :: "(char \<Rightarrow> bool) \<Rightarrow> string \<Rightarrow> string list" where
  "fields_func p [] = []"
| "fields_func p (c # s) =
     (if p c then fields_func p s
      else (c # takeWhile (\<lambda>x. \<not> p x) s) # fields_func p (dropWhile (\<lambda>x. \<not> p x) s))"
  by pat_completeness auto
termination
  by (relation "measure (\<lambda>(p, s). length s)") (auto simp: less_Suc_eq_le length_dropWhile_le)

lemma fields_func_pieces:
  "w \<in> set (fields_func p s) \<Longrightarrow> w \<noteq> [] \<and> (\<forall>x\<in>set w. \<not> p x)"
proof (induction p s arbitrary: w rule: fields_func.induct)
  case (2 p c s)
  show ?case
  proof (cases "p c")
    case True
    with 2 show ?thesis by simp
  next
    case False
    then consider "w = c # takeWhile (\<lambda>x. \<not> p x) s"
      | "w \<in> set (fields_func p (dropWhile (\<lambda>x. \<not> p x) s))"
      using "2.prems" by auto
    then show ?thesis
    proof cases
      case 1
      with False show ?thesis by (auto dest: set_takeWhileD)
    next
      case 2
      with "2.IH"(2) [OF False] show ?thesis by blast
    qed
  qed
qed simp

section \<open>Trimming white space\<close>

text \<open>
  The byte sequences of the code points with Unicode's \<^verbatim>\<open>White_Space\<close> property, which is
  what \<^verbatim>\<open>strings.TrimSpace\<close> removes at both ends.
\<close>

definition space_seqs :: "string list" where
  "space_seqs =
     [[CHR 0x09], [CHR 0x0A], [CHR 0x0B], [CHR 0x0C], [CHR 0x0D], [CHR 0x20],
      [CHR 0xC2, CHR 0x85], [CHR 0xC2, CHR 0xA0], [CHR 0xE1, CHR 0x9A, CHR 0x80]]
     @ map (\<lambda>c. [CHR 0xE2, CHR 0x80, c])
         [CHR 0x80, CHR 0x81, CHR 0x82, CHR 0x83, CHR 0x84, CHR 0x85, CHR 0x86, CHR 0x87,
          CHR 0x88, CHR 0x89, CHR 0x8A, CHR 0xA8, CHR 0xA9, CHR 0xAF]
     @ [[CHR 0xE2, CHR 0x81, CHR 0x9F], [CHR 0xE3, CHR 0x80, CHR 0x80]]"

function strip_seqs :: "string list \<Rightarrow> string \<Rightarrow> string" where
  "strip_seqs ps s =
     (case find (\<lambda>p. p \<noteq> [] \<and> prefix p s) ps of
        None \<Rightarrow> s
      | Some p \<Rightarrow> strip_seqs ps (drop (length p) s))"
  by pat_completeness auto
termination
proof (relation "measure (\<lambda>(ps, s). length s)")
  fix ps :: "string list" and s p
  assume "find (\<lambda>p. p \<noteq> [] \<and> prefix p s) ps = Some p"
  then have "p \<noteq> []" and "prefix p s" by (auto simp: find_Some_iff)
  then have "0 < length p" and "length p \<le> length s" by (simp_all add: prefix_length_le)
  then have "length s - length p < length s" by linarith
  then show "((ps, drop (length p) s), (ps, s)) \<in> measure (\<lambda>(ps, s). length s)" by simp
qed simp

declare strip_seqs.simps [simp del]

definition trim_space :: "string \<Rightarrow> string" where
  "trim_space s = rev (strip_seqs (map rev space_seqs) (rev (strip_seqs space_seqs s)))"

lemma strip_seqs_step:
  "find (\<lambda>p. p \<noteq> [] \<and> prefix p s) ps = None \<Longrightarrow> strip_seqs ps s = s"
  by (simp add: strip_seqs.simps)

lemma strip_seqs_none: "p \<in> set ps \<Longrightarrow> p \<noteq> [] \<Longrightarrow> \<not> prefix p (strip_seqs ps s)"
proof (induction ps s rule: strip_seqs.induct)
  case (1 ps s)
  show ?case
  proof (cases "find (\<lambda>p. p \<noteq> [] \<and> prefix p s) ps")
    case None
    with "1.prems" show ?thesis by (auto simp: strip_seqs_step find_None_iff)
  next
    case (Some q)
    with "1.IH" [OF Some] "1.prems" show ?thesis by (simp add: strip_seqs.simps [of ps s])
  qed
qed

lemma strip_seqs_suffix: "\<exists>t. s = t @ strip_seqs ps s"
proof (induction ps s rule: strip_seqs.induct)
  case (1 ps s)
  show ?case
  proof (cases "find (\<lambda>p. p \<noteq> [] \<and> prefix p s) ps")
    case None
    then show ?thesis by (simp add: strip_seqs_step)
  next
    case (Some q)
    with "1.IH" [OF Some] obtain t where "drop (length q) s = t @ strip_seqs ps s"
      by (auto simp: strip_seqs.simps [of ps s])
    then have "s = (take (length q) s @ t) @ strip_seqs ps s"
      by (metis append.assoc append_take_drop_id)
    then show ?thesis by blast
  qed
qed

lemma strip_seqs_id:
  assumes "\<And>p. p \<in> set ps \<Longrightarrow> p = [] \<or> \<not> prefix p s"
  shows "strip_seqs ps s = s"
  using assms by (intro strip_seqs_step) (auto simp: find_None_iff)

text \<open>A text \<^verbatim>\<open>strings.TrimSpace\<close> leaves alone: no white space at either end.\<close>

definition trimmed :: "string \<Rightarrow> bool" where
  "trimmed s \<longleftrightarrow>
     (\<forall>p \<in> set space_seqs. \<not> prefix p s) \<and> (\<forall>p \<in> set space_seqs. \<not> prefix (rev p) (rev s))"

lemma space_seqs_not_Nil [simp]: "p \<in> set space_seqs \<Longrightarrow> p \<noteq> []"
  by (auto simp: space_seqs_def)

lemma trimmed_trim_space: "trimmed s \<Longrightarrow> trim_space s = s"
proof -
  assume s: "trimmed s"
  have "strip_seqs space_seqs s = s"
    using s by (intro strip_seqs_id) (auto simp: trimmed_def)
  moreover have "strip_seqs (map rev space_seqs) (rev s) = rev s"
    using s by (intro strip_seqs_id) (auto simp: trimmed_def)
  ultimately show ?thesis by (simp add: trim_space_def)
qed

lemma trim_space_trimmed: "trimmed (trim_space s)"
proof -
  let ?u = "strip_seqs space_seqs s"
  let ?v = "strip_seqs (map rev space_seqs) (rev ?u)"
  obtain t where t: "rev ?u = t @ ?v" using strip_seqs_suffix by blast
  then have u: "?u = rev ?v @ rev t" by (metis rev_append rev_rev_ident)
  have "\<not> prefix p (rev ?v)" if "p \<in> set space_seqs" for p
    using strip_seqs_none [of p space_seqs s] that u by (metis prefix_append space_seqs_not_Nil)
  moreover have "\<not> prefix (rev p) ?v" if "p \<in> set space_seqs" for p
    using that by (intro strip_seqs_none) auto
  ultimately show ?thesis by (simp add: trimmed_def trim_space_def)
qed

lemma trim_space_idem [simp]: "trim_space (trim_space s) = trim_space s"
  by (rule trimmed_trim_space [OF trim_space_trimmed])

lemma trim_space_sublist: "\<exists>u v. s = u @ trim_space s @ v"
proof -
  let ?u = "strip_seqs space_seqs s"
  obtain t where t: "s = t @ ?u" using strip_seqs_suffix by blast
  obtain w where "rev ?u = w @ strip_seqs (map rev space_seqs) (rev ?u)"
    using strip_seqs_suffix by blast
  then have "?u = trim_space s @ rev w"
    by (metis trim_space_def rev_append rev_rev_ident)
  with t show ?thesis by metis
qed

lemma space_seqs_ends:
  "list_all (\<lambda>q. (hd q \<le> CHR 0x20 \<or> CHR 0x80 \<le> hd q) \<and> (last q \<le> CHR 0x20 \<or> CHR 0x80 \<le> last q))
     space_seqs"
  by code_simp

lemma trimmed_first_last:
  assumes "s \<noteq> []" and "CHR 0x20 < hd s" and "hd s < CHR 0x80"
    and "CHR 0x20 < last s" and "last s < CHR 0x80"
  shows "trimmed s"
proof -
  obtain c s' where s: "s = c # s'" using assms(1) by (cases s) auto
  obtain d r where r: "rev s = d # r" using assms(1) by (cases "rev s") auto
  have d: "d = last s" using r by (metis hd_rev list.sel(1))
  have c: "c = hd s" using s by simp
  have sp: "q \<in> set space_seqs \<Longrightarrow> \<not> (CHR 0x20 < hd q \<and> hd q < CHR 0x80)
      \<and> \<not> (CHR 0x20 < last q \<and> last q < CHR 0x80)" for q
    using space_seqs_ends unfolding list_all_iff by (meson leD)
  have "\<not> prefix q s" if q: "q \<in> set space_seqs" for q
  proof
    assume "prefix q s"
    moreover have "q \<noteq> []" using q by simp
    ultimately have "hd q = hd s" using s by (cases q) simp_all
    with sp [OF q] assms(2,3) show False by simp
  qed
  moreover have "\<not> prefix (rev q) (rev s)" if q: "q \<in> set space_seqs" for q
  proof
    assume "prefix (rev q) (rev s)"
    moreover have "rev q \<noteq> []" using q by simp
    ultimately have "hd (rev q) = d" using r by (cases "rev q") simp_all
    then have "last q = last s" using d by (simp add: hd_rev)
    with sp [OF q] assms(4,5) show False by simp
  qed
  ultimately show ?thesis by (simp add: trimmed_def)
qed

section \<open>Decimal numbers\<close>

definition digit :: "nat \<Rightarrow> char" where
  "digit d = char_of (48 + d)"

definition is_digit :: "char \<Rightarrow> bool" where
  "is_digit c \<longleftrightarrow> 48 \<le> (of_char c :: nat) \<and> (of_char c :: nat) \<le> 57"

definition digit_val :: "char \<Rightarrow> nat" where
  "digit_val c = of_char c - 48"

fun nat_str :: "nat \<Rightarrow> string" where
  "nat_str n = (if n < 10 then [digit n] else nat_str (n div 10) @ [digit (n mod 10)])"

declare nat_str.simps [simp del]

text \<open>\<^verbatim>\<open>strconv.Itoa\<close> and \<^verbatim>\<open>fmt\<close>'s \<^verbatim>\<open>%d\<close>.\<close>

definition itoa :: "int \<Rightarrow> string" where
  "itoa i = (if i < 0 then CHR ''-'' # nat_str (nat (- i)) else nat_str (nat i))"

text \<open>The value of a run of digits, most significant first.\<close>

definition digits_val :: "string \<Rightarrow> nat" where
  "digits_val s = foldl (\<lambda>v c. 10 * v + digit_val c) 0 s"

lemma is_digit_digit [simp]: "d < 10 \<Longrightarrow> is_digit (digit d)"
  by (simp add: is_digit_def digit_def)

lemma digit_val_digit [simp]: "d < 10 \<Longrightarrow> digit_val (digit d) = d"
  by (simp add: digit_val_def digit_def)

lemma nat_str_not_Nil [simp]: "nat_str n \<noteq> []"
  by (subst nat_str.simps) simp

lemma nat_str_digits: "c \<in> set (nat_str n) \<Longrightarrow> is_digit c"
proof (induction n rule: nat_str.induct)
  case (1 n)
  then show ?case by (cases "n < 10") (auto simp: nat_str.simps [of n])
qed

lemma digits_val_snoc: "digits_val (s @ [c]) = 10 * digits_val s + digit_val c"
  by (simp add: digits_val_def)

lemma digits_val_nat_str [simp]: "digits_val (nat_str n) = n"
proof (induction n rule: nat_str.induct)
  case (1 n)
  show ?case
  proof (cases "n < 10")
    case True
    then show ?thesis by (simp add: nat_str.simps [of n] digits_val_def)
  next
    case False
    with 1 show ?thesis by (simp add: nat_str.simps [of n] digits_val_snoc)
  qed
qed

lemma nat_str_inj: "nat_str m = nat_str n \<Longrightarrow> m = n"
  by (metis digits_val_nat_str)

text \<open>\<^verbatim>\<open>fmt\<close>'s \<^verbatim>\<open>%02d\<close> of a non-negative number: at least two digits.\<close>

definition nat_str2 :: "nat \<Rightarrow> string" where
  "nat_str2 n = (if n < 10 then CHR ''0'' # nat_str n else nat_str n)"

lemma digits_val_nat_str2 [simp]: "digits_val (nat_str2 n) = n"
proof (cases "n < 10")
  case True
  then show ?thesis
    by (simp add: nat_str2_def nat_str.simps [of n] digits_val_def digit_val_def digit_def)
qed (simp add: nat_str2_def)

lemma nat_str2_inj: "nat_str2 m = nat_str2 n \<Longrightarrow> m = n"
  by (metis digits_val_nat_str2)

section \<open>File paths\<close>

abbreviation slash :: char where "slash \<equiv> CHR ''/''"

text \<open>
  \<^verbatim>\<open>filepath.Clean\<close> on Unix: drop empty and \<^verbatim>\<open>.\<close> elements, let \<^verbatim>\<open>..\<close> remove the
  element before it; the stack holds the kept elements, last first.
\<close>

fun clean_segs :: "bool \<Rightarrow> string list \<Rightarrow> string list \<Rightarrow> string list" where
  "clean_segs rooted st [] = rev st"
| "clean_segs rooted st (x # xs) =
     (if x = [] \<or> x = ''.'' then clean_segs rooted st xs
      else if x = ''..'' then
        (case st of
           [] \<Rightarrow> clean_segs rooted (if rooted then [] else [''..'']) xs
         | t # st' \<Rightarrow> clean_segs rooted (if t = ''..'' then ''..'' # st else st') xs)
      else clean_segs rooted (x # st) xs)"

definition path_clean :: "string \<Rightarrow> string" where
  "path_clean s =
     (if s = [] then ''.''
      else let rooted = has_prefix s ''/'';
               body = join (clean_segs rooted [] (split_char slash s)) ''/''
           in if rooted then slash # body else if body = [] then ''.'' else body)"

definition path_join :: "string list \<Rightarrow> string" where
  "path_join es =
     (let es' = dropWhile (\<lambda>e. e = []) es
      in if es' = [] then [] else path_clean (join es' ''/''))"

text \<open>\<^verbatim>\<open>filepath.Base\<close>: the last element, with trailing slashes removed first.\<close>

definition path_base :: "string \<Rightarrow> string" where
  "path_base s =
     (if s = [] then ''.''
      else let body = rev (dropWhile (\<lambda>c. c = slash) (rev s))
           in if body = [] then ''/'' else last (split_char slash body))"

text \<open>An absolute path given by its elements, each of which names one directory entry.\<close>

definition plain_seg :: "string \<Rightarrow> bool" where
  "plain_seg x \<longleftrightarrow> x \<noteq> [] \<and> x \<noteq> ''.'' \<and> x \<noteq> ''..'' \<and> slash \<notin> set x"

definition abs_path :: "string list \<Rightarrow> string" where
  "abs_path segs = slash # join segs ''/''"

lemma clean_segs_plain:
  "\<forall>x \<in> set xs. plain_seg x \<Longrightarrow> clean_segs rooted st xs = rev st @ xs"
  by (induction xs arbitrary: st) (auto simp: plain_seg_def)

lemma path_clean_abs:
  assumes "segs \<noteq> []" and "\<forall>x \<in> set segs. plain_seg x"
  shows "path_clean (abs_path segs) = abs_path segs"
proof -
  have "split_char slash (abs_path segs) = [] # segs"
    using assms by (simp add: abs_path_def split_char_join plain_seg_def)
  then show ?thesis
    using assms(2) by (simp add: path_clean_def abs_path_def has_prefix_def clean_segs_plain)
qed

lemma join_snoc: "xs \<noteq> [] \<Longrightarrow> join (xs @ [x]) sep = join xs sep @ sep @ x"
  by (induction xs rule: induct_list012) auto

lemma join_append:
  "xs \<noteq> [] \<Longrightarrow> ys \<noteq> [] \<Longrightarrow> join (xs @ ys) sep = join xs sep @ sep @ join ys sep"
proof (induction xs rule: induct_list012)
  case (2 x)
  then show ?case by (cases ys) auto
qed auto

lemma path_join_abs:
  assumes "segs \<noteq> []" and "\<forall>x \<in> set segs. plain_seg x" and "\<forall>x \<in> set ns. plain_seg x"
  shows "path_join (abs_path segs # ns) = abs_path (segs @ ns)"
proof (cases "ns = []")
  case True
  then show ?thesis
    using assms path_clean_abs [OF assms(1,2)] by (simp add: path_join_def abs_path_def)
next
  case False
  have "join (abs_path segs # ns) ''/'' = abs_path (segs @ ns)"
    using False assms(1) by (cases ns) (auto simp: abs_path_def join_append)
  then show ?thesis
    using assms path_clean_abs [of "segs @ ns"] by (auto simp: path_join_def abs_path_def)
qed

section \<open>Cleaned paths\<close>

lemma clean_segs_rooted:
  "\<forall>x \<in> set st. plain_seg x \<Longrightarrow> \<forall>x \<in> set xs. slash \<notin> set x \<Longrightarrow>
     \<forall>x \<in> set (clean_segs True st xs). plain_seg x"
proof (induction xs arbitrary: st)
  case (Cons x xs)
  show ?case
  proof (cases "x = [] \<or> x = ''.''")
    case True
    with Cons show ?thesis by auto
  next
    case False
    note x = this
    show ?thesis
    proof (cases "x = ''..''")
      case True
      have "\<forall>y \<in> set (clean_segs True (case st of [] \<Rightarrow> [] | t # st' \<Rightarrow> st') xs). plain_seg y"
        using Cons.prems by (intro Cons.IH) (auto split: list.split)
      moreover have "t \<noteq> ''..''" if "st = t # st'" for t st'
        using Cons.prems(1) that by (simp add: plain_seg_def)
      ultimately show ?thesis using True by (cases st) auto
    next
      case False
      with x Cons.prems have "\<forall>y \<in> set (x # st). plain_seg y" by (simp add: plain_seg_def)
      then have "\<forall>y \<in> set (clean_segs True (x # st) xs). plain_seg y"
        using Cons.prems by (intro Cons.IH) auto
      then show ?thesis using x False by simp
    qed
  qed
qed simp

lemma path_clean_rooted:
  assumes "has_prefix p ''/''"
  obtains segs where "path_clean p = abs_path segs" "\<forall>x \<in> set segs. plain_seg x"
proof
  show "path_clean p = abs_path (clean_segs True [] (split_char slash p))"
    using assms by (auto simp: path_clean_def abs_path_def has_prefix_iff)
  show "\<forall>x \<in> set (clean_segs True [] (split_char slash p)). plain_seg x"
    by (rule clean_segs_rooted) (auto dest: split_char_pieces)
qed

lemma clean_segs_plain_slash:
  "\<forall>x \<in> set xs. plain_seg x \<Longrightarrow> clean_segs rooted st (xs @ [[]]) = rev st @ xs"
  by (induction xs arbitrary: st) (auto simp: plain_seg_def)

lemma path_clean_abs_slash:
  assumes "segs \<noteq> []" and "\<forall>x \<in> set segs. plain_seg x"
  shows "path_clean (abs_path segs @ ''/'') = abs_path segs"
proof -
  have "join ([] # ys) ''/'' = ''/'' @ join ys ''/''" if "ys \<noteq> []" for ys
    using that by (cases ys) auto
  then have "abs_path segs @ ''/'' = join ([] # segs @ [[]]) ''/''"
    using assms(1) by (simp add: abs_path_def join_snoc)
  then have "split_char slash (abs_path segs @ ''/'') = [] # segs @ [[]]"
    using assms(2) split_char_join [of "[] # segs @ [[]]" slash] by (force simp: plain_seg_def)
  then show ?thesis
    using assms(2) by (simp add: path_clean_def abs_path_def has_prefix_def clean_segs_plain_slash)
qed

lemma last_join:
  "segs \<noteq> [] \<Longrightarrow> last segs \<noteq> [] \<Longrightarrow> join segs ''/'' \<noteq> [] \<and> last (join segs ''/'') = last (last segs)"
  by (induction segs rule: induct_list012) auto

lemma abs_path_last:
  assumes "segs \<noteq> []" and "\<forall>x \<in> set segs. plain_seg x"
  shows "\<not> has_suffix (abs_path segs) ''/''"
proof
  assume suf: "has_suffix (abs_path segs) ''/''"
  have p: "plain_seg (last segs)" using assms by simp
  then have ne: "last segs \<noteq> []" by (simp add: plain_seg_def)
  from suf have "last (abs_path segs) = slash" by (auto simp: has_suffix_iff)
  then have "last (last segs) = slash"
    using last_join [OF assms(1) ne] by (simp add: abs_path_def)
  with ne have "slash \<in> set (last segs)" by (metis last_in_set)
  with p show False by (simp add: plain_seg_def)
qed

end
