(* ===== verification/Go_Utf8.thy ===== *)
theory Go_Utf8
  imports Go_Text
begin

text \<open>
  UTF-8 as Go's \<^verbatim>\<open>unicode/utf8\<close> reads and writes it, the quoting of \<^verbatim>\<open>fmt\<close>'s \<^verbatim>\<open>%q\<close>
  (\<^verbatim>\<open>strconv.Quote\<close>) with its inverse, and the case folding by which \<^verbatim>\<open>strings.EqualFold\<close>
  and \<^verbatim>\<open>encoding/json\<close> compare a text with an ASCII name.
\<close>

section \<open>Decoding and encoding one code point\<close>

abbreviation byte :: "char \<Rightarrow> nat" where "byte c \<equiv> of_char c"

definition in_range :: "nat \<Rightarrow> nat \<Rightarrow> char \<Rightarrow> bool" where
  "in_range lo hi c \<longleftrightarrow> lo \<le> byte c \<and> byte c \<le> hi"

abbreviation is_cont :: "char \<Rightarrow> bool" where "is_cont \<equiv> in_range 0x80 0xBF"

abbreviation rune_error :: nat where "rune_error \<equiv> 0xFFFD"

text \<open>
  \<^verbatim>\<open>utf8.DecodeRuneInString\<close>: the code point at the front and its width; a malformed
  sequence is \<^verbatim>\<open>RuneError\<close> of width one, the empty string \<^verbatim>\<open>RuneError\<close> of width zero.
\<close>

definition decode_rune :: "string \<Rightarrow> nat \<times> nat" where
  "decode_rune s =
     (case s of
        [] \<Rightarrow> (rune_error, 0)
      | c # t \<Rightarrow>
          (let b = byte c in
           if b < 0x80 then (b, 1)
           else if 0xC2 \<le> b \<and> b \<le> 0xDF then
             (case t of
                c1 # _ \<Rightarrow> if is_cont c1 then ((b - 0xC0) * 0x40 + (byte c1 - 0x80), 2)
                          else (rune_error, 1)
              | _ \<Rightarrow> (rune_error, 1))
           else if 0xE0 \<le> b \<and> b \<le> 0xEF then
             (case t of
                c1 # c2 # _ \<Rightarrow>
                  if in_range (if b = 0xE0 then 0xA0 else 0x80) (if b = 0xED then 0x9F else 0xBF) c1
                     \<and> is_cont c2
                  then ((b - 0xE0) * 0x1000 + (byte c1 - 0x80) * 0x40 + (byte c2 - 0x80), 3)
                  else (rune_error, 1)
              | _ \<Rightarrow> (rune_error, 1))
           else if 0xF0 \<le> b \<and> b \<le> 0xF4 then
             (case t of
                c1 # c2 # c3 # _ \<Rightarrow>
                  if in_range (if b = 0xF0 then 0x90 else 0x80) (if b = 0xF4 then 0x8F else 0xBF) c1
                     \<and> is_cont c2 \<and> is_cont c3
                  then ((b - 0xF0) * 0x40000 + (byte c1 - 0x80) * 0x1000
                          + (byte c2 - 0x80) * 0x40 + (byte c3 - 0x80), 4)
                  else (rune_error, 1)
              | _ \<Rightarrow> (rune_error, 1))
           else (rune_error, 1)))"

definition valid_rune :: "nat \<Rightarrow> bool" where
  "valid_rune r \<longleftrightarrow> r < 0xD800 \<or> (0xE000 \<le> r \<and> r \<le> 0x10FFFF)"

text \<open>\<^verbatim>\<open>utf8.AppendRune\<close>: an invalid code point is written as \<^verbatim>\<open>RuneError\<close>.\<close>

definition encode_rune :: "nat \<Rightarrow> string" where
  "encode_rune r0 =
     (let r = (if valid_rune r0 then r0 else rune_error) in
      if r < 0x80 then [char_of r]
      else if r < 0x800 then [char_of (0xC0 + r div 0x40), char_of (0x80 + r mod 0x40)]
      else if r < 0x10000 then
        [char_of (0xE0 + r div 0x1000), char_of (0x80 + r div 0x40 mod 0x40),
         char_of (0x80 + r mod 0x40)]
      else
        [char_of (0xF0 + r div 0x40000), char_of (0x80 + r div 0x1000 mod 0x40),
         char_of (0x80 + r div 0x40 mod 0x40), char_of (0x80 + r mod 0x40)])"

lemma byte_char_of [simp]: "n < 256 \<Longrightarrow> byte (char_of n) = n"
  by simp

lemma byte_bound: "byte c < 256"
  by (cases c) simp

lemma decode_rune_ascii: "byte c < 0x80 \<Longrightarrow> decode_rune (c # s) = (byte c, 1)"
  by (simp add: decode_rune_def)

lemma decode_rune_width:
  "s \<noteq> [] \<Longrightarrow> 1 \<le> snd (decode_rune s) \<and> snd (decode_rune s) \<le> length s"
  by (auto simp: decode_rune_def Let_def split: list.splits)

lemma decode_rune_width_pos [simp]: "s \<noteq> [] \<Longrightarrow> 0 < snd (decode_rune s)"
  using decode_rune_width [of s] by simp

lemma encode_rune_not_Nil [simp]: "encode_rune r \<noteq> []"
  by (simp add: encode_rune_def Let_def)

lemma base64_split:
  "d < 0x40 \<Longrightarrow> (x * 0x40 + d) div 0x40 = (x::nat)" "d < 0x40 \<Longrightarrow> (x * 0x40 + d) mod 0x40 = d"
  by simp_all

lemma base64_digits:
  obtains x d where "r = x * 0x40 + d" and "d < (0x40::nat)" and "r div 0x40 = x" and "r mod 0x40 = d"
proof
  show "r = r div 0x40 * 0x40 + r mod 0x40" by (rule div_mult_mod_eq [symmetric])
qed simp_all

lemma decode_encode:
  assumes "valid_rune r"
  shows "decode_rune (encode_rune r @ s) = (r, length (encode_rune r))"
proof -
  consider "r < 0x80" | "0x80 \<le> r" "r < 0x800" | "0x800 \<le> r" "r < 0x10000" | "0x10000 \<le> r"
    by linarith
  then show ?thesis
  proof cases
    case 1
    with assms show ?thesis by (simp add: encode_rune_def decode_rune_def)
  next
    case 2
    obtain a b where ab: "r div 0x40 = a" "r mod 0x40 = b" by blast
    have r: "r = a * 0x40 + b" using ab by (metis div_mult_mod_eq)
    have b: "b \<le> 0x3F" using ab by auto
    have a: "2 \<le> a" "a \<le> 0x1F" using 2 b unfolding r by presburger+
    have enc: "encode_rune r = [char_of (0xC0 + a), char_of (0x80 + b)]"
      using 2 assms ab by (simp add: encode_rune_def Let_def)
    show ?thesis
      unfolding enc using a b by (simp add: decode_rune_def in_range_def Let_def r)
  next
    case 3
    obtain x c where r1: "r = x * 0x40 + c" "c < 0x40" "r div 0x40 = x" "r mod 0x40 = c"
      by (rule base64_digits)
    obtain a b where r2: "x = a * 0x40 + b" "b < 0x40" "x div 0x40 = a" "x mod 0x40 = b"
      by (rule base64_digits)
    have r: "r = a * 0x1000 + b * 0x40 + c" using r1(1) r2(1) by simp
    have top: "r div 0x1000 = a"
      using r1(3) r2(3) div_mult2_eq [of r "0x40" "0x40"] by simp
    have enc: "encode_rune r = [char_of (0xE0 + a), char_of (0x80 + b), char_of (0x80 + c)]"
      using 3 assms unfolding encode_rune_def Let_def by (simp add: top r1(3,4) r2(4))
    have a: "a < 0x10" using 3(2) unfolding r by linarith
    have low: "a = 0 \<Longrightarrow> 0x20 \<le> b" using 3(1) r1(2) unfolding r by linarith
    have sur: "a = 0xD \<Longrightarrow> b < 0x20" using assms r1(2) r2(2) unfolding r valid_rune_def by linarith
    show ?thesis
      unfolding enc using a low sur r1(2) r2(2) by (auto simp: r decode_rune_def in_range_def Let_def)
  next
    case 4
    obtain x d where r1: "r = x * 0x40 + d" "d < 0x40" "r div 0x40 = x" "r mod 0x40 = d"
      by (rule base64_digits)
    obtain y c where r2: "x = y * 0x40 + c" "c < 0x40" "x div 0x40 = y" "x mod 0x40 = c"
      by (rule base64_digits)
    obtain a b where r3: "y = a * 0x40 + b" "b < 0x40" "y div 0x40 = a" "y mod 0x40 = b"
      by (rule base64_digits)
    have r: "r = a * 0x40000 + b * 0x1000 + c * 0x40 + d" using r1(1) r2(1) r3(1) by simp
    have mid: "r div 0x1000 = y" using r1(3) r2(3) div_mult2_eq [of r "0x40" "0x40"] by simp
    have top: "r div 0x40000 = a" using mid r3(3) div_mult2_eq [of r "0x1000" "0x40"] by simp
    have enc: "encode_rune r =
        [char_of (0xF0 + a), char_of (0x80 + b), char_of (0x80 + c), char_of (0x80 + d)]"
      using 4 assms unfolding encode_rune_def Let_def by (simp add: top mid r1(3,4) r2(4) r3(4))
    have le: "r \<le> 0x10FFFF" using 4 assms by (auto simp: valid_rune_def)
    have a: "a \<le> 4" using le unfolding r by linarith
    have low: "a = 0 \<Longrightarrow> 0x10 \<le> b" using 4 r1(2) r2(2) unfolding r by linarith
    have high: "a = 4 \<Longrightarrow> b < 0x10" using le unfolding r by linarith
    show ?thesis
      unfolding enc using a low high r1(2) r2(2) r3(2)
      by (auto simp: r decode_rune_def in_range_def Let_def)
  qed
qed

lemma decode_rune_valid:
  assumes "s \<noteq> []" and "decode_rune s \<noteq> (rune_error, 1)"
  shows "valid_rune (fst (decode_rune s))"
    and "encode_rune (fst (decode_rune s)) = take (snd (decode_rune s)) s"
proof -
  obtain c t where s: "s = c # t" using assms(1) by (cases s) auto
  have "valid_rune (fst (decode_rune s))
    \<and> encode_rune (fst (decode_rune s)) = take (snd (decode_rune s)) s"
  proof -
    consider "byte c < (0x80::nat)"
      | (two) c1 u where "t = c1 # u" "0xC2 \<le> byte c" "byte c \<le> (0xDF::nat)" "is_cont c1"
      | (three) c1 c2 u where "t = c1 # c2 # u" "0xE0 \<le> byte c" "byte c \<le> (0xEF::nat)"
          "in_range (if byte c = (0xE0::nat) then 0xA0 else 0x80)
             (if byte c = (0xED::nat) then 0x9F else 0xBF) c1" "is_cont c2"
      | (four) c1 c2 c3 u where "t = c1 # c2 # c3 # u" "0xF0 \<le> byte c" "byte c \<le> (0xF4::nat)"
          "in_range (if byte c = (0xF0::nat) then 0x90 else 0x80)
             (if byte c = (0xF4::nat) then 0x8F else 0xBF) c1" "is_cont c2" "is_cont c3"
      using assms(2) s
      by (auto simp: decode_rune_def Let_def split: list.splits if_splits)
    then show ?thesis
    proof cases
      case 1
      then show ?thesis
        by (simp add: s decode_rune_def valid_rune_def encode_rune_def)
    next
      case two
      define a b where "a = byte c - (0xC0::nat)" and "b = byte c1 - (0x80::nat)"
      have ab: "byte c = 0xC0 + a" "byte c1 = 0x80 + b" "2 \<le> a" "a < 0x20" "b < 0x40"
        using two by (auto simp: a_def b_def in_range_def)
      have "(a * 0x40 + b) div 0x40 = a" "(a * 0x40 + b) mod 0x40 = b" using ab by auto
      moreover have "char_of (0xC0 + a) = c" "char_of (0x80 + b) = c1"
        using ab by (metis char_of_char)+
      ultimately show ?thesis
        using ab two(1)
        by (simp add: s decode_rune_def Let_def in_range_def valid_rune_def encode_rune_def)
    next
      case three
      define a b d where "a = byte c - (0xE0::nat)" and "b = byte c1 - (0x80::nat)"
        and "d = byte c2 - (0x80::nat)"
      have ab: "byte c = 0xE0 + a" "byte c1 = 0x80 + b" "byte c2 = 0x80 + d"
          "a < 0x10" "b < 0x40" "d < 0x40"
        using three by (auto simp: a_def b_def d_def in_range_def split: if_splits)
      have lim: "a = 0 \<Longrightarrow> 0x20 \<le> b" "a = 0xD \<Longrightarrow> b < 0x20"
        using three ab by (auto simp: in_range_def split: if_splits)
      let ?r = "a * 0x1000 + b * 0x40 + d"
      have e: "?r = (a * 0x40 + b) * 0x40 + d" by simp
      have dm1: "?r div 0x40 = a * 0x40 + b" "?r mod 0x40 = d"
        unfolding e by (rule base64_split [OF ab(6)])+
      have dm2: "?r div 0x40 mod 0x40 = b" "?r div 0x40 div 0x40 = a"
        unfolding dm1 by (rule base64_split [OF ab(5)])+
      have dm: "?r div 0x1000 = a" "?r div 0x40 mod 0x40 = b" "?r mod 0x40 = d"
        using dm2 dm1(2) by (simp_all add: div_mult2_eq [symmetric])
      have "a = 0 \<Longrightarrow> 0x800 \<le> ?r" "a \<noteq> 0 \<Longrightarrow> 0x800 \<le> ?r" using lim(1) by auto
      then have rng: "0x800 \<le> ?r" "?r < 0x10000" using ab by (blast, linarith)
      have "valid_rune ?r"
      proof (cases "a < 0xD \<or> 0xE \<le> a")
        case True
        then show ?thesis using ab unfolding valid_rune_def by auto
      next
        case False
        then show ?thesis using ab lim(2) unfolding valid_rune_def by auto
      qed
      note rng = rng this
      have "char_of (0xE0 + a) = c" "char_of (0x80 + b) = c1" "char_of (0x80 + d) = c2"
        using ab by (metis char_of_char)+
      then have "encode_rune ?r = [c, c1, c2]"
        using rng dm unfolding encode_rune_def Let_def by simp
      moreover have "decode_rune s = (?r, 3)"
        using three by (simp add: s decode_rune_def Let_def a_def b_def d_def)
      ultimately show ?thesis using rng s three(1) by simp
    next
      case four
      define a b d e where "a = byte c - (0xF0::nat)" and "b = byte c1 - (0x80::nat)"
        and "d = byte c2 - (0x80::nat)" and "e = byte c3 - (0x80::nat)"
      have ab: "byte c = 0xF0 + a" "byte c1 = 0x80 + b" "byte c2 = 0x80 + d" "byte c3 = 0x80 + e"
          "a \<le> 4" "b < 0x40" "d < 0x40" "e < 0x40"
        using four by (auto simp: a_def b_def d_def e_def in_range_def split: if_splits)
      have lim: "a = 0 \<Longrightarrow> 0x10 \<le> b" "a = 4 \<Longrightarrow> b < 0x10"
        using four ab by (auto simp: in_range_def split: if_splits)
      let ?r = "a * 0x40000 + b * 0x1000 + d * 0x40 + e"
      have f: "?r = ((a * 0x40 + b) * 0x40 + d) * 0x40 + e" by simp
      have dm1: "?r div 0x40 = (a * 0x40 + b) * 0x40 + d" "?r mod 0x40 = e"
        unfolding f by (rule base64_split [OF ab(8)])+
      have dm2: "?r div 0x40 div 0x40 = a * 0x40 + b" "?r div 0x40 mod 0x40 = d"
        unfolding dm1 by (rule base64_split [OF ab(7)])+
      have dm3: "?r div 0x40 div 0x40 div 0x40 = a" "?r div 0x40 div 0x40 mod 0x40 = b"
        unfolding dm2 by (rule base64_split [OF ab(6)])+
      have dm: "?r div 0x40000 = a" "?r div 0x1000 mod 0x40 = b" "?r div 0x40 mod 0x40 = d"
          "?r mod 0x40 = e"
        using dm1(2) dm2(2) dm3 by (simp_all add: div_mult2_eq [symmetric])
      have "a = 0 \<Longrightarrow> 0x10000 \<le> ?r" "a \<noteq> 0 \<Longrightarrow> 0x10000 \<le> ?r" using lim(1) by auto
      then have rng: "0x10000 \<le> ?r" by blast
      have "a = 4 \<Longrightarrow> ?r \<le> 0x10FFFF" "a \<noteq> 4 \<Longrightarrow> ?r \<le> 0x10FFFF" using lim(2) ab by auto
      then have "?r \<le> 0x10FFFF" by blast
      with rng have "valid_rune ?r" unfolding valid_rune_def by linarith
      note rng = rng this
      have "char_of (0xF0 + a) = c" "char_of (0x80 + b) = c1" "char_of (0x80 + d) = c2"
          "char_of (0x80 + e) = c3"
        using ab by (metis char_of_char)+
      then have "encode_rune ?r = [c, c1, c2, c3]"
        using rng dm unfolding encode_rune_def Let_def by simp
      moreover have "decode_rune s = (?r, 4)"
        using four by (simp add: s decode_rune_def Let_def a_def b_def d_def e_def)
      ultimately show ?thesis using rng s four(1) by simp
    qed
  qed
  then show "valid_rune (fst (decode_rune s))"
    and "encode_rune (fst (decode_rune s)) = take (snd (decode_rune s)) s" by auto
qed

text \<open>Well-formed UTF-8: the encoding of a list of valid code points.\<close>

definition utf8 :: "nat list \<Rightarrow> string" where
  "utf8 rs = concat (map encode_rune rs)"

definition valid_utf8 :: "string \<Rightarrow> bool" where
  "valid_utf8 s \<longleftrightarrow> (\<exists>rs. (\<forall>r \<in> set rs. valid_rune r) \<and> s = utf8 rs)"

lemma utf8_simps [simp]:
  "utf8 [] = []" "utf8 (r # rs) = encode_rune r @ utf8 rs" "utf8 (rs @ qs) = utf8 rs @ utf8 qs"
  by (simp_all add: utf8_def)

lemma valid_utf8_Nil [simp]: "valid_utf8 []"
  by (auto simp: valid_utf8_def intro: exI [of _ "[]"])

lemma valid_utf8_append: "valid_utf8 s \<Longrightarrow> valid_utf8 t \<Longrightarrow> valid_utf8 (s @ t)"
  unfolding valid_utf8_def by (metis Un_iff set_append utf8_simps(3))

lemma valid_rune_error [simp]: "valid_rune rune_error"
  by (simp add: valid_rune_def)

lemma encode_rune_invalid: "\<not> valid_rune r \<Longrightarrow> encode_rune r = encode_rune rune_error"
  by (simp add: encode_rune_def)

lemma valid_utf8_encode [simp]: "valid_utf8 (encode_rune r)"
proof (cases "valid_rune r")
  case True
  then show ?thesis
    unfolding valid_utf8_def by (intro exI [of _ "[r]"]) simp
next
  case False
  then show ?thesis
    unfolding valid_utf8_def by (intro exI [of _ "[rune_error]"]) (simp add: encode_rune_invalid)
qed

lemma valid_utf8_ascii: "\<forall>c \<in> set s. byte c < (0x80::nat) \<Longrightarrow> valid_utf8 s"
proof (induction s)
  case (Cons c s)
  then have "encode_rune (byte c) = [c]" by (simp add: encode_rune_def valid_rune_def)
  then show ?case using Cons valid_utf8_append [of "[c]" s] by (metis append_Cons append_Nil
      list.set_intros(2) valid_utf8_encode)
qed simp

end
