(* ===== verification/Go_Quote.thy ===== *)
theory Go_Quote
  imports Go_Utf8
begin

text \<open>
  \<^verbatim>\<open>fmt\<close>'s \<^verbatim>\<open>%q\<close> for strings (\<^verbatim>\<open>strconv.Quote\<close>), the matching reader
  (\<^verbatim>\<open>strconv.Unquote\<close>), and that the reader undoes the quoting of every byte string.
  Which code points above U+00FF are printable is a table of Go's \<^verbatim>\<open>unicode\<close> package; it is
  the parameter \<open>pr\<close>, and nothing below depends on its contents.
\<close>

section \<open>Hexadecimal digits\<close>

definition hex_digit :: "nat \<Rightarrow> char" where
  "hex_digit d = (if d < 10 then char_of (48 + d) else char_of (87 + d))"

definition hex_val :: "char \<Rightarrow> nat option" where
  "hex_val c =
     (let b = byte c in
      if 48 \<le> b \<and> b \<le> 57 then Some (b - 48)
      else if 97 \<le> b \<and> b \<le> 102 then Some (b - 87)
      else if 65 \<le> b \<and> b \<le> 70 then Some (b - 55)
      else None)"

definition hex2 :: "nat \<Rightarrow> string" where
  "hex2 n = [hex_digit (n div 16), hex_digit (n mod 16)]"

definition hex4 :: "nat \<Rightarrow> string" where
  "hex4 n = hex2 (n div 256) @ hex2 (n mod 256)"

definition hex8 :: "nat \<Rightarrow> string" where
  "hex8 n = hex4 (n div 65536) @ hex4 (n mod 65536)"

text \<open>The value of a run of hexadecimal digits, if it is one.\<close>

fun hex_number :: "nat \<Rightarrow> string \<Rightarrow> nat option" where
  "hex_number v [] = Some v"
| "hex_number v (c # s) =
     (case hex_val c of None \<Rightarrow> None | Some d \<Rightarrow> hex_number (16 * v + d) s)"

lemma hex_val_digit [simp]: "d < 16 \<Longrightarrow> hex_val (hex_digit d) = Some d"
  by (simp add: hex_val_def hex_digit_def)

lemma hex_number_hex2 [simp]: "n < 256 \<Longrightarrow> hex_number v (hex2 n @ s) = hex_number (n + 256 * v) s"
  by (simp add: hex2_def less_mult_imp_div_less add.commute)

lemma hex_number_hex4 [simp]: "n < 65536 \<Longrightarrow> hex_number v (hex4 n @ s) = hex_number (n + 65536 * v) s"
proof -
  assume n: "n < 65536"
  have "n div 256 < 256" using n by (simp add: less_mult_imp_div_less)
  moreover have "n mod 256 + 256 * (n div 256 + 256 * v) = n + 65536 * v" by simp
  ultimately show ?thesis by (simp only: hex4_def append_assoc hex_number_hex2 mod_less_divisor zero_less_numeral)
qed

lemma hex_number_hex8 [simp]: "n < 4294967296 \<Longrightarrow> hex_number v (hex8 n @ s) = hex_number (n + 4294967296 * v) s"
proof -
  assume n: "n < 4294967296"
  have "n div 65536 < 65536" using n by (simp add: less_mult_imp_div_less)
  moreover have "n mod 65536 + 65536 * (n div 65536 + 65536 * v) = n + 4294967296 * v" by simp
  ultimately show ?thesis by (simp only: hex8_def append_assoc hex_number_hex4 mod_less_divisor zero_less_numeral)
qed

lemma length_hex [simp]: "length (hex2 n) = 2" "length (hex4 n) = 4" "length (hex8 n) = 8"
  by (simp_all add: hex2_def hex4_def hex8_def)

text \<open>Bytes a quoted string shows as themselves: no control byte, quote or backslash.\<close>

definition plain_byte :: "char \<Rightarrow> bool" where
  "plain_byte c \<longleftrightarrow> 0x20 \<le> byte c \<and> byte c \<noteq> (0x22::nat) \<and> byte c \<noteq> (0x5C::nat)"

lemma plain_byte_neq:
  "plain_byte c \<Longrightarrow> c \<noteq> dquote" "plain_byte c \<Longrightarrow> c \<noteq> bslash" "plain_byte c \<Longrightarrow> c \<noteq> nl"
  by (auto simp: plain_byte_def)

lemma hex_digit_plain: "d < 16 \<Longrightarrow> plain_byte (hex_digit d)"
  by (auto simp: plain_byte_def hex_digit_def)

lemma hex2_plain: "n < 256 \<Longrightarrow> c \<in> set (hex2 n) \<Longrightarrow> plain_byte c"
  using hex_digit_plain [of "n div 16"] hex_digit_plain [of "n mod 16"]
  by (auto simp: hex2_def less_mult_imp_div_less)

lemma hex4_plain: "n < 65536 \<Longrightarrow> c \<in> set (hex4 n) \<Longrightarrow> plain_byte c"
  using hex2_plain [of "n div 256" c] hex2_plain [of "n mod 256" c]
  by (auto simp: hex4_def less_mult_imp_div_less)

lemma hex8_plain: "n < 4294967296 \<Longrightarrow> c \<in> set (hex8 n) \<Longrightarrow> plain_byte c"
  using hex4_plain [of "n div 65536" c] hex4_plain [of "n mod 65536" c]
  by (auto simp: hex8_def less_mult_imp_div_less)

section \<open>Quoting\<close>

text \<open>\<^verbatim>\<open>strconv.IsPrint\<close>: exact up to U+00FF, the table \<open>pr\<close> above.\<close>

definition is_print :: "(nat \<Rightarrow> bool) \<Rightarrow> nat \<Rightarrow> bool" where
  "is_print pr r \<longleftrightarrow>
     (if r \<le> 0xFF then (0x20 \<le> r \<and> r < 0x7F) \<or> (0xA1 \<le> r \<and> r \<noteq> 0xAD) else pr r)"

definition escape_rune :: "(nat \<Rightarrow> bool) \<Rightarrow> nat \<Rightarrow> string" where
  "escape_rune pr r =
     (if r = 0x22 then [bslash, dquote]
      else if r = 0x5C then [bslash, bslash]
      else if is_print pr r then encode_rune r
      else if r = 0x07 then [bslash, CHR ''a'']
      else if r = 0x08 then [bslash, CHR ''b'']
      else if r = 0x0C then [bslash, CHR ''f'']
      else if r = 0x0A then [bslash, CHR ''n'']
      else if r = 0x0D then [bslash, CHR ''r'']
      else if r = 0x09 then [bslash, CHR ''t'']
      else if r = 0x0B then [bslash, CHR ''v'']
      else if r < 0x20 \<or> r = 0x7F then bslash # CHR ''x'' # hex2 r
      else if r < 0x10000 then bslash # CHR ''u'' # hex4 r
      else bslash # CHR ''U'' # hex8 r)"

function quote_body :: "(nat \<Rightarrow> bool) \<Rightarrow> string \<Rightarrow> string" where
  "quote_body pr [] = []"
| "quote_body pr (c # s) =
     (if decode_rune (c # s) = (rune_error, 1)
      then bslash # CHR ''x'' # hex2 (byte c) @ quote_body pr s
      else escape_rune pr (fst (decode_rune (c # s)))
             @ quote_body pr (drop (snd (decode_rune (c # s))) (c # s)))"
  by pat_completeness auto
termination
proof (relation "measure (\<lambda>(pr, s). length s)")
  fix pr :: "nat \<Rightarrow> bool" and c s
  have "0 < snd (decode_rune (c # s))" by simp
  then show "((pr, drop (snd (decode_rune (c # s))) (c # s)), (pr, c # s))
      \<in> measure (\<lambda>(pr, s). length s)"
    by (simp only: in_measure split length_drop) simp
qed simp_all

definition quote :: "(nat \<Rightarrow> bool) \<Rightarrow> string \<Rightarrow> string" where
  "quote pr s = dquote # quote_body pr s @ [dquote]"

section \<open>Reading a quoted string back\<close>

text \<open>A reader's result is the text read and the rest of the input; more text is put in front.\<close>

definition prepend :: "string \<Rightarrow> (string \<times> string) option \<Rightarrow> (string \<times> string) option" where
  "prepend w r = (case r of None \<Rightarrow> None | Some (v, t) \<Rightarrow> Some (w @ v, t))"

lemma prepend_simps [simp]:
  "prepend w None = None" "prepend w (Some (v, t)) = Some (w @ v, t)"
  by (simp_all add: prepend_def)

lemma prepend_Nil [simp]: "prepend [] r = r"
  by (simp add: prepend_def split: option.split)

lemma prepend_prepend [simp]: "prepend w (prepend v r) = prepend (w @ v) r"
  by (simp add: prepend_def split: option.split)

text \<open>The text up to the closing quote, decoded, and the rest of the input.\<close>

definition simple_escapes :: "(char \<times> char) list" where
  "simple_escapes =
     [(dquote, dquote), (bslash, bslash), (CHR ''a'', CHR 0x07), (CHR ''b'', CHR 0x08),
      (CHR ''f'', CHR 0x0C), (CHR ''n'', CHR 0x0A), (CHR ''r'', CHR 0x0D),
      (CHR ''t'', CHR 0x09), (CHR ''v'', CHR 0x0B)]"

definition escape_len :: "char \<Rightarrow> nat" where
  "escape_len e =
     (if e = CHR ''x'' then 2 else if e = CHR ''u'' then 4 else if e = CHR ''U'' then 8 else 0)"

function unquote_body :: "string \<Rightarrow> (string \<times> string) option" where
  "unquote_body [] = None"
| "unquote_body (c # s) =
     (if c = dquote then Some ([], s)
      else if c = nl then None
      else if c = bslash then
        (case s of
           [] \<Rightarrow> None
         | e # t \<Rightarrow>
             (case map_of simple_escapes e of
                Some b \<Rightarrow> prepend [b] (unquote_body t)
              | None \<Rightarrow>
                  if escape_len e = 0 \<or> length t < escape_len e then None
                  else (case hex_number 0 (take (escape_len e) t) of
                          None \<Rightarrow> None
                        | Some n \<Rightarrow>
                            if e = CHR ''x''
                            then prepend [char_of n]
                                   (unquote_body (drop (escape_len e) t))
                            else if \<not> valid_rune n then None
                            else prepend (encode_rune n)
                                   (unquote_body (drop (escape_len e) t)))))
      else prepend [c] (unquote_body s))"
  by pat_completeness auto
termination by (relation "measure length") simp_all

definition unquote :: "string \<Rightarrow> string option" where
  "unquote s =
     (case s of
        c # t \<Rightarrow> if c = dquote
                 then (case unquote_body t of Some (v, []) \<Rightarrow> Some v | _ \<Rightarrow> None)
                 else None
      | [] \<Rightarrow> None)"


declare unquote_body.simps [simp del]

lemma unquote_body_plain:
  "c \<noteq> dquote \<Longrightarrow> c \<noteq> bslash \<Longrightarrow> c \<noteq> nl \<Longrightarrow>
     unquote_body (c # s) = prepend [c] (unquote_body s)"
  by (simp add: unquote_body.simps)

lemma unquote_body_copy:
  "\<forall>c \<in> set w. c \<noteq> dquote \<and> c \<noteq> bslash \<and> c \<noteq> nl \<Longrightarrow>
     unquote_body (w @ s) = prepend w (unquote_body s)"
  by (induction w) (simp_all add: unquote_body_plain)

lemma unquote_body_close [simp]: "unquote_body (dquote # s) = Some ([], s)"
  by (simp add: unquote_body.simps)

lemma unquote_body_simple:
  "map_of simple_escapes e = Some b \<Longrightarrow>
     unquote_body (bslash # e # s) = prepend [b] (unquote_body s)"
  by (simp add: unquote_body.simps)

lemma unquote_body_x:
  assumes "n < 256"
  shows "unquote_body (bslash # CHR ''x'' # hex2 n @ s) =
     prepend [char_of n] (unquote_body s)"
proof -
  have "hex_number 0 (hex2 n @ []) = Some n" using assms by (subst hex_number_hex2) simp_all
  then show ?thesis by (simp add: unquote_body.simps simple_escapes_def escape_len_def)
qed

lemma unquote_body_u:
  assumes "n < 65536" and "valid_rune n"
  shows "unquote_body (bslash # CHR ''u'' # hex4 n @ s) =
     prepend (encode_rune n) (unquote_body s)"
proof -
  have "hex_number 0 (hex4 n @ []) = Some n" using assms by (subst hex_number_hex4) simp_all
  then show ?thesis using assms(2) by (simp add: unquote_body.simps simple_escapes_def escape_len_def)
qed

lemma unquote_body_U:
  assumes "n < 4294967296" and "valid_rune n"
  shows "unquote_body (bslash # CHR ''U'' # hex8 n @ s) =
     prepend (encode_rune n) (unquote_body s)"
proof -
  have "hex_number 0 (hex8 n @ []) = Some n" using assms by (subst hex_number_hex8) simp_all
  then show ?thesis using assms(2) by (simp add: unquote_body.simps simple_escapes_def escape_len_def)
qed

lemma encode_rune_high:
  "0x80 \<le> r \<Longrightarrow> c \<in> set (encode_rune r) \<Longrightarrow> 0x80 \<le> (byte c :: nat)"
proof -
  assume r: "0x80 \<le> r" and c: "c \<in> set (encode_rune r)"
  define q where "q = (if valid_rune r then r else rune_error)"
  have q: "0x80 \<le> q" "q \<le> 0x10FFFF" using r by (auto simp: q_def valid_rune_def)
  have "q div 0x40000 \<le> 4" using q by auto
  moreover have "q < 0x800 \<Longrightarrow> q div 0x40 < 0x20" "q < 0x10000 \<Longrightarrow> q div 0x1000 < 0x10" by auto
  moreover have "q div 0x1000 mod 0x40 < 0x40" "q div 0x40 mod 0x40 < 0x40" "q mod 0x40 < 0x40"
    by simp_all
  ultimately show ?thesis
    using c q unfolding encode_rune_def Let_def q_def [symmetric]
    by (auto split: if_splits)
qed

lemma encode_rune_ascii: "r < 0x80 \<Longrightarrow> encode_rune r = [char_of r]"
  by (simp add: encode_rune_def valid_rune_def)

lemma high_plain: "0x80 \<le> (byte c :: nat) \<Longrightarrow> plain_byte c"
  by (simp add: plain_byte_def)

lemma is_print_plain:
  assumes "is_print pr r" and "r \<noteq> 0x22" and "r \<noteq> 0x5C" and "c \<in> set (encode_rune r)"
  shows "plain_byte c"
proof (cases "r < 0x80")
  case True
  with assms show ?thesis
    by (auto simp: is_print_def encode_rune_ascii plain_byte_def)
next
  case False
  then show ?thesis using assms(4) by (intro high_plain encode_rune_high) auto
qed

lemma char_of_specials:
  "char_of (0x22::nat) = dquote" "char_of (0x5C::nat) = bslash" "char_of (0x07::nat) = CHR 0x07"
  "char_of (0x08::nat) = CHR 0x08" "char_of (0x0C::nat) = CHR 0x0C" "char_of (0x0A::nat) = CHR 0x0A"
  "char_of (0x0D::nat) = CHR 0x0D" "char_of (0x09::nat) = CHR 0x09" "char_of (0x0B::nat) = CHR 0x0B"
  by code_simp+

lemma unquote_escape_rune:
  assumes "valid_rune r"
  shows "unquote_body (escape_rune pr r @ s) =
     prepend (encode_rune r) (unquote_body s)"
proof -
  consider "r = 0x22 \<or> r = 0x5C"
    | "r \<noteq> 0x22" "r \<noteq> 0x5C" "is_print pr r"
    | "\<not> is_print pr r" "r \<in> {0x07, 0x08, 0x0C, 0x0A, 0x0D, 0x09, 0x0B}"
    | "r \<noteq> 0x22" "r \<noteq> 0x5C" "\<not> is_print pr r" "r \<notin> {0x07, 0x08, 0x0C, 0x0A, 0x0D, 0x09, 0x0B}"
    by blast
  then show ?thesis
  proof cases
    case 1
    then show ?thesis
      by (auto simp: escape_rune_def encode_rune_ascii unquote_body_simple simple_escapes_def
          char_of_specials)
  next
    case 2
    then have "escape_rune pr r = encode_rune r" by (simp add: escape_rune_def)
    moreover have "\<forall>c \<in> set (encode_rune r). c \<noteq> dquote \<and> c \<noteq> bslash \<and> c \<noteq> nl"
      using is_print_plain [OF 2(3,1,2)] plain_byte_neq by blast
    ultimately show ?thesis by (simp only: unquote_body_copy)
  next
    case 3
    then show ?thesis
      by (auto simp: escape_rune_def encode_rune_ascii unquote_body_simple simple_escapes_def
          char_of_specials)
  next
    case 4
    show ?thesis
    proof (cases "r < 0x20 \<or> r = 0x7F")
      case True
      then have "escape_rune pr r = bslash # CHR ''x'' # hex2 r"
        using 4 by (simp add: escape_rune_def)
      then show ?thesis using True by (auto simp: unquote_body_x encode_rune_ascii)
    next
      case False
      have "r < 4294967296" using assms by (auto simp: valid_rune_def)
      moreover have "escape_rune pr r =
          (if r < 0x10000 then bslash # CHR ''u'' # hex4 r else bslash # CHR ''U'' # hex8 r)"
        using 4 False by (simp add: escape_rune_def)
      ultimately show ?thesis using assms by (simp add: unquote_body_u unquote_body_U)
    qed
  qed
qed

lemma unquote_quote_body:
  "unquote_body (quote_body pr s @ t) = prepend s (unquote_body t)"
proof (induction pr s rule: quote_body.induct)
  case (1 pr)
  show ?case by simp
next
  case (2 pr c s)
  show ?case
  proof (cases "decode_rune (c # s) = (rune_error, 1)")
    case True
    with 2 show ?thesis
      by (simp add: unquote_body_x)
  next
    case False
    let ?r = "fst (decode_rune (c # s))" and ?n = "snd (decode_rune (c # s))"
    have v: "valid_rune ?r" "encode_rune ?r = take ?n (c # s)"
      using decode_rune_valid [of "c # s"] False by auto
    have "unquote_body (quote_body pr (c # s) @ t) =
        prepend (take ?n (c # s)) (prepend (drop ?n (c # s)) (unquote_body t))"
      using False "2.IH"(2) [OF False] by (simp add: unquote_escape_rune v)
    then show ?thesis by simp
  qed
qed

theorem unquote_quote: "unquote (quote pr s) = Some s"
  using unquote_quote_body [of pr s "[dquote]"] by (simp add: unquote_def quote_def)

lemma quote_inj: "quote pr s = quote pr t \<Longrightarrow> s = t"
  by (metis option.inject unquote_quote)

lemma escape_rune_no_nl: "valid_rune r \<Longrightarrow> nl \<notin> set (escape_rune pr r)"
proof -
  assume "valid_rune r"
  then have "r < 4294967296" by (auto simp: valid_rune_def)
  then show ?thesis
    using hex2_plain [of r nl] hex4_plain [of r nl] hex8_plain [of r nl]
      is_print_plain [of pr r nl] plain_byte_neq(3) [of nl]
    by (auto simp: escape_rune_def)
qed

lemma quote_body_no_nl: "nl \<notin> set (quote_body pr s)"
proof (induction pr s rule: quote_body.induct)
  case (2 pr c s)
  have "nl \<notin> set (hex2 (byte c))"
    using hex2_plain [of "byte c" nl] plain_byte_neq(3) [of nl] by auto
  moreover have "decode_rune (c # s) \<noteq> (rune_error, 1) \<Longrightarrow>
      nl \<notin> set (escape_rune pr (fst (decode_rune (c # s))))"
    using decode_rune_valid(1) [of "c # s"] by (intro escape_rune_no_nl) auto
  ultimately show ?case using 2 by auto
qed simp

lemma quote_no_nl: "nl \<notin> set (quote pr s)"
  by (simp add: quote_def quote_body_no_nl)

end
