(* ===== verification/Json.thy ===== *)
theory Json
  imports Go_Quote
begin

text \<open>
  Go's \<^verbatim>\<open>encoding/json\<close>, as far as the harness uses it: the grammar its scanner accepts,
  the decoding of string literals (with the replacement of malformed UTF-8 and lone
  surrogates), the nesting limit, the matching of object keys with struct fields, the
  decoding of \<^verbatim>\<open>string\<close>, \<^verbatim>\<open>*string\<close> and \<^verbatim>\<open>*int\<close> fields, and the encoding of
  strings with HTML escaping.
\<close>

section \<open>Values\<close>

datatype json =
    JNull
  | JBool bool
  | JNum string \<comment> \<open>the literal's text\<close>
  | JStr string
  | JArr "json list"
  | JObj "(string \<times> json) list" \<comment> \<open>the members in the order of the text\<close>

section \<open>Malformed UTF-8\<close>

text \<open>Each byte that starts no code point becomes U+FFFD.\<close>

function coerce :: "string \<Rightarrow> string" where
  "coerce [] = []"
| "coerce (c # s) =
     (if decode_rune (c # s) = (rune_error, 1) then encode_rune rune_error @ coerce s
      else take (snd (decode_rune (c # s))) (c # s)
             @ coerce (drop (snd (decode_rune (c # s))) (c # s)))"
  by pat_completeness auto
termination
proof (relation "measure length")
  fix c s
  have "0 < snd (decode_rune (c # s))" by simp
  then show "(drop (snd (decode_rune (c # s))) (c # s), c # s) \<in> measure length"
    by (simp only: in_measure length_drop) simp
qed simp_all

lemma valid_utf8_coerce [simp]: "valid_utf8 (coerce s)"
proof (induction s rule: coerce.induct)
  case (2 c s)
  show ?case
  proof (cases "decode_rune (c # s) = (rune_error, 1)")
    case True
    with 2 show ?thesis by (simp add: valid_utf8_append)
  next
    case False
    then have "take (snd (decode_rune (c # s))) (c # s) = encode_rune (fst (decode_rune (c # s)))"
      using decode_rune_valid(2) [of "c # s"] by simp
    with 2 False show ?thesis by (simp add: valid_utf8_append del: take_Suc_Cons)
  qed
qed simp

lemma decode_rune_encoded_error: "valid_rune r \<Longrightarrow> decode_rune (encode_rune r @ s) \<noteq> (rune_error, 1)"
proof
  assume r: "valid_rune r" and e: "decode_rune (encode_rune r @ s) = (rune_error, 1)"
  have "(r, length (encode_rune r)) = (rune_error, 1)"
    by (rule trans [OF sym [OF decode_encode [OF r]] e])
  then have "r = rune_error" and one: "length (encode_rune r) = 1" by blast+
  then have "length (encode_rune r) = 3" by (simp only:) (simp add: encode_rune_def)
  with one show False by simp
qed

lemma coerce_utf8: "\<forall>r \<in> set rs. valid_rune r \<Longrightarrow> coerce (utf8 rs) = utf8 rs"
proof (induction rs)
  case (Cons r rs)
  obtain c t where e: "encode_rune r @ utf8 rs = c # t"
    by (cases "encode_rune r @ utf8 rs") auto
  have r: "valid_rune r" using Cons.prems by simp
  have "decode_rune (c # t) = (r, length (encode_rune r))"
    using decode_encode [OF r] e by metis
  moreover have "decode_rune (c # t) \<noteq> (rune_error, 1)"
    using decode_rune_encoded_error [OF r] e by metis
  ultimately have "coerce (c # t) =
      take (length (encode_rune r)) (c # t) @ coerce (drop (length (encode_rune r)) (c # t))"
    by (simp only: coerce.simps if_False fst_conv snd_conv)
  then have "coerce (encode_rune r @ utf8 rs) = encode_rune r @ coerce (utf8 rs)"
    unfolding e [symmetric] by simp
  with Cons show ?case by simp
qed simp

lemma coerce_valid: "valid_utf8 s \<Longrightarrow> coerce s = s"
  by (auto simp: valid_utf8_def coerce_utf8)

section \<open>String literals\<close>

definition json_escapes :: "(char \<times> char) list" where
  "json_escapes =
     [(dquote, dquote), (bslash, bslash), (CHR ''/'', CHR ''/''), (CHR ''b'', CHR 0x08),
      (CHR ''f'', CHR 0x0C), (CHR ''n'', CHR 0x0A), (CHR ''r'', CHR 0x0D), (CHR ''t'', CHR 0x09)]"

text \<open>The value of four hexadecimal digits at the front of a text.\<close>

definition u4 :: "string \<Rightarrow> nat option" where
  "u4 s = (if length s < 4 then None else hex_number 0 (take 4 s))"

text \<open>
  The code point of the escape whose four digits are read as \<open>r\<close> before the text \<open>t\<close>,
  and how many further bytes it takes: a surrogate pair is one code point, a lone
  surrogate is U+FFFD.
\<close>

definition u_escape :: "nat \<Rightarrow> string \<Rightarrow> nat \<times> nat" where
  "u_escape r t =
     (if r < 0xD800 \<or> 0xDFFF < r then (r, 0)
      else if r < 0xDC00 \<and> take 2 t = [bslash, CHR ''u''] then
        (case u4 (drop 2 t) of
           Some q \<Rightarrow> if 0xDC00 \<le> q \<and> q \<le> 0xDFFF
                     then (0x10000 + (r - 0xD800) * 0x400 + (q - 0xDC00), 6)
                     else (rune_error, 0)
         | None \<Rightarrow> (rune_error, 0))
      else (rune_error, 0))"

text \<open>The literal after its opening quote.\<close>

function json_string :: "string \<Rightarrow> (string \<times> string) option" where
  "json_string [] = None"
| "json_string (c # s) =
     (if c = dquote then Some ([], s)
      else if c = bslash then
        (case s of
           [] \<Rightarrow> None
         | e # t \<Rightarrow>
             (case map_of json_escapes e of
                Some b \<Rightarrow> prepend [b] (json_string t)
              | None \<Rightarrow>
                  if e = CHR ''u'' then
                    (case u4 t of
                       None \<Rightarrow> None
                     | Some r \<Rightarrow>
                         prepend (encode_rune (fst (u_escape r (drop 4 t))))
                           (json_string (drop (4 + snd (u_escape r (drop 4 t))) t)))
                  else None))
      else if byte c < (0x20::nat) then None
      else if decode_rune (c # s) = (rune_error, 1)
      then prepend (encode_rune rune_error) (json_string s)
      else prepend (take (snd (decode_rune (c # s))) (c # s))
             (json_string (drop (snd (decode_rune (c # s))) (c # s))))"
  by pat_completeness auto
termination
proof (relation "measure length")
  fix c s
  have "0 < snd (decode_rune (c # s))" by simp
  then show "(drop (snd (decode_rune (c # s))) (c # s), c # s) \<in> measure length"
    by (simp only: in_measure length_drop) simp
qed simp_all

declare json_string.simps [simp del]

lemma prepend_Some_iff:
  "prepend w r = Some (v, t) \<longleftrightarrow> (\<exists>u. r = Some (u, t) \<and> v = w @ u)"
  by (auto simp: prepend_def split: option.splits)

lemma json_string_shorter: "json_string s = Some (v, t) \<Longrightarrow> length t < length s"
proof (induction s arbitrary: v rule: length_induct)
  case (1 s0)
  then obtain c s where s0: "s0 = c # s" by (cases s0) (auto simp: json_string.simps)
  note prem = 1(2) [unfolded s0]
  have IH: "length u < length s0 \<Longrightarrow> json_string u = Some (w, t) \<Longrightarrow> length t < length u" for u w
    using 1(1) by blast
  let ?n = "snd (decode_rune (c # s))"
  consider "c = dquote" | (esc) e u where "c = bslash" "s = e # u"
    | (raw) "c \<noteq> dquote" "c \<noteq> bslash"
    using prem by (cases s) (auto simp: json_string.simps split: if_splits)
  then have "length t < length (c # s)"
  proof cases
    case 1
    with prem show ?thesis by (simp add: json_string.simps)
  next
    case esc
    show ?thesis
    proof (cases "map_of json_escapes e")
      case (Some b)
      with prem esc obtain w where "json_string u = Some (w, t)"
        by (auto simp: json_string.simps prepend_Some_iff)
      with IH [of u w] s0 esc have "length t < length u" by simp
      with esc show ?thesis by simp
    next
      case None
      then obtain r where r: "e = CHR ''u''" "u4 u = Some r"
        using prem esc by (auto simp: json_string.simps split: if_splits option.splits)
      let ?d = "drop (4 + snd (u_escape r (drop 4 u))) u"
      obtain w where "json_string ?d = Some (w, t)"
        using prem esc None r by (auto simp: json_string.simps prepend_Some_iff)
      with IH [of ?d w] s0 esc have "length t < length ?d" by simp
      with esc show ?thesis by simp
    qed
  next
    case raw
    have ctl: "\<not> byte c < (0x20::nat)"
      using prem raw by (auto simp: json_string.simps)
    show ?thesis
    proof (cases "decode_rune (c # s) = (rune_error, 1)")
      case True
      then obtain w where "json_string s = Some (w, t)"
        using prem raw ctl by (auto simp: json_string.simps prepend_Some_iff)
      with IH [of s w] s0 show ?thesis by simp
    next
      case False
      then obtain w where "json_string (drop ?n (c # s)) = Some (w, t)"
        using prem raw ctl by (auto simp: json_string.simps prepend_Some_iff)
      moreover have "length (drop ?n (c # s)) < length s0"
        using decode_rune_width_pos [of "c # s"] s0 by (simp only: length_drop) simp
      ultimately have "length t < length (drop ?n (c # s))" by (rule IH [rotated])
      then show ?thesis by (simp only: length_drop)
    qed
  qed
  then show ?case unfolding s0 .
qed

section \<open>Numbers and white space\<close>

definition json_space :: "char \<Rightarrow> bool" where
  "json_space c \<longleftrightarrow> c \<in> {CHR '' '', CHR 0x09, CHR 0x0A, CHR 0x0D}"

definition skip_ws :: "string \<Rightarrow> string" where
  "skip_ws s = dropWhile json_space s"

lemma length_skip_ws: "length (skip_ws s) \<le> length s"
  by (simp add: skip_ws_def length_dropWhile_le)

text \<open>A non-empty run of digits and what follows it.\<close>

definition digits1 :: "string \<Rightarrow> (string \<times> string) option" where
  "digits1 s = (if takeWhile is_digit s = [] then None
                else Some (takeWhile is_digit s, dropWhile is_digit s))"

definition json_int_part :: "string \<Rightarrow> (string \<times> string) option" where
  "json_int_part s =
     (case s of [] \<Rightarrow> None
      | c # t \<Rightarrow> if c = CHR ''0'' then Some ([c], t) else digits1 s)"

definition json_frac_part :: "string \<Rightarrow> (string \<times> string) option" where
  "json_frac_part s =
     (case s of [] \<Rightarrow> Some ([], [])
      | c # t \<Rightarrow> if c = CHR ''.'' then prepend [c] (digits1 t) else Some ([], s))"

definition json_exp_part :: "string \<Rightarrow> (string \<times> string) option" where
  "json_exp_part s =
     (case s of [] \<Rightarrow> Some ([], [])
      | c # t \<Rightarrow>
          if c = CHR ''e'' \<or> c = CHR ''E'' then
            (case t of
               [] \<Rightarrow> None
             | x # u \<Rightarrow> if x = CHR ''+'' \<or> x = CHR ''-'' then prepend [c, x] (digits1 u)
                        else prepend [c] (digits1 t))
          else Some ([], s))"

definition json_number :: "string \<Rightarrow> (string \<times> string) option" where
  "json_number s =
     (let sign = (if has_prefix s ''-'' then ''-'' else []) in
      case json_int_part (drop (length sign) s) of
        None \<Rightarrow> None
      | Some (i, s1) \<Rightarrow>
          (case json_frac_part s1 of
             None \<Rightarrow> None
           | Some (f, s2) \<Rightarrow> prepend (sign @ i @ f) (json_exp_part s2)))"

lemma digits1_shorter: "digits1 s = Some (v, t) \<Longrightarrow> s = v @ t \<and> v \<noteq> []"
  by (auto simp: digits1_def split: if_splits)

lemma json_int_part_split: "json_int_part s = Some (v, t) \<Longrightarrow> s = v @ t \<and> v \<noteq> []"
  by (auto simp: json_int_part_def split: list.splits if_splits dest: digits1_shorter)

lemma json_frac_part_split: "json_frac_part s = Some (v, t) \<Longrightarrow> s = v @ t"
  by (auto simp: json_frac_part_def prepend_Some_iff split: list.splits if_splits
      dest: digits1_shorter)

lemma json_exp_part_split: "json_exp_part s = Some (v, t) \<Longrightarrow> s = v @ t"
  by (auto simp: json_exp_part_def prepend_Some_iff split: list.splits if_splits
      dest: digits1_shorter)

lemma json_number_split: "json_number s = Some (v, t) \<Longrightarrow> s = v @ t \<and> v \<noteq> []"
  by (auto simp: json_number_def Let_def prepend_Some_iff has_prefix_iff
      split: option.splits if_splits
      dest!: json_int_part_split json_frac_part_split json_exp_part_split)

section \<open>The parser\<close>

text \<open>
  One value at the front of a text that starts with no white space.  The first argument
  is fuel, the second the number of arrays and objects that are open; Go refuses to open
  more than \<open>max_depth\<close>.
\<close>

definition max_depth :: nat where
  "max_depth = 10000"

fun parse_value :: "nat \<Rightarrow> nat \<Rightarrow> string \<Rightarrow> (json \<times> string) option"
  and parse_elems :: "nat \<Rightarrow> nat \<Rightarrow> string \<Rightarrow> (json list \<times> string) option"
  and parse_members :: "nat \<Rightarrow> nat \<Rightarrow> string \<Rightarrow> ((string \<times> json) list \<times> string) option"
where
  "parse_value 0 d s = None"
| "parse_value (Suc n) d s =
     (if s = [] then None
      else if hd s = dquote then
        (case json_string (tl s) of None \<Rightarrow> None | Some (v, r) \<Rightarrow> Some (JStr v, r))
      else if hd s = CHR ''['' then
        (if max_depth \<le> d then None
         else if has_prefix (skip_ws (tl s)) '']'' then Some (JArr [], tl (skip_ws (tl s)))
         else (case parse_elems n (Suc d) (skip_ws (tl s)) of
                 None \<Rightarrow> None | Some (vs, r) \<Rightarrow> Some (JArr vs, r)))
      else if hd s = CHR ''{'' then
        (if max_depth \<le> d then None
         else if has_prefix (skip_ws (tl s)) ''}'' then Some (JObj [], tl (skip_ws (tl s)))
         else (case parse_members n (Suc d) (skip_ws (tl s)) of
                 None \<Rightarrow> None | Some (ms, r) \<Rightarrow> Some (JObj ms, r)))
      else if has_prefix s ''true'' then Some (JBool True, drop 4 s)
      else if has_prefix s ''false'' then Some (JBool False, drop 5 s)
      else if has_prefix s ''null'' then Some (JNull, drop 4 s)
      else (case json_number s of None \<Rightarrow> None | Some (v, r) \<Rightarrow> Some (JNum v, r)))"
| "parse_elems 0 d s = None"
| "parse_elems (Suc n) d s =
     (case parse_value n d s of
        None \<Rightarrow> None
      | Some (v, r) \<Rightarrow>
          (case skip_ws r of
             [] \<Rightarrow> None
           | c # u \<Rightarrow>
               if c = CHR '']'' then Some ([v], u)
               else if c = CHR '','' then
                 (case parse_elems n d (skip_ws u) of
                    None \<Rightarrow> None | Some (vs, q) \<Rightarrow> Some (v # vs, q))
               else None))"
| "parse_members 0 d s = None"
| "parse_members (Suc n) d s =
     (if \<not> has_prefix s [dquote] then None
      else case json_string (tl s) of
        None \<Rightarrow> None
      | Some (k, r) \<Rightarrow>
          if \<not> has_prefix (skip_ws r) '':'' then None
          else case parse_value n d (skip_ws (tl (skip_ws r))) of
            None \<Rightarrow> None
          | Some (v, q) \<Rightarrow>
              (case skip_ws q of
                 [] \<Rightarrow> None
               | c # u \<Rightarrow>
                   if c = CHR ''}'' then Some ([(k, v)], u)
                   else if c = CHR '','' then
                     (case parse_members n d (skip_ws u) of
                        None \<Rightarrow> None | Some (ms, p) \<Rightarrow> Some ((k, v) # ms, p))
                   else None))"

text \<open>\<^verbatim>\<open>json.Unmarshal\<close> reads a text that is one value and white space.\<close>

definition json_fuel :: "string \<Rightarrow> nat" where
  "json_fuel s = 2 * length s + 2"

definition json_parse :: "string \<Rightarrow> json option" where
  "json_parse s =
     (case parse_value (json_fuel s) 0 (skip_ws s) of
        None \<Rightarrow> None
      | Some (v, r) \<Rightarrow> if skip_ws r = [] then Some v else None)"

text \<open>\<^verbatim>\<open>Decoder.Decode\<close> reads the first value and leaves the rest of its input unread.\<close>

definition json_first :: "string \<Rightarrow> json option" where
  "json_first s = map_option fst (parse_value (json_fuel s) 0 (skip_ws s))"

section \<open>The fuel is enough\<close>

lemma tl_skip_shorter: "s \<noteq> [] \<Longrightarrow> length (skip_ws (tl s)) < length s"
  using length_skip_ws [of "tl s"] by (cases s) auto

lemma parse_shorter:
  "parse_value n d s = Some (v, r) \<Longrightarrow> length r < length s"
  "parse_elems n d s = Some (vs, r) \<Longrightarrow> length r < length s"
  "parse_members n d s = Some (ms, r) \<Longrightarrow> length r < length s"
proof (induction n arbitrary: d s v vs ms r)
  case (Suc n)
  {
    case 1
    then have s: "s \<noteq> []" by auto
    note sk = tl_skip_shorter [OF s]
    have tl: "length (tl s) < length s" using s by simp
    have tsk: "length (tl (skip_ws (tl s))) < length s" using sk by simp
    show ?case
      using 1 s sk tl tsk
      by (auto split: if_splits option.splits simp: has_prefix_iff
          dest!: Suc.IH(2,3) json_string_shorter json_number_split intro: less_trans)
  next
    case 2
    then obtain v' r' where v: "parse_value n d s = Some (v', r')" by (auto split: option.splits)
    with Suc.IH(1) have l: "length r' < length s" by blast
    from 2 v length_skip_ws [of r'] obtain c u where u: "skip_ws r' = c # u" "length (c # u) \<le> length r'"
      by (cases "skip_ws r'") auto
    show ?case
      using 2 v l u length_skip_ws [of u]
      by (auto split: if_splits option.splits dest!: Suc.IH(2))
  next
    case 3
    then have s: "s \<noteq> []" by (auto simp: has_prefix_iff)
    from 3 obtain k r1 where k: "json_string (tl s) = Some (k, r1)"
      by (auto split: option.splits if_splits)
    with s have l1: "length r1 < length s" using json_string_shorter [OF k] by simp
    let ?r2 = "skip_ws (tl (skip_ws r1))"
    have l2: "length ?r2 < length s"
      using l1 length_skip_ws [of r1] length_skip_ws [of "tl (skip_ws r1)"] by simp
    from 3 k obtain v' q where v: "parse_value n d ?r2 = Some (v', q)"
      by (auto split: option.splits if_splits)
    with Suc.IH(1) have l3: "length q < length ?r2" by blast
    from 3 k v obtain c u where u: "skip_ws q = c # u"
      by (cases "skip_ws q") (auto split: if_splits)
    have l4: "length (c # u) \<le> length q" using length_skip_ws [of q] u by simp
    show ?case
      using 3 k v u l2 l3 l4 length_skip_ws [of u]
      by (auto split: if_splits option.splits dest!: Suc.IH(3))
  }
qed simp_all

lemma parse_fuel:
  "2 * length s < n \<Longrightarrow> 2 * length s < m \<Longrightarrow> parse_value n d s = parse_value m d s"
  "2 * length s + 1 < n \<Longrightarrow> 2 * length s + 1 < m \<Longrightarrow> parse_elems n d s = parse_elems m d s"
  "2 * length s + 1 < n \<Longrightarrow> 2 * length s + 1 < m \<Longrightarrow> parse_members n d s = parse_members m d s"
proof (induction n arbitrary: d s m)
  case (Suc n)
  {
    case 1
    then obtain k where m: "m = Suc k" by (cases m) auto
    show ?case
    proof (cases "s = []")
      case False
      have sk: "2 * length (skip_ws (tl s)) + 1 < n" "2 * length (skip_ws (tl s)) + 1 < k"
        using tl_skip_shorter [OF False] 1 m by linarith+
      show ?thesis
        unfolding m parse_value.simps
        by (simp only: Suc.IH(2) [OF sk] Suc.IH(3) [OF sk])
    qed (simp add: m)
  next
    case 2
    then obtain k where m: "m = Suc k" by (cases m) auto
    have v: "parse_value n d s = parse_value k d s" using 2 m by (intro Suc.IH(1)) auto
    have e: "parse_elems n d (skip_ws u) = parse_elems k d (skip_ws u)"
      if "parse_value k d s = Some (w, r)" "skip_ws r = c # u" for w r c u
    proof -
      have "length r < length s" using that(1) by (rule parse_shorter)
      then have "length (skip_ws u) + 2 \<le> length s"
        using that(2) length_skip_ws [of r] length_skip_ws [of u] by simp
      then show ?thesis using 2 m by (intro Suc.IH(2)) auto
    qed
    show ?case
      unfolding m parse_elems.simps v
      by (auto split: option.split list.split simp: e)
  next
    case 3
    then obtain k where m: "m = Suc k" by (cases m) auto
    have v: "parse_value n d (skip_ws (tl (skip_ws r))) = parse_value k d (skip_ws (tl (skip_ws r)))"
      if "json_string (tl s) = Some (w, r)" for w r
    proof -
      have "length r < length s" using json_string_shorter [OF that] by simp
      then have "length (skip_ws (tl (skip_ws r))) < length s"
        using length_skip_ws [of r] length_skip_ws [of "tl (skip_ws r)"] by simp
      then show ?thesis using 3 m by (intro Suc.IH(1)) auto
    qed
    have e: "parse_members n d (skip_ws u) = parse_members k d (skip_ws u)"
      if "json_string (tl s) = Some (w, r)"
        "parse_value k d (skip_ws (tl (skip_ws r))) = Some (x, q)" "skip_ws q = c # u" for w r x q c u
    proof -
      have "length r < length s" using json_string_shorter [OF that(1)] by simp
      moreover have "length q < length (skip_ws (tl (skip_ws r)))" by (rule parse_shorter(1) [OF that(2)])
      ultimately have "length (skip_ws u) + 2 \<le> length s"
        using that(3) length_skip_ws [of q] length_skip_ws [of u] length_skip_ws [of r]
          length_skip_ws [of "tl (skip_ws r)"] by simp
      then show ?thesis using 3 m by (intro Suc.IH(3)) auto
    qed
    show ?case
      unfolding m parse_members.simps
      by (auto split: option.split list.split simp: e v)
  }
qed simp_all
lemma parse_more:
  "parse_value n d s = Some x \<Longrightarrow> parse_value (n + m) d s = Some x"
  "parse_elems n d s = Some y \<Longrightarrow> parse_elems (n + m) d s = Some y"
  "parse_members n d s = Some z \<Longrightarrow> parse_members (n + m) d s = Some z"
proof (induction n arbitrary: d s x y z)
  case (Suc n)
  {
    case 1
    then show ?case
      by (auto split: if_splits option.splits simp: Suc.IH(2,3))
  next
    case 2
    then show ?case
      by (auto split: if_splits option.splits list.splits dest!: Suc.IH(1,2))
  next
    case 3
    then show ?case
      by (auto split: if_splits option.splits list.splits dest!: Suc.IH(1,3))
  }
qed simp_all

text \<open>A value read with some fuel is the value the decoders read.\<close>

lemma parse_enough:
  assumes "parse_value n 0 (skip_ws s) = Some (v, r)"
  shows "parse_value (json_fuel s) 0 (skip_ws s) = Some (v, r)"
proof -
  have "2 * length (skip_ws s) < json_fuel s"
    using length_skip_ws [of s] by (simp add: json_fuel_def)
  then have "parse_value (json_fuel s) 0 (skip_ws s) = parse_value (n + json_fuel s) 0 (skip_ws s)"
    by (intro parse_fuel(1)) simp_all
  then show ?thesis using parse_more(1) [OF assms] by simp
qed

lemma json_parse_iff:
  "json_parse s = Some v \<longleftrightarrow> (\<exists>n r. parse_value n 0 (skip_ws s) = Some (v, r) \<and> skip_ws r = [])"
proof
  assume "json_parse s = Some v"
  then obtain r where "parse_value (json_fuel s) 0 (skip_ws s) = Some (v, r)" "skip_ws r = []"
    by (auto simp: json_parse_def split: option.splits if_splits)
  then show "\<exists>n r. parse_value n 0 (skip_ws s) = Some (v, r) \<and> skip_ws r = []" by blast
next
  assume "\<exists>n r. parse_value n 0 (skip_ws s) = Some (v, r) \<and> skip_ws r = []"
  then obtain n r where "parse_value n 0 (skip_ws s) = Some (v, r)" "skip_ws r = []" by blast
  then show "json_parse s = Some v" using parse_enough by (simp add: json_parse_def)
qed

lemma json_first_iff:
  "json_first s = Some v \<longleftrightarrow> (\<exists>n r. parse_value n 0 (skip_ws s) = Some (v, r))"
proof
  assume "json_first s = Some v"
  then obtain r where "parse_value (json_fuel s) 0 (skip_ws s) = Some (v, r)"
    by (auto simp: json_first_def)
  then show "\<exists>n r. parse_value n 0 (skip_ws s) = Some (v, r)" by blast
next
  assume "\<exists>n r. parse_value n 0 (skip_ws s) = Some (v, r)"
  then obtain n r where "parse_value n 0 (skip_ws s) = Some (v, r)" by blast
  then show "json_first s = Some v" using parse_enough by (simp add: json_first_def)
qed

lemma json_parse_first: "json_parse s = Some v \<Longrightarrow> json_first s = Some v"
  unfolding json_parse_iff json_first_iff by blast

section \<open>Objects into structs\<close>

text \<open>
  \<^verbatim>\<open>foldName\<close>: ASCII letters in upper case and, among the other code points, the two
  whose simple folding is an ASCII letter.  Field names are ASCII, so no other folding
  can make a key match one.
\<close>

definition upper :: "char \<Rightarrow> char" where
  "upper c = (if 97 \<le> byte c \<and> byte c \<le> (122::nat) then char_of (byte c - (32::nat)) else c)"

fun fold_name :: "string \<Rightarrow> string" where
  "fold_name (c # d # e # s) =
     (if [c, d] = [CHR 0xC5, CHR 0xBF] then CHR ''S'' # fold_name (e # s)
      else if [c, d, e] = [CHR 0xE2, CHR 0x84, CHR 0xAA] then CHR ''K'' # fold_name s
      else upper c # fold_name (d # e # s))"
| "fold_name [c, d] = (if [c, d] = [CHR 0xC5, CHR 0xBF] then ''S'' else [upper c, upper d])"
| "fold_name [c] = [upper c]"
| "fold_name [] = []"

definition equal_fold :: "string \<Rightarrow> string \<Rightarrow> bool" where
  "equal_fold s t \<longleftrightarrow> fold_name s = fold_name t"

text \<open>The members of a value decoded into a struct; \<^verbatim>\<open>null\<close> leaves the struct alone.\<close>

definition struct_members :: "json \<Rightarrow> (string \<times> json) list option" where
  "struct_members j = (case j of JObj ms \<Rightarrow> Some ms | JNull \<Rightarrow> Some [] | _ \<Rightarrow> None)"

definition field_values :: "string \<Rightarrow> (string \<times> json) list \<Rightarrow> json list" where
  "field_values name ms = map snd (filter (\<lambda>(k, v). equal_fold k name) ms)"

text \<open>Decoding the values given to a \<^verbatim>\<open>string\<close> or a \<^verbatim>\<open>*string\<close> field, in turn.\<close>

fun str_field :: "string \<Rightarrow> json list \<Rightarrow> string option" where
  "str_field cur [] = Some cur"
| "str_field cur (JStr v # vs) = str_field v vs"
| "str_field cur (JNull # vs) = str_field cur vs"
| "str_field cur (_ # vs) = None"

fun ptr_field :: "string option \<Rightarrow> json list \<Rightarrow> string option option" where
  "ptr_field cur [] = Some cur"
| "ptr_field cur (JStr v # vs) = ptr_field (Some v) vs"
| "ptr_field cur (JNull # vs) = ptr_field None vs"
| "ptr_field cur (_ # vs) = None"

lemma equal_fold_refl [simp]: "equal_fold s s"
  by (simp add: equal_fold_def)

lemma field_values_simps [simp]:
  "field_values name [] = []"
  "field_values name ((k, v) # ms) =
     (if equal_fold k name then v # field_values name ms else field_values name ms)"
  by (simp_all add: field_values_def)

section \<open>Encoding strings\<close>

text \<open>
  The body of a string as \<^verbatim>\<open>json.Encoder\<close> writes it: HTML characters, U+2028 and U+2029
  are escaped, a malformed byte is the text \<^verbatim>\<open>\\ufffd\<close>.
\<close>

definition enc_ascii :: "char \<Rightarrow> string" where
  "enc_ascii c =
     (let b = byte c in
      if c = dquote \<or> c = bslash then [bslash, c]
      else if b = 0x08 then [bslash, CHR ''b'']
      else if b = 0x0C then [bslash, CHR ''f'']
      else if b = 0x0A then [bslash, CHR ''n'']
      else if b = 0x0D then [bslash, CHR ''r'']
      else if b = 0x09 then [bslash, CHR ''t'']
      else if b < 0x20 \<or> c = CHR ''<'' \<or> c = CHR ''>'' \<or> c = CHR 0x26
      then bslash # CHR ''u'' # hex4 b
      else [c])"

function enc_str :: "string \<Rightarrow> string" where
  "enc_str [] = []"
| "enc_str (c # s) =
     (if byte c < (0x80::nat) then enc_ascii c @ enc_str s
      else if decode_rune (c # s) = (rune_error, 1)
      then bslash # CHR ''u'' # hex4 rune_error @ enc_str s
      else if fst (decode_rune (c # s)) = 0x2028 \<or> fst (decode_rune (c # s)) = 0x2029
      then bslash # CHR ''u'' # hex4 (fst (decode_rune (c # s)))
             @ enc_str (drop (snd (decode_rune (c # s))) (c # s))
      else take (snd (decode_rune (c # s))) (c # s)
             @ enc_str (drop (snd (decode_rune (c # s))) (c # s)))"
  by pat_completeness auto
termination
proof (relation "measure length")
  fix c s
  have "0 < snd (decode_rune (c # s))" by simp
  then show "(drop (snd (decode_rune (c # s))) (c # s), c # s) \<in> measure length"
    by (simp only: in_measure length_drop) simp
  then show "(drop (snd (decode_rune (c # s))) (c # s), c # s) \<in> measure length" .
qed simp_all

definition json_quote :: "string \<Rightarrow> string" where
  "json_quote s = dquote # enc_str s @ [dquote]"

lemma json_string_u:
  assumes "n < 0xD800 \<or> n = rune_error"
  shows "json_string (bslash # CHR ''u'' # hex4 n @ t) = prepend (encode_rune n) (json_string t)"
proof -
  have n: "n < 65536" using assms by auto
  then have "hex_number 0 (hex4 n @ []) = Some n" by (subst hex_number_hex4) simp_all
  then have "u4 (hex4 n @ t) = Some n" by (simp add: u4_def)
  then show ?thesis
    using assms by (subst json_string.simps) (auto simp: json_escapes_def u_escape_def)
qed

lemma json_string_esc:
  "map_of json_escapes e = Some b \<Longrightarrow> json_string (bslash # e # t) = prepend [b] (json_string t)"
  by (simp add: json_string.simps)

lemma json_string_enc_ascii:
  assumes "byte c < (0x80::nat)"
  shows "json_string (enc_ascii c @ t) = prepend [c] (json_string t)"
proof -
  have b: "encode_rune (byte c) = [c]" using assms by (simp add: encode_rune_ascii)
  have raw: "json_string (c # t) = prepend [c] (json_string t)"
    if "c \<noteq> dquote" "c \<noteq> bslash" "\<not> byte c < (0x20::nat)"
    using that assms by (simp add: json_string.simps decode_rune_ascii)
  have u: "json_string (bslash # CHR ''u'' # hex4 (byte c) @ t) = prepend [c] (json_string t)"
    using json_string_u [of "byte c" t] assms b by simp
  have spec: "byte c = 0x08 \<Longrightarrow> c = CHR 0x08" "byte c = 0x0C \<Longrightarrow> c = CHR 0x0C"
      "byte c = 0x0A \<Longrightarrow> c = CHR 0x0A" "byte c = 0x0D \<Longrightarrow> c = CHR 0x0D"
      "byte c = 0x09 \<Longrightarrow> c = CHR 0x09"
    by (metis char_of_char char_of_specials)+
  have esc: "json_string (bslash # e # t) = prepend [d] (json_string t)"
    if "(e, d) \<in> set json_escapes" "map_of json_escapes e = Some d" for e d
    using that by (simp add: json_string_esc)
  show ?thesis
    unfolding enc_ascii_def Let_def using raw u
    by (auto simp: json_string_esc json_escapes_def dest: spec)
qed

lemma json_string_encode:
  assumes "valid_rune r" and "c \<in> set (encode_rune r)" and "0x80 \<le> (byte c :: nat)"
  shows "json_string (encode_rune r @ t) = prepend (encode_rune r) (json_string t)"
proof -
  have r: "0x80 \<le> r"
    using assms by (rule_tac ccontr) (auto simp: encode_rune_ascii)
  obtain d u where u: "encode_rune r = d # u" by (cases "encode_rune r") auto
  have d: "0x80 \<le> (byte d :: nat)" using encode_rune_high [OF r] u by simp
  then have dd: "d \<noteq> dquote" "d \<noteq> bslash" by auto
  have dec: "decode_rune (d # u @ t) = (r, length (encode_rune r))"
    using decode_encode [OF assms(1), of t] u by simp
  have ok: "(r, length (encode_rune r)) \<noteq> (rune_error, 1)"
    using decode_rune_encoded_error [OF assms(1), of t] unfolding decode_encode [OF assms(1)] .
  show ?thesis
    unfolding u append_Cons
    by (subst json_string.simps, simp only: dd dec ok fst_conv snd_conv if_False)
       (use d u in simp)
qed

theorem json_string_enc: "json_string (enc_str s @ dquote # t) = Some (coerce s, t)"
proof (induction s rule: enc_str.induct)
  case 1
  show ?case by (simp add: json_string.simps)
next
  case (2 c s)
  let ?r = "fst (decode_rune (c # s))" and ?n = "snd (decode_rune (c # s))"
  consider "byte c < (0x80::nat)" | (bad) "\<not> byte c < (0x80::nat)" "decode_rune (c # s) = (rune_error, 1)"
    | (good) "\<not> byte c < (0x80::nat)" "decode_rune (c # s) \<noteq> (rune_error, 1)" by blast
  then show ?case
  proof cases
    case 1
    then show ?thesis using 2(1) by (simp add: json_string_enc_ascii decode_rune_ascii)
  next
    case bad
    then show ?thesis using 2(2) by (simp add: json_string_u)
  next
    case good
    have v: "valid_rune ?r" "encode_rune ?r = take ?n (c # s)"
      using decode_rune_valid [of "c # s"] good(2) by auto
    show ?thesis
    proof (cases "?r = 0x2028 \<or> ?r = 0x2029")
      case True
      with good 2(3) v(2) show ?thesis by (auto simp: json_string_u)
    next
      case False
      have "c \<in> set (encode_rune ?r)" unfolding v(2) by (cases ?n) (use decode_rune_width_pos [of "c # s"] in auto)
      moreover have "0x80 \<le> (byte c :: nat)" using good(1) by simp
      ultimately have "json_string (take ?n (c # s) @ u) = prepend (take ?n (c # s)) (json_string u)" for u
        using json_string_encode [OF v(1), of c u] v(2) by simp
      then show ?thesis using good False 2(4) by simp
    qed
  qed
qed
section \<open>Plain ASCII text\<close>

text \<open>Text that JSON neither escapes nor changes.\<close>

definition json_plain :: "string \<Rightarrow> bool" where
  "json_plain s \<longleftrightarrow>
     list_all (\<lambda>c. 0x20 \<le> byte c \<and> byte c < (0x80::nat)
                   \<and> c \<notin> {dquote, bslash, CHR ''<'', CHR ''>'', CHR 0x26}) s"

lemma coerce_plain: "json_plain s \<Longrightarrow> coerce s = s"
  by (induction s) (auto simp: json_plain_def decode_rune_ascii)

lemma enc_str_plain: "json_plain s \<Longrightarrow> enc_str s = s"
  by (induction s) (auto simp: json_plain_def enc_ascii_def Let_def)

lemma json_string_plain:
  "json_plain s \<Longrightarrow> json_string (s @ dquote # t) = Some (s, t)"
  using json_string_enc [of s t] by (simp add: coerce_plain enc_str_plain)

section \<open>What is read is well-formed\<close>

lemma valid_utf8_escape: "map_of json_escapes e = Some b \<Longrightarrow> valid_utf8 [b]"
  by (rule valid_utf8_ascii) (auto simp: json_escapes_def split: if_splits)

lemma json_string_valid: "json_string s = Some (v, t) \<Longrightarrow> valid_utf8 v"
proof (induction s arbitrary: v rule: length_induct)
  case (1 s0)
  then obtain c s where s0: "s0 = c # s" by (cases s0) (auto simp: json_string.simps)
  note prem = 1(2) [unfolded s0]
  have IH: "length u < length s0 \<Longrightarrow> json_string u = Some (w, t) \<Longrightarrow> valid_utf8 w" for u w
    using 1(1) by blast
  let ?n = "snd (decode_rune (c # s))"
  consider "c = dquote" | (esc) e u where "c = bslash" "s = e # u"
    | (raw) "c \<noteq> dquote" "c \<noteq> bslash"
    using prem by (cases s) (auto simp: json_string.simps split: if_splits)
  then show ?case
  proof cases
    case 1
    with prem show ?thesis by (simp add: json_string.simps)
  next
    case esc
    show ?thesis
    proof (cases "map_of json_escapes e")
      case (Some b)
      with prem esc obtain w where w: "json_string u = Some (w, t)" "v = [b] @ w"
        by (auto simp: json_string.simps prepend_Some_iff)
      with IH [of u w] s0 esc have "valid_utf8 w" by simp
      with w(2) valid_utf8_escape [OF Some] show ?thesis by (simp only: valid_utf8_append)
    next
      case None
      then obtain r where r: "e = CHR ''u''" "u4 u = Some r"
        using prem esc by (auto simp: json_string.simps split: if_splits option.splits)
      let ?d = "drop (4 + snd (u_escape r (drop 4 u))) u"
      obtain w where w: "json_string ?d = Some (w, t)" "v = encode_rune (fst (u_escape r (drop 4 u))) @ w"
        using prem esc None r by (auto simp: json_string.simps prepend_Some_iff)
      with IH [of ?d w] s0 esc have "valid_utf8 w" by simp
      with w(2) show ?thesis by (simp only: valid_utf8_append valid_utf8_encode)
    qed
  next
    case raw
    have ctl: "\<not> byte c < (0x20::nat)"
      using prem raw by (auto simp: json_string.simps)
    show ?thesis
    proof (cases "decode_rune (c # s) = (rune_error, 1)")
      case True
      then obtain w where w: "json_string s = Some (w, t)" "v = encode_rune rune_error @ w"
        using prem raw ctl by (auto simp: json_string.simps prepend_Some_iff)
      with IH [of s w] s0 show ?thesis by (simp add: valid_utf8_append)
    next
      case False
      then obtain w where w: "json_string (drop ?n (c # s)) = Some (w, t)" "v = take ?n (c # s) @ w"
        using prem raw ctl by (auto simp: json_string.simps prepend_Some_iff)
      have "length (drop ?n (c # s)) < length s0"
        using decode_rune_width_pos [of "c # s"] s0 by (simp only: length_drop) simp
      then have "valid_utf8 w" using w(1) by (rule IH)
      moreover have "valid_utf8 (take ?n (c # s))"
        using decode_rune_valid(2) [of "c # s"] False valid_utf8_encode by (metis list.distinct(1))
      ultimately show ?thesis using w(2) by (simp only: valid_utf8_append)
    qed
  qed
qed

fun json_utf8 :: "json \<Rightarrow> bool" where
  "json_utf8 (JStr s) = valid_utf8 s"
| "json_utf8 (JArr vs) = list_all json_utf8 vs"
| "json_utf8 (JObj ms) = list_all (\<lambda>(k, v). valid_utf8 k \<and> json_utf8 v) ms"
| "json_utf8 _ = True"

lemma parse_utf8:
  "parse_value n d s = Some (v, r) \<Longrightarrow> json_utf8 v"
  "parse_elems n d s = Some (vs, r) \<Longrightarrow> list_all json_utf8 vs"
  "parse_members n d s = Some (ms, r) \<Longrightarrow> list_all (\<lambda>(k, v). valid_utf8 k \<and> json_utf8 v) ms"
proof (induction n arbitrary: d s v r vs ms)
  case (Suc n)
  {
    case 1
    then show ?case
      by (auto split: if_splits option.splits dest!: Suc.IH(2,3) json_string_valid)
  next
    case 2
    then show ?case
      by (auto split: if_splits option.splits list.splits dest!: Suc.IH(1,2))
  next
    case 3
    then show ?case
      by (auto split: if_splits option.splits list.splits dest!: Suc.IH(1,3) json_string_valid)
  }
qed simp_all

lemma json_first_utf8: "json_first s = Some v \<Longrightarrow> json_utf8 v"
  by (auto simp: json_first_def dest: parse_utf8)

lemma json_parse_utf8: "json_parse s = Some v \<Longrightarrow> json_utf8 v"
  using json_first_utf8 json_parse_first by blast

lemma str_field_utf8:
  "str_field cur vs = Some v \<Longrightarrow> valid_utf8 cur \<Longrightarrow> list_all json_utf8 vs \<Longrightarrow> valid_utf8 v"
  by (induction cur vs rule: str_field.induct) auto

lemma ptr_field_utf8:
  "ptr_field cur vs = Some (Some v) \<Longrightarrow> pred_option valid_utf8 cur \<Longrightarrow> list_all json_utf8 vs \<Longrightarrow>
     valid_utf8 v"
  by (induction cur vs rule: ptr_field.induct) auto

lemma struct_members_utf8:
  "struct_members j = Some ms \<Longrightarrow> json_utf8 j \<Longrightarrow> list_all json_utf8 (field_values name ms)"
  by (auto simp: struct_members_def field_values_def list_all_iff split: json.splits)
declare coerce.simps(2) [simp del] enc_str.simps(2) [simp del]

end
