(* ===== verification/Emission.thy ===== *)
theory Emission
  imports Json
begin

text \<open>
  \<^verbatim>\<open>internal/harness/emissionlog.go\<close>: an emission log read against the credentials a
  consumer received.  A payload is the byte string of one log record.  \<open>delivered\<close> is the
  Go \<^verbatim>\<open>map[string]bool\<close>; Go iterates over a map in an order it chooses anew each time,
  so that order is the argument \<open>ks\<close>, any list of the map's keys.
\<close>

record EmissionReconciliation =
  Sequences :: "string list"
  Lost :: "string list"
  Unlogged :: "string list"

record emission_record =
  CredentialHash :: string
  SequenceNo :: string

text \<open>The error of a malformed payload names its position.\<close>

datatype emission_error = Emission_record nat

text \<open>\<^verbatim>\<open>json.Unmarshal(payload, &em)\<close> into a fresh record; \<^verbatim>\<open>None\<close> is its error.\<close>

definition decode_emission :: "string \<Rightarrow> emission_record option" where
  "decode_emission payload =
     (case json_parse payload of
        None \<Rightarrow> None
      | Some j \<Rightarrow>
          (case struct_members j of
             None \<Rightarrow> None
           | Some ms \<Rightarrow>
               (case (str_field [] (field_values ''credentialHash'' ms),
                      str_field [] (field_values ''sequenceNo'' ms)) of
                  (Some h, Some q) \<Rightarrow> Some \<lparr>CredentialHash = h, SequenceNo = q\<rparr>
                | _ \<Rightarrow> None)))"

text \<open>A Go map read at an absent key is \<^verbatim>\<open>false\<close>.\<close>

definition map_true :: "(string \<rightharpoonup> bool) \<Rightarrow> string \<Rightarrow> bool" where
  "map_true m k = (case m k of Some b \<Rightarrow> b | None \<Rightarrow> False)"

text \<open>The loop over the payloads: position, result so far, hashes logged so far.\<close>

fun reconcile_payloads ::
  "(string \<rightharpoonup> bool) \<Rightarrow> nat \<Rightarrow> EmissionReconciliation \<Rightarrow> (string \<rightharpoonup> bool) \<Rightarrow> string list \<Rightarrow>
     emission_error + EmissionReconciliation \<times> (string \<rightharpoonup> bool)" where
  "reconcile_payloads delivered i out logged [] = Inr (out, logged)"
| "reconcile_payloads delivered i out logged (payload # ps) =
     (case decode_emission payload of
        None \<Rightarrow> Inl (Emission_record i)
      | Some em \<Rightarrow>
          (let out1 = out\<lparr>Sequences := Sequences out @ [SequenceNo em]\<rparr>;
               logged1 = logged(CredentialHash em \<mapsto> True);
               out2 = (if map_true delivered (CredentialHash em) then out1
                       else out1\<lparr>Lost := Lost out1 @ [SequenceNo em]\<rparr>)
           in reconcile_payloads delivered (Suc i) out2 logged1 ps))"

text \<open>The loop over the keys of \<open>delivered\<close>.\<close>

fun collect_unlogged :: "(string \<rightharpoonup> bool) \<Rightarrow> string list \<Rightarrow> string list \<Rightarrow> string list" where
  "collect_unlogged logged acc [] = acc"
| "collect_unlogged logged acc (h # hs) =
     collect_unlogged logged (if map_true logged h then acc else acc @ [h]) hs"

definition ReconcileEmissionLog ::
  "string list \<Rightarrow> string list \<Rightarrow> (string \<rightharpoonup> bool) \<Rightarrow> emission_error + EmissionReconciliation" where
  "ReconcileEmissionLog ks payloads delivered =
     (case reconcile_payloads delivered 0 \<lparr>Sequences = [], Lost = [], Unlogged = []\<rparr>
             Map.empty payloads of
        Inl e \<Rightarrow> Inl e
      | Inr (out, logged) \<Rightarrow>
          Inr (out\<lparr>Unlogged := sort (collect_unlogged logged [] ks)\<rparr>))"

section \<open>The loops\<close>

lemma reconcile_payloads_ok:
  assumes "map decode_emission ps = map Some rs"
  shows "reconcile_payloads delivered i out logged ps =
    Inr (out\<lparr>Sequences := Sequences out @ map SequenceNo rs,
             Lost := Lost out @ map SequenceNo
                       (filter (\<lambda>em. \<not> map_true delivered (CredentialHash em)) rs)\<rparr>,
         (\<lambda>h. if h \<in> CredentialHash ` set rs then Some True else logged h))"
  using assms
proof (induction ps arbitrary: rs i out logged)
  case (Cons p ps)
  then obtain em rs' where "rs = em # rs'" "decode_emission p = Some em"
    "map decode_emission ps = map Some rs'" by (cases rs) auto
  then show ?case
    by (auto simp: Cons.IH [of rs'] Let_def fun_eq_iff)
qed simp

lemma reconcile_payloads_bad:
  assumes "map decode_emission ps = map Some rs" and "decode_emission p = None"
  shows "reconcile_payloads delivered i out logged (ps @ p # qs) =
    Inl (Emission_record (i + length ps))"
  using assms
proof (induction ps arbitrary: rs i out logged)
  case (Cons p' ps)
  then obtain em rs' where "rs = em # rs'" "decode_emission p' = Some em"
    "map decode_emission ps = map Some rs'" by (cases rs) auto
  then show ?case using Cons.IH [of rs'] Cons.prems(2) by (simp add: Let_def)
qed simp

lemma collect_unlogged_eq:
  "collect_unlogged logged acc hs = acc @ filter (\<lambda>h. \<not> map_true logged h) hs"
  by (induction hs arbitrary: acc) auto

text \<open>Every log is readable up to its first malformed payload, or to its end.\<close>

lemma payloads_cases:
  obtains (readable) rs where "map decode_emission ps = map Some rs"
  | (malformed) us rs p qs where "ps = us @ p # qs" "map decode_emission us = map Some rs"
      "decode_emission p = None"
proof (induction ps arbitrary: thesis)
  case Nil
  from Nil(1) [of "[]"] show ?case by simp
next
  case (Cons p ps)
  show ?case
  proof (cases "decode_emission p")
    case None
    show ?thesis by (rule Cons.prems(2) [of "[]" p ps "[]"]) (simp_all add: None)
  next
    case (Some em)
    show ?thesis
    proof (rule Cons.IH)
      fix rs
      assume "map decode_emission ps = map Some rs"
      then show ?thesis by (intro Cons.prems(1) [of "em # rs"]) (simp add: Some)
    next
      fix us rs q qs
      assume "ps = us @ q # qs" "map decode_emission us = map Some rs" "decode_emission q = None"
      then show ?thesis by (intro Cons.prems(2) [of "p # us" q qs "em # rs"]) (simp_all add: Some)
    qed
  qed
qed

lemma reconcile_readable:
  assumes "map decode_emission ps = map Some rs"
  shows "ReconcileEmissionLog ks ps delivered =
    Inr \<lparr>Sequences = map SequenceNo rs,
         Lost = map SequenceNo (filter (\<lambda>em. \<not> map_true delivered (CredentialHash em)) rs),
         Unlogged = sort (filter (\<lambda>h. h \<notin> CredentialHash ` set rs) ks)\<rparr>"
  by (simp add: ReconcileEmissionLog_def reconcile_payloads_ok [OF assms] collect_unlogged_eq
      map_true_def if_distrib [of "case_option _ _"] cong: if_cong)

lemma reconcile_malformed:
  assumes "map decode_emission us = map Some rs" and "decode_emission p = None"
  shows "ReconcileEmissionLog ks (us @ p # qs) delivered = Inl (Emission_record (length us))"
  by (simp add: ReconcileEmissionLog_def reconcile_payloads_bad [OF assms])

section \<open>Properties\<close>

text \<open>The payload the tests build: two fields, spelled without escapes.\<close>

definition emission_payload :: \<open>string \<Rightarrow> string \<Rightarrow> string\<close> where
  \<open>emission_payload hash seq =
     ''{"credentialHash":"'' @ hash @ ''","sequenceNo":"'' @ seq @ ''"}''\<close>

lemma emission_keys:
  "json_string (''credentialHash'' @ dquote # t) = Some (''credentialHash'', t)"
  "json_string (''sequenceNo'' @ dquote # t) = Some (''sequenceNo'', t)"
  by (rule json_string_plain, code_simp)+

lemma emission_names:
  "equal_fold ''credentialHash'' ''sequenceNo'' = False"
  "equal_fold ''sequenceNo'' ''credentialHash'' = False"
  by code_simp+

lemma decode_emission_payload:
  "decode_emission (emission_payload (enc_str h) (enc_str q)) =
     Some \<lparr>CredentialHash = coerce h, SequenceNo = coerce q\<rparr>"
proof -
  have "\<exists>n r. parse_value n 0 (skip_ws (emission_payload (enc_str h) (enc_str q))) =
      Some (JObj [(''credentialHash'', JStr (coerce h)), (''sequenceNo'', JStr (coerce q))], r)
      \<and> skip_ws r = []"
    using json_string_enc [of h] json_string_enc [of q] emission_keys
    by (intro exI [of _ "Suc (Suc (Suc (Suc 0)))"] exI [of _ "[]"])
       (simp add: emission_payload_def skip_ws_def json_space_def max_depth_def has_prefix_def)
  then have "json_parse (emission_payload (enc_str h) (enc_str q)) =
      Some (JObj [(''credentialHash'', JStr (coerce h)), (''sequenceNo'', JStr (coerce q))])"
    by (simp add: json_parse_iff)
  then show ?thesis
    by (simp add: decode_emission_def struct_members_def emission_names)
qed

lemma decode_plain_payload:
  "json_plain h \<Longrightarrow> json_plain q \<Longrightarrow>
     decode_emission (emission_payload h q) = Some \<lparr>CredentialHash = h, SequenceNo = q\<rparr>"
  using decode_emission_payload [of h q] by (simp add: enc_str_plain coerce_plain)

definition written :: "(string \<times> string) list \<Rightarrow> emission_record list" where
  "written recs = map (\<lambda>(h, q). \<lparr>CredentialHash = h, SequenceNo = q\<rparr>) recs"

lemma decode_written:
  "list_all (\<lambda>(h, q). json_plain h \<and> json_plain q) recs \<Longrightarrow>
     map decode_emission (map (\<lambda>(h, q). emission_payload h q) recs) = map Some (written recs)"
  by (induction recs) (auto simp: written_def decode_plain_payload)

text \<open>C1: The error of ReconcileEmissionLog is exactly that some payload is unreadable, and
  it names the position of the first such payload: no malformed record is skipped.\<close>

theorem reconcile_error_first:
  "(ReconcileEmissionLog ks ps delivered = Inl (Emission_record i)) =
     (i < length ps \<and> decode_emission (ps ! i) = None
      \<and> None \<notin> decode_emission ` set (take i ps))"
proof (cases rule: payloads_cases [of ps])
  case (readable rs)
  have "i < length ps \<Longrightarrow> decode_emission (ps ! i) \<noteq> None"
    using readable nth_map [of i ps decode_emission] nth_map [of i rs Some]
    by (metis length_map option.distinct(1))
  then show ?thesis using reconcile_readable [OF readable] by auto
next
  case (malformed us rs p qs)
  have us: "None \<notin> decode_emission ` set us"
    using malformed(2) by (metis (no_types) imageE image_set option.distinct(1))
  have nth: "j < length us \<Longrightarrow> decode_emission (ps ! j) \<noteq> None" for j
    using us malformed(1) by (metis image_eqI nth_append nth_mem)
  have "(\<exists>p' \<in> set (take i ps). decode_emission p' = None) \<longleftrightarrow> length us < i"
  proof
    assume "length us < i"
    then obtain k where "i = length us + Suc k" using less_imp_Suc_add by force
    then have "p \<in> set (take i ps)" using malformed(1) by simp
    with malformed(3) show "\<exists>p' \<in> set (take i ps). decode_emission p' = None" by blast
  next
    assume "\<exists>p' \<in> set (take i ps). decode_emission p' = None"
    then obtain p' where p': "p' \<in> set (take i ps)" "decode_emission p' = None" by blast
    show "length us < i"
    proof (rule ccontr)
      assume "\<not> length us < i"
      then have "set (take i ps) \<subseteq> set us" using malformed(1) by (simp add: set_take_subset)
      with p' us show False by force
    qed
  qed
  then have "None \<notin> decode_emission ` set (take i ps) \<longleftrightarrow> i \<le> length us"
    by (metis (no_types, lifting) imageE image_eqI not_le)
  with nth malformed reconcile_malformed [OF malformed(2,3), of ks qs delivered]
  show ?thesis by (auto simp: nth_append dest: le_neq_implies_less)
qed

text \<open>C2: On a readable log, whatever order Go iterates the map of delivered credentials in,
  Sequences is every record's sequence number in log order, Lost those of the records whose
  credential was not delivered, in log order and with repetitions, and Unlogged the sorted
  list of the delivered keys that no record carries.\<close>

theorem reconcile_views:
  assumes "map decode_emission ps = map Some rs"
    and "set ks = dom delivered" and "distinct ks"
  shows "ReconcileEmissionLog ks ps delivered =
    Inr \<lparr>Sequences = map SequenceNo rs,
         Lost = [SequenceNo em. em \<leftarrow> rs, \<not> map_true delivered (CredentialHash em)],
         Unlogged = sorted_list_of_set (dom delivered - CredentialHash ` set rs)\<rparr>"
proof -
  have "sort (filter (\<lambda>h. h \<notin> CredentialHash ` set rs) ks)
      = sorted_list_of_set (set (filter (\<lambda>h. h \<notin> CredentialHash ` set rs) ks))"
    by (simp only: sorted_list_of_set_sort_remdups distinct_remdups_id distinct_filter assms(3))
  moreover have "set (filter (\<lambda>h. h \<notin> CredentialHash ` set rs) ks)
      = dom delivered - CredentialHash ` set rs"
    using assms(2) by auto
  moreover have "map SequenceNo (filter (\<lambda>em. \<not> map_true delivered (CredentialHash em)) rs)
      = [SequenceNo em. em \<leftarrow> rs, \<not> map_true delivered (CredentialHash em)]"
    by (induction rs) auto
  ultimately show ?thesis by (simp add: reconcile_readable [OF assms(1)])
qed

text \<open>A log of the tests' shape: five records, the second and third never delivered.\<close>

definition sample_log :: "(string \<times> string) list" where
  "sample_log = [(''h1'', ''1''), (''h2'', ''2''), (''h3'', ''3''), (''h4'', ''4''), (''h5'', ''1'')]"

definition sample_payloads :: "string list" where
  "sample_payloads = map (\<lambda>(h, q). emission_payload h q) sample_log"

definition sample_delivered :: "string \<rightharpoonup> bool" where
  "sample_delivered = [''h1'' \<mapsto> True, ''h4'' \<mapsto> True, ''h5'' \<mapsto> True, ''ghost'' \<mapsto> True]"

definition sample_keys :: "string list" where
  "sample_keys = [''h5'', ''ghost'', ''h1'', ''h4'']"

lemma sample_readable: "map decode_emission sample_payloads = map Some (written sample_log)"
  unfolding sample_payloads_def
  by (rule decode_written) (simp add: sample_log_def json_plain_def)

lemma sample_keys_ok: "set sample_keys = dom sample_delivered" "distinct sample_keys"
  by (auto simp: sample_keys_def sample_delivered_def split: if_splits)

lemma reconcile_views_witness:
  "ReconcileEmissionLog sample_keys sample_payloads sample_delivered =
     Inr \<lparr>Sequences = [''1'', ''2'', ''3'', ''4'', ''1''], Lost = [''2'', ''3''],
          Unlogged = [''ghost'']\<rparr>"
proof -
  have u: "dom sample_delivered - CredentialHash ` set (written sample_log) = {''ghost''}"
    by (auto simp: sample_delivered_def sample_log_def written_def split: if_splits)
  show ?thesis
    unfolding reconcile_views [OF sample_readable sample_keys_ok] u
    by (simp add: written_def sample_log_def map_true_def sample_delivered_def)
qed

text \<open>C3: The result does not depend on the order in which Go iterates the map of delivered
  credentials, errors included.\<close>

theorem reconcile_order_independent:
  assumes "set ks = set ks'" and "distinct ks" and "distinct ks'"
  shows "ReconcileEmissionLog ks ps delivered = ReconcileEmissionLog ks' ps delivered"
proof (cases rule: payloads_cases [of ps])
  case (readable rs)
  have "sort (filter (\<lambda>h. h \<notin> CredentialHash ` set rs) ks)
      = sort (filter (\<lambda>h. h \<notin> CredentialHash ` set rs) ks')"
    using assms by (intro sort_set_unique) auto
  then show ?thesis by (simp add: reconcile_readable [OF readable])
next
  case (malformed us rs p qs)
  then show ?thesis by (simp add: reconcile_malformed)
qed

lemma reconcile_order_independent_witness:
  "ReconcileEmissionLog sample_keys sample_payloads sample_delivered =
     ReconcileEmissionLog (rev sample_keys) sample_payloads sample_delivered"
  by (rule reconcile_order_independent) (simp_all add: sample_keys_def insert_commute)

text \<open>A sequence space that forks is seen only in Sequences.  Two readable logs of the
  same credentials that agree on the numbers of the undelivered records have the same Lost
  and the same Unlogged, while their Sequences differ as soon as any number differs.\<close>

theorem reconcile_fork_only_in_sequences:
  assumes "map decode_emission ps = map Some rs" and "map decode_emission ps' = map Some rs'"
    and "map CredentialHash rs = map CredentialHash rs'"
    and "[em \<leftarrow> rs. \<not> map_true delivered (CredentialHash em)]
         = [em \<leftarrow> rs'. \<not> map_true delivered (CredentialHash em)]"
    and "rs \<noteq> rs'"
  shows "\<exists>o1 o2. ReconcileEmissionLog ks ps delivered = Inr o1
    \<and> ReconcileEmissionLog ks ps' delivered = Inr o2
    \<and> Lost o1 = Lost o2 \<and> Unlogged o1 = Unlogged o2 \<and> Sequences o1 \<noteq> Sequences o2"
proof -
  have "CredentialHash ` set rs = CredentialHash ` set rs'"
    using assms(3) by (metis list.set_map)
  moreover have "map SequenceNo rs \<noteq> map SequenceNo rs'"
  proof
    assume "map SequenceNo rs = map SequenceNo rs'"
    with assms(3) have "rs = rs'"
      by (induction rs rs' rule: list_induct2') auto
    with assms(5) show False ..
  qed
  ultimately show ?thesis
    using assms(4) by (simp add: reconcile_readable [OF assms(1)] reconcile_readable [OF assms(2)])
qed

definition forked_log :: "(string \<times> string) list" where
  "forked_log = [(''h1'', ''1''), (''h2'', ''2''), (''h3'', ''3''), (''h4'', ''4''), (''h5'', ''5'')]"

lemma reconcile_fork_only_in_sequences_witness:
  "\<exists>o1 o2. ReconcileEmissionLog sample_keys sample_payloads sample_delivered = Inr o1
    \<and> ReconcileEmissionLog sample_keys
         (map (\<lambda>(h, q). emission_payload h q) forked_log) sample_delivered = Inr o2
    \<and> Lost o1 = Lost o2 \<and> Unlogged o1 = Unlogged o2 \<and> Sequences o1 \<noteq> Sequences o2"
proof (rule reconcile_fork_only_in_sequences [OF sample_readable decode_written])
  show "list_all (\<lambda>(h, q). json_plain h \<and> json_plain q) forked_log"
    by (simp add: forked_log_def json_plain_def)
qed (simp_all add: sample_log_def forked_log_def written_def map_true_def sample_delivered_def)

text \<open>A page that stops short of the log's end misreports: a delivered credential whose
  records all lie beyond the page is in the page's Unlogged, though not in the whole log's.\<close>

theorem reconcile_short_page:
  assumes "map decode_emission (ps @ qs) = map Some rs"
    and "h \<in> set ks" and "h \<in> CredentialHash ` set (drop (length ps) rs)"
    and "h \<notin> CredentialHash ` set (take (length ps) rs)"
  shows "\<exists>page whole. ReconcileEmissionLog ks ps delivered = Inr page
    \<and> ReconcileEmissionLog ks (ps @ qs) delivered = Inr whole
    \<and> Sequences page = take (length ps) (Sequences whole)
    \<and> h \<in> set (Unlogged page) \<and> h \<notin> set (Unlogged whole)"
proof -
  have page: "map decode_emission ps = map Some (take (length ps) rs)"
    using arg_cong [OF assms(1), of "take (length ps)"] by (simp add: take_map)
  have "h \<in> CredentialHash ` set rs"
    using assms(3) set_drop_subset [of "length ps" rs] by blast
  then show ?thesis
    using assms(2,4) by (simp add: reconcile_readable [OF page] reconcile_readable [OF assms(1)] take_map)
qed

lemma reconcile_short_page_witness:
  "\<exists>page whole. ReconcileEmissionLog sample_keys (take 3 sample_payloads) sample_delivered = Inr page
    \<and> ReconcileEmissionLog sample_keys (take 3 sample_payloads @ drop 3 sample_payloads)
         sample_delivered = Inr whole
    \<and> Sequences page = take (length (take 3 sample_payloads)) (Sequences whole)
    \<and> ''h4'' \<in> set (Unlogged page) \<and> ''h4'' \<notin> set (Unlogged whole)"
  by (rule reconcile_short_page [where rs = "written sample_log"])
     (simp only: append_take_drop_id sample_readable,
      simp_all add: sample_payloads_def sample_log_def written_def sample_keys_def)

text \<open>C4: The loss window and the unlogged credentials are both empty exactly when the
  credentials of the log and those the consumer holds are the same.\<close>

theorem reconcile_clean_iff:
  assumes "map decode_emission ps = map Some rs" and "set ks = dom delivered"
    and "False \<notin> ran delivered"
  shows "(\<exists>seqs. ReconcileEmissionLog ks ps delivered =
            Inr \<lparr>Sequences = seqs, Lost = [], Unlogged = []\<rparr>)
    = (CredentialHash ` set rs = dom delivered)"
proof -
  have held: "map_true delivered h \<longleftrightarrow> h \<in> dom delivered" for h
  proof (cases "delivered h")
    case (Some b)
    then show ?thesis using assms(3) by (cases b) (auto simp: map_true_def ran_def)
  qed (auto simp: map_true_def)
  then show ?thesis
    using assms(2) held by (auto simp: reconcile_readable [OF assms(1)] filter_empty_conv)
qed

lemma reconcile_clean_iff_witness:
  "\<not> (\<exists>seqs. ReconcileEmissionLog sample_keys sample_payloads sample_delivered =
            Inr \<lparr>Sequences = seqs, Lost = [], Unlogged = []\<rparr>)"
proof -
  have "False \<notin> ran sample_delivered"
    by (auto simp: sample_delivered_def ran_def split: if_splits)
  note iff = reconcile_clean_iff [OF sample_readable sample_keys_ok(1) this]
  have "''ghost'' \<in> dom sample_delivered" "''ghost'' \<notin> CredentialHash ` set (written sample_log)"
    by (auto simp: sample_delivered_def sample_log_def written_def)
  then show ?thesis unfolding iff by metis
qed

end
