(* ===== verification/PdpStub.thy ===== *)
theory PdpStub
  imports Json
begin

text \<open>
  \<^verbatim>\<open>internal/pdpstub/pdpstub.go\<close>: the allow-all policy verifier.  The two patterns of its
  \<^verbatim>\<open>http.ServeMux\<close> and the mux's rules (path cleaning by redirect, \<^verbatim>\<open>GET\<close> serving
  \<^verbatim>\<open>HEAD\<close>, 405 with \<^verbatim>\<open>Allow\<close>, 404) are modelled, and the handlers with their JSON.  A
  request is its method, its escaped path and its body; the host and the query play no
  part.  \<^verbatim>\<open>CONNECT\<close> requests, whose path the mux does not clean, are modelled too.
\<close>

section \<open>The wire types\<close>

record verifyRequest =
  reqResource :: "string option"
  reqAction :: "string option"

record reason =
  Groups :: "unit list"

record decision =
  Resource :: string
  Action :: string
  Decision :: string
  Reason :: reason

record http_request =
  Method :: string
  Path :: string
  ReqBody :: string

record http_response =
  Status :: nat
  ContentType :: string
  RespBody :: string

text \<open>What a client gets: a handler's response, or an answer of the mux itself.\<close>

datatype reply =
    Served http_response
  | Moved_permanently string \<comment> \<open>the cleaned path\<close>
  | Method_not_allowed "string list" \<comment> \<open>the methods of the \<^verbatim>\<open>Allow\<close> header\<close>
  | Not_found

section \<open>The handlers\<close>

text \<open>\<^verbatim>\<open>json.NewDecoder(r.Body).Decode(&req)\<close>; \<^verbatim>\<open>None\<close> is its error.\<close>

definition decode_verify :: "string \<Rightarrow> verifyRequest option" where
  "decode_verify body =
     (case json_first body of
        None \<Rightarrow> None
      | Some j \<Rightarrow>
          (case struct_members j of
             None \<Rightarrow> None
           | Some ms \<Rightarrow>
               (case (ptr_field None (field_values ''resource'' ms),
                      ptr_field None (field_values ''action'' ms)) of
                  (Some r, Some a) \<Rightarrow> Some \<lparr>reqResource = r, reqAction = a\<rparr>
                | _ \<Rightarrow> None)))"

definition encode_reason :: \<open>reason \<Rightarrow> string\<close> where
  \<open>encode_reason r = ''{"groups":['' @ join (map (\<lambda>_. ''{}'') (Groups r)) '','' @ '']}''\<close>

text \<open>\<^verbatim>\<open>json.NewEncoder(w).Encode(d)\<close>: one line, strings with HTML escaping.\<close>

definition encode_decision :: \<open>decision \<Rightarrow> string\<close> where
  \<open>encode_decision d =
     ''{"resource":'' @ json_quote (Resource d) @ '',"action":'' @ json_quote (Action d)
       @ '',"decision":'' @ json_quote (Decision d) @ '',"reason":'' @ encode_reason (Reason d)
       @ ''}'' @ [nl]\<close>

text \<open>\<^verbatim>\<open>http.Error\<close>.\<close>

definition http_error :: "string \<Rightarrow> nat \<Rightarrow> http_response" where
  "http_error msg code =
     \<lparr>Status = code, ContentType = ''text/plain; charset=utf-8'', RespBody = msg @ [nl]\<rparr>"

definition bad_request :: http_response where
  "bad_request = http_error ''want a JSON object with string resource and action'' 400"

definition handle_verify :: "string \<Rightarrow> http_response" where
  "handle_verify body =
     (case decode_verify body of
        None \<Rightarrow> bad_request
      | Some req \<Rightarrow>
          (case (reqResource req, reqAction req) of
             (Some r, Some a) \<Rightarrow>
               \<lparr>Status = 200, ContentType = ''application/json'',
                RespBody = encode_decision
                  \<lparr>Resource = r, Action = a, Decision = ''allow'', Reason = \<lparr>Groups = []\<rparr>\<rparr>\<rparr>
           | _ \<Rightarrow> bad_request))"

definition handle_healthz :: http_response where
  "handle_healthz = \<lparr>Status = 200, ContentType = [], RespBody = []\<rparr>"

section \<open>The mux\<close>

definition mux_clean_path :: "string \<Rightarrow> string" where
  "mux_clean_path p =
     (if p = [] then ''/''
      else let p1 = (if has_prefix p ''/'' then p else slash # p);
               np = path_clean p1
           in if has_suffix p1 ''/'' \<and> np \<noteq> ''/'' then np @ ''/'' else np)"

text \<open>\<^verbatim>\<open>url.PathUnescape\<close> of a segment, which is left alone when an escape is malformed.\<close>

fun path_unescape :: "string \<Rightarrow> string option" where
  "path_unescape [] = Some []"
| "path_unescape (c # s) =
     (if c = CHR ''%'' then
        (case s of
           x # y # t \<Rightarrow>
             (case (hex_val x, hex_val y, path_unescape t) of
                (Some a, Some b, Some r) \<Rightarrow> Some (char_of (16 * a + b) # r)
              | _ \<Rightarrow> None)
         | _ \<Rightarrow> None)
      else map_option (Cons c) (path_unescape s))"

definition unescape_segment :: "string \<Rightarrow> string" where
  "unescape_segment s = (case path_unescape s of Some t \<Rightarrow> t | None \<Rightarrow> s)"

text \<open>The segments of a rooted path, as the mux's routing tree reads them.\<close>

definition mux_segments :: "string \<Rightarrow> string list" where
  "mux_segments p = map unescape_segment (tl (split_char slash p))"

datatype route = Verify | Healthz

definition route_of :: "string \<Rightarrow> route option" where
  "route_of p =
     (if mux_segments p = [''verify''] then Some Verify
      else if mux_segments p = [''healthz''] then Some Healthz
      else None)"

definition methods_of :: "route \<Rightarrow> string list" where
  "methods_of r = (case r of Verify \<Rightarrow> [''POST''] | Healthz \<Rightarrow> [''GET'', ''HEAD''])"

definition serve :: "http_request \<Rightarrow> reply" where
  "serve r =
     (let path = (if Method r = ''CONNECT'' then Path r else mux_clean_path (Path r)) in
      if path \<noteq> Path r then Moved_permanently path
      else case route_of path of
        None \<Rightarrow> Not_found
      | Some rt \<Rightarrow>
          if Method r \<in> set (methods_of rt)
          then Served (case rt of Verify \<Rightarrow> handle_verify (ReqBody r) | Healthz \<Rightarrow> handle_healthz)
          else Method_not_allowed (methods_of rt))"

section \<open>Reading a decision back\<close>

lemma decision_keys:
  "json_string (''resource'' @ dquote # t) = Some (''resource'', t)"
  "json_string (''action'' @ dquote # t) = Some (''action'', t)"
  "json_string (''decision'' @ dquote # t) = Some (''decision'', t)"
  "json_string (''reason'' @ dquote # t) = Some (''reason'', t)"
  "json_string (''groups'' @ dquote # t) = Some (''groups'', t)"
  by (rule json_string_plain, code_simp)+

definition decision_json :: "decision \<Rightarrow> json" where
  "decision_json d =
     JObj [(''resource'', JStr (coerce (Resource d))), (''action'', JStr (coerce (Action d))),
           (''decision'', JStr (coerce (Decision d))),
           (''reason'', JObj [(''groups'', JArr (map (\<lambda>_. JObj []) (Groups (Reason d))))])]"

lemma parse_decision:
  assumes "Groups (Reason d) = []"
  shows "json_parse (encode_decision d) = Some (decision_json d)"
proof -
  have "\<exists>n r. parse_value n 0 (skip_ws (encode_decision d)) = Some (decision_json d, r)
      \<and> skip_ws r = []"
    using json_string_enc [of "Resource d"] json_string_enc [of "Action d"]
      json_string_enc [of "Decision d"] decision_keys assms
    by (intro exI [of _ "Suc (Suc (Suc (Suc (Suc (Suc (Suc (Suc 0)))))))"] exI [of _ "[nl]"])
       (simp add: encode_decision_def encode_reason_def decision_json_def json_quote_def
         skip_ws_def json_space_def max_depth_def has_prefix_def)
  then show ?thesis by (simp add: json_parse_iff)
qed

section \<open>The handlers, case by case\<close>

lemma ptr_field_string_iff:
  "ptr_field cur vs = Some (Some v) \<longleftrightarrow>
     (if vs = [] then cur = Some v
      else last vs = JStr v \<and> set vs \<subseteq> insert JNull (range JStr))"
  by (induction cur vs rule: ptr_field.induct) auto

lemma ptr_field_total: "ptr_field cur vs = None \<longleftrightarrow> \<not> set vs \<subseteq> insert JNull (range JStr)"
  by (induction cur vs rule: ptr_field.induct) auto

text \<open>The members decoded into the field \<open>name\<close> are strings or \<^verbatim>\<open>null\<close>, the last is \<open>v\<close>.\<close>

definition string_member :: "string \<Rightarrow> (string \<times> json) list \<Rightarrow> string \<Rightarrow> bool" where
  "string_member name ms v \<longleftrightarrow>
     (let vs = field_values name ms in
      vs \<noteq> [] \<and> last vs = JStr v \<and> set vs \<subseteq> insert JNull (range JStr))"

lemma decode_verify_iff:
  "decode_verify body = Some \<lparr>reqResource = Some r, reqAction = Some a\<rparr> \<longleftrightarrow>
     (\<exists>ms. json_first body = Some (JObj ms)
        \<and> string_member ''resource'' ms r \<and> string_member ''action'' ms a)"
proof
  assume "decode_verify body = Some \<lparr>reqResource = Some r, reqAction = Some a\<rparr>"
  then obtain j ms where "json_first body = Some j" "struct_members j = Some ms"
    "ptr_field None (field_values ''resource'' ms) = Some (Some r)"
    "ptr_field None (field_values ''action'' ms) = Some (Some a)"
    by (auto simp: decode_verify_def split: option.splits)
  then show "\<exists>ms. json_first body = Some (JObj ms)
      \<and> string_member ''resource'' ms r \<and> string_member ''action'' ms a"
    by (auto simp: struct_members_def string_member_def Let_def ptr_field_string_iff
        split: json.splits if_splits)
next
  assume "\<exists>ms. json_first body = Some (JObj ms)
      \<and> string_member ''resource'' ms r \<and> string_member ''action'' ms a"
  then obtain ms where ms: "json_first body = Some (JObj ms)"
    "string_member ''resource'' ms r" "string_member ''action'' ms a" by blast
  have "ptr_field None (field_values ''resource'' ms) = Some (Some r)"
    "ptr_field None (field_values ''action'' ms) = Some (Some a)"
    using ms(2,3) by (simp_all add: string_member_def Let_def ptr_field_string_iff)
  then show "decode_verify body = Some \<lparr>reqResource = Some r, reqAction = Some a\<rparr>"
    using ms(1) by (simp add: decode_verify_def struct_members_def)
qed

lemma decode_verify_utf8:
  assumes "decode_verify body = Some \<lparr>reqResource = Some r, reqAction = Some a\<rparr>"
  shows "valid_utf8 r" "valid_utf8 a"
proof -
  obtain j ms where j: "json_first body = Some j" "struct_members j = Some ms"
    "ptr_field None (field_values ''resource'' ms) = Some (Some r)"
    "ptr_field None (field_values ''action'' ms) = Some (Some a)"
    using assms by (auto simp: decode_verify_def split: option.splits)
  have "list_all json_utf8 (field_values name ms)" for name
    using struct_members_utf8 [OF j(2)] json_first_utf8 [OF j(1)] by blast
  then show "valid_utf8 r" "valid_utf8 a"
    using ptr_field_utf8 [OF j(3)] ptr_field_utf8 [OF j(4)] by simp_all
qed

definition allow :: "string \<Rightarrow> string \<Rightarrow> json" where
  "allow r a =
     JObj [(''resource'', JStr r), (''action'', JStr a), (''decision'', JStr ''allow''),
           (''reason'', JObj [(''groups'', JArr [])])]"

lemma handle_verify_cases:
  obtains (ok) r a where "decode_verify body = Some \<lparr>reqResource = Some r, reqAction = Some a\<rparr>"
      "Status (handle_verify body) = 200"
      "ContentType (handle_verify body) = ''application/json''"
      "json_parse (RespBody (handle_verify body)) = Some (allow r a)"
  | (bad) "handle_verify body = bad_request"
      "\<And>r a. decode_verify body \<noteq> Some \<lparr>reqResource = Some r, reqAction = Some a\<rparr>"
proof (cases "\<exists>r a. decode_verify body = Some \<lparr>reqResource = Some r, reqAction = Some a\<rparr>")
  case True
  then obtain r a where ra: "decode_verify body = Some \<lparr>reqResource = Some r, reqAction = Some a\<rparr>"
    by blast
  have pl: "coerce ''allow'' = ''allow''" by (rule coerce_plain) code_simp
  show thesis
    by (rule ok [OF ra])
       (simp_all add: handle_verify_def ra parse_decision decision_json_def allow_def pl
         coerce_valid decode_verify_utf8 [OF ra])
next
  case False
  have "handle_verify body = bad_request"
  proof (cases "decode_verify body")
    case (Some req)
    with False show ?thesis
      by (cases req) (auto simp: handle_verify_def split: option.splits)
  qed (simp add: handle_verify_def)
  with False show thesis by (intro bad) auto
qed
lemma route_verify: "mux_clean_path ''/verify'' = ''/verify''" "route_of ''/verify'' = Some Verify" by code_simp+
lemma route_healthz: "mux_clean_path ''/healthz'' = ''/healthz''" "route_of ''/healthz'' = Some Healthz" by code_simp+

section \<open>Cleaned request paths\<close>

lemma mux_clean_path_forms:
  obtains "mux_clean_path p = ''/''"
  | segs where "segs \<noteq> []" "\<forall>x \<in> set segs. plain_seg x"
      "mux_clean_path p = abs_path segs \<or> mux_clean_path p = abs_path segs @ ''/''"
proof (cases "p = []")
  case True
  then show thesis using that(1) by (simp add: mux_clean_path_def)
next
  case False
  define p1 where "p1 = (if has_prefix p ''/'' then p else slash # p)"
  have "has_prefix p1 ''/''" by (simp add: p1_def has_prefix_def)
  then obtain segs where s: "path_clean p1 = abs_path segs" "\<forall>x \<in> set segs. plain_seg x"
    by (rule path_clean_rooted)
  show thesis
  proof (cases "segs = []")
    case True
    then show thesis using that(1) s False by (simp add: mux_clean_path_def p1_def abs_path_def Let_def)
  next
    case nonempty: False
    then show thesis using that(2) [OF nonempty s(2)] s(1) False
      by (auto simp: mux_clean_path_def p1_def Let_def split: if_splits)
  qed
qed

theorem mux_clean_path_idem: "mux_clean_path (mux_clean_path p) = mux_clean_path p"
proof (cases rule: mux_clean_path_forms [of p])
  case 1
  show ?thesis unfolding 1 by code_simp
next
  case (2 segs)
  have "last segs \<noteq> []" using 2(1,2) by (simp add: plain_seg_def)
  then have ne: "abs_path segs \<noteq> ''/''"
    using last_join [OF 2(1)] by (simp add: abs_path_def)
  have nil: "abs_path segs \<noteq> []" "has_prefix (abs_path segs @ t) ''/''" for t
    by (simp_all add: abs_path_def has_prefix_def)
  have "mux_clean_path (abs_path segs) = abs_path segs"
    using ne nil nil(2) [of "[]"] abs_path_last [OF 2(1,2)] path_clean_abs [OF 2(1,2)]
    by (simp add: mux_clean_path_def Let_def)
  moreover have "mux_clean_path (abs_path segs @ ''/'') = abs_path segs @ ''/''"
    using ne nil path_clean_abs_slash [OF 2(1,2)]
    by (simp add: mux_clean_path_def Let_def)
  ultimately show ?thesis using 2(3) by (elim disjE) simp_all
qed
section \<open>Properties\<close>

text \<open>C5: POST /verify answers 200 with a whole allow decision that names the request's
  resource and action unchanged, whenever the first JSON value of the body is an object
  whose resource and action members are strings.\<close>

theorem pdp_allows_the_request:
  assumes "json_first body = Some (JObj ms)"
    and "string_member ''resource'' ms r" and "string_member ''action'' ms a"
  shows "\<exists>x. serve \<lparr>Method = ''POST'', Path = ''/verify'', ReqBody = body\<rparr> = Served x
    \<and> Status x = 200 \<and> ContentType x = ''application/json''
    \<and> json_parse (RespBody x) = Some (allow r a)"
proof -
  have d: "decode_verify body = Some \<lparr>reqResource = Some r, reqAction = Some a\<rparr>"
    using assms by (auto simp: decode_verify_iff)
  have "serve \<lparr>Method = ''POST'', Path = ''/verify'', ReqBody = body\<rparr> = Served (handle_verify body)"
    by (simp add: serve_def route_verify methods_of_def)
  then show ?thesis
    by (cases rule: handle_verify_cases [of body]) (use d in auto)
qed

definition sample_request :: \<open>string\<close> where
  \<open>sample_request = ''{"Resource":"r1","action":null,"action":"read","context":{}} trailing''\<close>

definition sample_members :: "(string \<times> json) list" where
  "sample_members = [(''Resource'', JStr ''r1''), (''action'', JNull), (''action'', JStr ''read''),
     (''context'', JObj [])]"

lemma sample_request_parses: "json_first sample_request = Some (JObj sample_members)"
proof -
  have k: "json_string (''Resource'' @ dquote # t) = Some (''Resource'', t)"
    "json_string (''action'' @ dquote # t) = Some (''action'', t)"
    "json_string (''r1'' @ dquote # t) = Some (''r1'', t)"
    "json_string (''read'' @ dquote # t) = Some (''read'', t)"
    "json_string (''context'' @ dquote # t) = Some (''context'', t)" for t
    by (rule json_string_plain, code_simp)+
  show ?thesis
    unfolding json_first_iff
    using k
    by (intro exI [of _ "Suc (Suc (Suc (Suc (Suc (Suc (Suc (Suc 0)))))))"] exI [of _ "'' trailing''"])
       (simp add: sample_request_def sample_members_def skip_ws_def json_space_def max_depth_def
         has_prefix_def)
qed

lemma sample_members_strings:
  "string_member ''resource'' sample_members ''r1''" "string_member ''action'' sample_members ''read''"
proof -
  have "field_values ''resource'' sample_members = [JStr ''r1'']"
    "field_values ''action'' sample_members = [JNull, JStr ''read'']" by code_simp+
  then show "string_member ''resource'' sample_members ''r1''"
    "string_member ''action'' sample_members ''read''"
    by (simp_all add: string_member_def)
qed

lemma pdp_allows_the_request_witness:
  "\<exists>x. serve \<lparr>Method = ''POST'', Path = ''/verify'', ReqBody = sample_request\<rparr> = Served x
    \<and> Status x = 200 \<and> ContentType x = ''application/json''
    \<and> json_parse (RespBody x) = Some (allow ''r1'' ''read'')"
  by (rule pdp_allows_the_request [OF sample_request_parses sample_members_strings])

text \<open>C6: No other body is allowed: POST /verify answers 400 exactly when the body's first
  value is no object with a string resource and a string action.\<close>

theorem pdp_rejects_incomplete:
  "(serve \<lparr>Method = ''POST'', Path = ''/verify'', ReqBody = body\<rparr> = Served bad_request) =
     (\<nexists>ms r a. json_first body = Some (JObj ms)
        \<and> string_member ''resource'' ms r \<and> string_member ''action'' ms a)"
proof -
  have s: "serve \<lparr>Method = ''POST'', Path = ''/verify'', ReqBody = body\<rparr> = Served (handle_verify body)"
    by (simp add: serve_def route_verify methods_of_def)
  have b: "Status bad_request = 400" by (simp add: bad_request_def http_error_def)
  show ?thesis
  proof (cases rule: handle_verify_cases [of body])
    case (ok r a)
    then have "\<exists>ms r a. json_first body = Some (JObj ms)
        \<and> string_member ''resource'' ms r \<and> string_member ''action'' ms a"
      using decode_verify_iff by blast
    moreover have "handle_verify body \<noteq> bad_request" using ok(2) b by auto
    ultimately show ?thesis using s by simp
  next
    case bad
    then have "\<nexists>ms r a. json_first body = Some (JObj ms)
        \<and> string_member ''resource'' ms r \<and> string_member ''action'' ms a"
      using decode_verify_iff by blast
    then show ?thesis using s bad(1) by simp
  qed
qed

text \<open>C7: Whatever the request, the stub never denies: a reply it serves is the 400, the
  empty 200 of the health check, or a 200 whose body is an allow decision.\<close>

theorem pdp_never_denies:
  assumes "serve q = Served x"
  shows "x = bad_request \<or> x = handle_healthz
    \<or> (Status x = 200 \<and> (\<exists>r a. json_parse (RespBody x) = Some (allow r a)))"
proof -
  obtain rt where "x = (case rt of Verify \<Rightarrow> handle_verify (ReqBody q) | Healthz \<Rightarrow> handle_healthz)"
    using assms by (auto simp: serve_def Let_def split: if_splits option.splits)
  then consider "x = handle_verify (ReqBody q)" | "x = handle_healthz" by (cases rt) auto
  then show ?thesis
  proof cases
    case 1
    then show ?thesis by (cases rule: handle_verify_cases [of "ReqBody q"]) auto
  qed simp
qed

lemma pdp_never_denies_witness:
  "handle_healthz = bad_request \<or> handle_healthz = handle_healthz
    \<or> (Status handle_healthz = 200 \<and> (\<exists>r a. json_parse (RespBody handle_healthz) = Some (allow r a)))"
  by (rule pdp_never_denies [of "\<lparr>Method = ''HEAD'', Path = ''/healthz'', ReqBody = []\<rparr>"])
     (simp add: serve_def route_healthz methods_of_def)

text \<open>The health check answers GET and HEAD and nothing else, the decision endpoint POST
  and nothing else, and the Allow header of the 405 names exactly those methods.\<close>

theorem pdp_methods:
  "serve \<lparr>Method = m, Path = ''/healthz'', ReqBody = body\<rparr> =
     (if m = ''GET'' \<or> m = ''HEAD'' then Served \<lparr>Status = 200, ContentType = [], RespBody = []\<rparr>
      else Method_not_allowed [''GET'', ''HEAD''])
   \<and> serve \<lparr>Method = m, Path = ''/verify'', ReqBody = body\<rparr> =
     (if m = ''POST'' then Served (handle_verify body) else Method_not_allowed [''POST''])"
  by (simp add: serve_def route_verify route_healthz methods_of_def handle_healthz_def)

text \<open>A redirect to the cleaned path is never redirected again, whatever the path.\<close>

theorem pdp_redirect_once:
  assumes "serve q = Moved_permanently p"
  shows "serve (q\<lparr>Path := p\<rparr>) \<noteq> Moved_permanently p'"
proof -
  have "p = mux_clean_path (Path q)" "Method q \<noteq> ''CONNECT''"
    using assms by (auto simp: serve_def Let_def split: if_splits option.splits)
  then show ?thesis
    by (auto simp: serve_def Let_def mux_clean_path_idem split: option.splits)
qed

lemma pdp_redirect_once_witness:
  "serve (\<lparr>Method = ''POST'', Path = ''/a/..//verify'', ReqBody = []\<rparr>\<lparr>Path := ''/verify''\<rparr>)
     \<noteq> Moved_permanently ''/verify''"
proof (rule pdp_redirect_once)
  have "mux_clean_path ''/a/..//verify'' = ''/verify''" by code_simp
  then show "serve \<lparr>Method = ''POST'', Path = ''/a/..//verify'', ReqBody = []\<rparr>
      = Moved_permanently ''/verify''"
    by (simp add: serve_def)
qed

end
