(* ===== verification/Go_Net.thy ===== *)
theory Go_Net
  imports Json
begin

text \<open>
  The parts of Go's \<^verbatim>\<open>net/url\<close>, \<^verbatim>\<open>net/netip\<close> and \<^verbatim>\<open>net\<close> packages the harness uses:
  \<^verbatim>\<open>url.Parse\<close> with \<^verbatim>\<open>Hostname\<close> and \<^verbatim>\<open>Port\<close>, \<^verbatim>\<open>netip.ParseAddr\<close> with
  \<^verbatim>\<open>IsLoopback\<close>, \<^verbatim>\<open>net.JoinHostPort\<close> and \<^verbatim>\<open>strings.EqualFold\<close>.
\<close>

section \<open>Byte classes and searches\<close>

definition is_alpha :: "char \<Rightarrow> bool" where
  "is_alpha c \<longleftrightarrow> (65 \<le> byte c \<and> byte c \<le> (90::nat)) \<or> (97 \<le> byte c \<and> byte c \<le> (122::nat))"

definition is_ctl :: "char \<Rightarrow> bool" where
  "is_ctl c \<longleftrightarrow> byte c < (32::nat) \<or> byte c = (127::nat)"

definition lower :: "char \<Rightarrow> char" where
  "lower c = (if 65 \<le> byte c \<and> byte c \<le> (90::nat) then char_of (byte c + (32::nat)) else c)"

text \<open>The text before and after the last occurrence of a byte.\<close>

fun split_last :: "char \<Rightarrow> string \<Rightarrow> (string \<times> string) option" where
  "split_last c [] = None"
| "split_last c (x # s) =
     (case split_last c s of
        Some (b, a) \<Rightarrow> Some (x # b, a)
      | None \<Rightarrow> if x = c then Some ([], s) else None)"

lemma split_last_None_iff: "split_last c s = None \<longleftrightarrow> c \<notin> set s"
  by (induction s) (auto split: option.splits)

lemma split_last_Some: "split_last c s = Some (b, a) \<Longrightarrow> s = b @ c # a \<and> c \<notin> set a"
  by (induction s arbitrary: b) (auto split: option.splits if_splits simp: split_last_None_iff)

lemma split_last_append: "c \<notin> set a \<Longrightarrow> split_last c (b @ c # a) = Some (b, a)"
proof (induction b)
  case Nil
  then have "split_last c a = None" by (simp add: split_last_None_iff)
  then show ?case by simp
qed simp

section \<open>Addresses\<close>

text \<open>Dotted-quad fields: one to three digits, no leading zero, at most 255.\<close>

definition ipv4_field :: "string \<Rightarrow> nat option" where
  "ipv4_field s =
     (if s \<noteq> [] \<and> list_all is_digit s \<and> (length s = 1 \<or> hd s \<noteq> CHR ''0'') \<and> digits_val s \<le> 255
      then Some (digits_val s) else None)"

definition ipv4_fields :: "string \<Rightarrow> nat list option" where
  "ipv4_fields s =
     (case map ipv4_field (split_char (CHR ''.'') s) of
        [Some a, Some b, Some c, Some d] \<Rightarrow> Some [a, b, c, d]
      | _ \<Rightarrow> None)"

definition hex_run :: "string \<Rightarrow> string" where
  "hex_run s = takeWhile (\<lambda>c. hex_val c \<noteq> None) s"

text \<open>
  The groups of an IPv6 address after a leading ellipsis: the bytes read so far, the
  position of the ellipsis, the text left.  \<^verbatim>\<open>None\<close> is a parse error.
\<close>

function ipv6_groups :: "nat list \<Rightarrow> nat option \<Rightarrow> string \<Rightarrow> (nat list \<times> nat option) option" where
  "ipv6_groups ip ell s =
     (if 16 \<le> length ip then (if s = [] then Some (ip, ell) else None)
      else
        let h = hex_run s; t = drop (length h) s in
        if h = [] \<or> 4 < length h then None
        else if has_prefix t ''.'' then
          (if (ell = None \<and> length ip \<noteq> 12) \<or> 16 < length ip + 4 then None
           else case ipv4_fields s of None \<Rightarrow> None | Some q \<Rightarrow> Some (ip @ q, ell))
        else
          case hex_number 0 h of
            None \<Rightarrow> None
          | Some v \<Rightarrow>
              let ip' = ip @ [v div 256, v mod 256] in
              (case t of
                 [] \<Rightarrow> Some (ip', ell)
               | [c] \<Rightarrow> None
               | c # d # u \<Rightarrow>
                   if c \<noteq> CHR '':'' then None
                   else if d = CHR '':'' then
                     (if ell \<noteq> None then None
                      else if u = [] then Some (ip', Some (length ip'))
                      else ipv6_groups ip' (Some (length ip')) u)
                   else ipv6_groups ip' ell (d # u)))"
  by pat_completeness auto
termination
proof (relation "measure (\<lambda>(ip, ell, s). length s)", goal_cases)
  case (2 ip ell s h t v ip' c l d u)
  have "length (c # d # u) \<le> length s" using 2 by (metis diff_le_self length_drop)
  then show ?case by simp
next
  case (3 ip ell s h t v ip' c l d u)
  have "length (c # d # u) \<le> length s" using 3 by (metis diff_le_self length_drop)
  then show ?case by simp
qed simp

declare ipv6_groups.simps [simp del]

datatype addr = Addr4 "nat list" | Addr6 "nat list"

definition parse_ipv6 :: "string \<Rightarrow> addr option" where
  "parse_ipv6 s0 =
     (let (s, zone, pct) = cut s0 ''%'' in
      if pct \<and> zone = [] then None
      else
        let lead = has_prefix s ''::'' in
        if lead \<and> length s = 2 then Some (Addr6 (replicate 16 0))
        else
          case ipv6_groups [] (if lead then Some 0 else None) (if lead then drop 2 s else s) of
            None \<Rightarrow> None
          | Some (ip, ell) \<Rightarrow>
              if length ip < 16 then
                (case ell of
                   None \<Rightarrow> None
                 | Some e \<Rightarrow> Some (Addr6 (take e ip @ replicate (16 - length ip) 0 @ drop e ip)))
              else if ell \<noteq> None then None
              else Some (Addr6 ip))"

text \<open>\<^verbatim>\<open>netip.ParseAddr\<close>: the first dot, colon or percent sign decides the family.\<close>

definition parse_addr :: "string \<Rightarrow> addr option" where
  "parse_addr s =
     (case dropWhile (\<lambda>c. c \<notin> {CHR ''.'', CHR '':'', CHR ''%''}) s of
        [] \<Rightarrow> None
      | c # _ \<Rightarrow> if c = CHR ''.'' then map_option Addr4 (ipv4_fields s)
                 else if c = CHR '':'' then parse_ipv6 s
                 else None)"

definition is_loopback :: "addr \<Rightarrow> bool" where
  "is_loopback a =
     (case a of
        Addr4 ip \<Rightarrow> ip ! 0 = 127
      | Addr6 ip \<Rightarrow> if take 12 ip = replicate 10 0 @ [255, 255] then ip ! 12 = 127
                    else ip = replicate 15 0 @ [1])"

section \<open>Escapes in the parts of a URL\<close>

datatype url_mode = Mode_path | Mode_userinfo | Mode_host | Mode_zone | Mode_fragment

definition host_ok :: "char \<Rightarrow> bool" where
  "host_ok c \<longleftrightarrow> is_alpha c \<or> is_digit c \<or> c \<in> set ''!$&()*+,;=:[]<>-_.~''
     \<or> byte c = (39::nat) \<or> c = dquote"

fun url_unescape :: "url_mode \<Rightarrow> string \<Rightarrow> string option" where
  "url_unescape m [] = Some []"
| "url_unescape m (c # s) =
     (if c = CHR ''%'' then
        (case s of
           x # y # t \<Rightarrow>
             (case (hex_val x, hex_val y) of
                (Some a, Some b) \<Rightarrow>
                  let v = char_of (16 * a + b); esc = (x = CHR ''2'' \<and> y = CHR ''5'') in
                  if m = Mode_host \<and> a < 8 \<and> \<not> esc then None
                  else if m = Mode_zone \<and> \<not> esc \<and> v \<noteq> CHR '' '' \<and> \<not> host_ok v then None
                  else map_option (Cons v) (url_unescape m t)
              | _ \<Rightarrow> None)
         | _ \<Rightarrow> None)
      else if (m = Mode_host \<or> m = Mode_zone) \<and> byte c < (128::nat) \<and> \<not> host_ok c then None
      else map_option (Cons c) (url_unescape m s))"

section \<open>Parsing a URL\<close>

text \<open>\<^verbatim>\<open>getScheme\<close>: the scheme and the rest; \<^verbatim>\<open>None\<close> is a missing scheme.\<close>

definition scheme_char :: "char \<Rightarrow> bool" where
  "scheme_char c \<longleftrightarrow> is_alpha c \<or> is_digit c \<or> c \<in> set ''+-.''"

definition get_scheme :: "string \<Rightarrow> (string \<times> string) option" where
  "get_scheme s =
     (let h = takeWhile scheme_char s; t = drop (length h) s in
      if has_prefix t '':'' \<and> h = [] then None
      else if has_prefix t '':'' \<and> is_alpha (hd h) then Some (h, tl t)
      else Some ([], s))"

definition valid_optional_port :: "string \<Rightarrow> bool" where
  "valid_optional_port p \<longleftrightarrow> p = [] \<or> (hd p = CHR '':'' \<and> list_all is_digit (tl p))"

definition userinfo_ok :: "char \<Rightarrow> bool" where
  "userinfo_ok c \<longleftrightarrow> is_alpha c \<or> is_digit c \<or> c \<in> set ''-._:~!$&()*+,;=%@'' \<or> byte c = (39::nat)"

definition parse_bracketed :: "string \<Rightarrow> string option" where
  "parse_bracketed h =
     (case split_last (CHR '']'') h of
        None \<Rightarrow> None
      | Some (inner, port) \<Rightarrow>
          if \<not> valid_optional_port port then None
          else
            let (pre, post, found) = cut inner ''%25'';
                name = (if found
                        then (case (url_unescape Mode_host pre,
                                    url_unescape Mode_zone (''%25'' @ post)) of
                                (Some a, Some b) \<Rightarrow> Some (a @ b)
                              | _ \<Rightarrow> None)
                        else url_unescape Mode_host inner)
            in
              (case name of
                 None \<Rightarrow> None
               | Some n \<Rightarrow>
                   (case parse_addr n of
                      Some (Addr6 _) \<Rightarrow> Some (''['' @ n @ '']'' @ port)
                    | _ \<Rightarrow> None)))"

text \<open>\<^verbatim>\<open>parseHost\<close>: an IP literal in brackets, or a name whose first colon opens the port.\<close>

definition parse_host :: "string \<Rightarrow> string option" where
  "parse_host h =
     (case split_last (CHR ''['') h of
        Some ([], inner) \<Rightarrow> parse_bracketed inner
      | Some _ \<Rightarrow> None
      | None \<Rightarrow>
          let port = dropWhile (\<lambda>c. c \<noteq> CHR '':'') h in
          if \<not> valid_optional_port port then None else url_unescape Mode_host h)"

definition parse_authority :: "string \<Rightarrow> string option" where
  "parse_authority a =
     (case split_last (CHR ''@'') a of
        None \<Rightarrow> parse_host a
      | Some (user, host) \<Rightarrow>
          (case parse_host host of
             None \<Rightarrow> None
           | Some h \<Rightarrow>
               if list_all userinfo_ok user \<and> url_unescape Mode_userinfo user \<noteq> None
               then Some h else None))"

record url =
  Scheme :: string
  Host :: string

definition parse_url :: "string \<Rightarrow> url option" where
  "parse_url raw =
     (let (u, frag, hash) = cut raw ''#'' in
      if list_ex is_ctl u \<or> url_unescape Mode_fragment frag = None then None
      else if u = ''*'' then Some \<lparr>Scheme = [], Host = []\<rparr>
      else case get_scheme u of
        None \<Rightarrow> None
      | Some (sch, rest0) \<Rightarrow>
          let scheme = map lower sch; (rest, query, q) = cut rest0 ''?'' in
          if \<not> has_prefix rest ''/'' \<and> scheme \<noteq> [] then Some \<lparr>Scheme = scheme, Host = []\<rparr>
          else if \<not> has_prefix rest ''/'' \<and> contains (fst (cut rest ''/'')) '':'' then None
          else if (scheme \<noteq> [] \<or> \<not> has_prefix rest ''///'') \<and> has_prefix rest ''//'' then
            let authority = takeWhile (\<lambda>c. c \<noteq> slash) (drop 2 rest);
                path = dropWhile (\<lambda>c. c \<noteq> slash) (drop 2 rest)
            in
              (case parse_authority authority of
                 None \<Rightarrow> None
               | Some h \<Rightarrow> if url_unescape Mode_path path = None then None
                           else Some \<lparr>Scheme = scheme, Host = h\<rparr>)
          else if url_unescape Mode_path rest = None then None
          else Some \<lparr>Scheme = scheme, Host = []\<rparr>)"

text \<open>\<^verbatim>\<open>Hostname\<close> and \<^verbatim>\<open>Port\<close>.\<close>

definition split_host_port :: "string \<Rightarrow> string \<times> string" where
  "split_host_port hp =
     (let (host, port) =
        (case split_last (CHR '':'') hp of
           None \<Rightarrow> (hp, [])
         | Some (h, p) \<Rightarrow> if list_all is_digit p then (h, p) else (hp, []))
      in if has_prefix host ''['' \<and> has_suffix host '']''
         then (take (length host - 2) (tl host), port) else (host, port))"

definition url_hostname :: "url \<Rightarrow> string" where
  "url_hostname u = fst (split_host_port (Host u))"

definition url_port :: "url \<Rightarrow> string" where
  "url_port u = snd (split_host_port (Host u))"

definition join_host_port :: "string \<Rightarrow> string \<Rightarrow> string" where
  "join_host_port h p = (if CHR '':'' \<in> set h then ''['' @ h @ '']:'' @ p else h @ '':'' @ p)"

end
