(* ===== verification/Config.thy ===== *)
theory Config
  imports Go_Net
begin

text \<open>
  \<^verbatim>\<open>internal/harness/config.go\<close> and \<^verbatim>\<open>SplitNodeConfig\<close> of \<^verbatim>\<open>separated.go\<close>: the
  HOCON text of a node's configuration, byte for byte.  Go quotes with \<^verbatim>\<open>%q\<close>, whose table
  of printable code points is the argument \<open>pr\<close>; it iterates over the map of registry base
  URLs in an order of its own, the argument \<open>ks\<close>.
\<close>

section \<open>Node configurations\<close>

record NodeConfig =
  ListenAddr :: string
  RegistryID :: string
  PDPBaseURL :: string
  NATSURL :: string
  AccountSeedFile :: string
  TrustSeedFile :: string
  ResolverDir :: string
  NodeDID :: string
  ResolverBaseURL :: string
  RegistryBaseURLs :: "string \<rightharpoonup> string"
  VCStoreEndpoint :: string
  LoopsBlock :: string
  AllowLoopback :: bool
  AllowPrivateNetworks :: bool
  Extra :: string
  ChainExtra :: string

definition BearerToken :: string where
  "BearerToken = ''e2e-dummy''"

text \<open>\<^verbatim>\<open>fmt\<close>'s \<^verbatim>\<open>%v\<close> of a bool.\<close>

definition show_bool :: "bool \<Rightarrow> string" where
  "show_bool b = (if b then ''true'' else ''false'')"

definition unlines :: "string list \<Rightarrow> string" where
  "unlines ls = concat (map (\<lambda>l. l @ [nl]) ls)"

definition serviceEndpointsBlock :: \<open>(nat \<Rightarrow> bool) \<Rightarrow> NodeConfig \<Rightarrow> string\<close> where
  \<open>serviceEndpointsBlock pr c =
     (if VCStoreEndpoint c = [] then []
      else unlines
        [''    service-endpoints {'',
         ''      vc-resolver { type = "VCResolver", url = '' @ quote pr (VCStoreEndpoint c) @ '' }'',
         ''    }''])\<close>

definition plainInternalLine :: \<open>(nat \<Rightarrow> bool) \<Rightarrow> NodeConfig \<Rightarrow> string\<close> where
  \<open>plainInternalLine pr c =
     (case parse_url (PDPBaseURL c) of
        None \<Rightarrow> []
      | Some u \<Rightarrow>
          if Scheme u \<noteq> ''http'' \<or> url_hostname u = [] then []
          else if equal_fold (url_hostname u) ''localhost'' then []
          else if (case parse_addr (url_hostname u) of
                     Some a \<Rightarrow> is_loopback a | None \<Rightarrow> False) then []
          else
            let port = (if url_port u = [] then ''80'' else url_port u) in
            unlines [''  auth.plain-internal = ['' @ quote pr (join_host_port (url_hostname u) port)
                       @ '']''])\<close>

definition core_lines :: \<open>(nat \<Rightarrow> bool) \<Rightarrow> NodeConfig \<Rightarrow> string list\<close> where
  \<open>core_lines pr c =
      [''provin.network {'',
       ''  core {'',
       ''    listen-addr = '' @ quote pr (ListenAddr c),
       ''    data-dir    = "./data"'',
       ''    dev.allow-loopback     = '' @ show_bool (AllowLoopback c),
       ''    allow-private-networks = '' @ show_bool (AllowPrivateNetworks c),
       ''    # This harness never configures node-native TLS (no cert/key) and the'',
       ''    # process-runtime listen-addr (FreePort's ":<port>") has no host segment,'',
       ''    # so core.ListenerIsLoopback cannot recognize it as loopback even though'',
       ''    # the harness only ever binds 127.0.0.1 '' @ [CHR 0xE2, CHR 0x80, CHR 0x94] @ '' an explicit cleartext'',
       ''    # acknowledgement is the honest choice here (P0-6 transport-security'',
       ''    # guard), never a real deployment posture.'',
       ''    tls.allow-cleartext = true'',
       ''  }'',
       ''  auth.policy-verifier-url = '' @ quote pr (PDPBaseURL c)]\<close>

definition registry_lines :: \<open>(nat \<Rightarrow> bool) \<Rightarrow> NodeConfig \<Rightarrow> string list\<close> where
  \<open>registry_lines pr c =
      [''  registry {'',
       ''    id = '' @ quote pr (RegistryID c)]\<close>

definition nats_lines :: \<open>(nat \<Rightarrow> bool) \<Rightarrow> NodeConfig \<Rightarrow> string list\<close> where
  \<open>nats_lines pr c =
      [''  }'',
       ''  chain {'',
       ''    transport = "nats"'',
       ''    nats {'',
       ''      url                  = '' @ quote pr (NATSURL c),
       ''      account-seed-file    = '' @ quote pr (AccountSeedFile c),
       ''      trust-root-seed-file = '' @ quote pr (TrustSeedFile c),
       ''      resolver-dir         = '' @ quote pr (ResolverDir c),
       ''      node-did             = '' @ quote pr (NodeDID c),
       ''      resolver-base-url    = '' @ quote pr (ResolverBaseURL c)]\<close>

text \<open>The block of registry base URLs, in the order of the sorted keys.\<close>

definition registry_urls_block :: \<open>(nat \<Rightarrow> bool) \<Rightarrow> string list \<Rightarrow> NodeConfig \<Rightarrow> string\<close> where
  \<open>registry_urls_block pr ks c =
     (if ks = [] then []
      else unlines
        (''      registry-base-urls {''
         # map (\<lambda>reg. ''        '' @ quote pr reg @ '' = ''
                      @ quote pr (case RegistryBaseURLs c reg of Some u \<Rightarrow> u | None \<Rightarrow> [])) (sort ks)
         @ [''      }'']))\<close>

definition pipeline_lines :: \<open>(nat \<Rightarrow> bool) \<Rightarrow> NodeConfig \<Rightarrow> string\<close> where
  \<open>pipeline_lines pr c =
     (if VCStoreEndpoint c = [] then []
      else unlines [''    vc-store-endpoint = '' @ quote pr (VCStoreEndpoint c)])
     @ unlines [''    vc-store-bearer   = '' @ quote pr BearerToken]
     @ (if LoopsBlock c = [] then [] else unlines [''    loops {'', LoopsBlock c, ''    }''])
     @ (if Extra c = [] then [] else unlines [Extra c])\<close>

definition Render :: \<open>(nat \<Rightarrow> bool) \<Rightarrow> string list \<Rightarrow> NodeConfig \<Rightarrow> string\<close> where
  \<open>Render pr ks c =
     unlines (core_lines pr c) @ plainInternalLine pr c
     @ unlines (registry_lines pr c) @ serviceEndpointsBlock pr c
     @ unlines (nats_lines pr c) @ registry_urls_block pr ks c
     @ unlines [''    }'']
     @ (if ChainExtra c = [] then [] else unlines [ChainExtra c])
     @ unlines [''  }'', ''  pipeline {'']
     @ pipeline_lines pr c
     @ unlines [''  }'', ''}'']\<close>

section \<open>Splitting one configuration into two\<close>

record SeparatedConfig =
  sNetworkListenAddr :: string
  sPipelineListenAddr :: string
  sRegistryID :: string
  sPDPBaseURL :: string
  sNATSURL :: string
  sAccountSeedFile :: string
  sTrustSeedFile :: string
  sResolverDir :: string
  sNodeDID :: string
  sResolverBaseURL :: string
  sRegistryBaseURLs :: "string \<rightharpoonup> string"
  sLoopsBlock :: string
  sTunables :: string
  sChainExtra :: string
  sAllowLoopback :: bool
  sAllowPrivateNetworks :: bool

definition network_base_url :: "SeparatedConfig \<Rightarrow> string" where
  "network_base_url c =
     (let own = (case sRegistryBaseURLs c (sRegistryID c) of Some u \<Rightarrow> u | None \<Rightarrow> []) in
      if sResolverBaseURL c \<noteq> [] then sResolverBaseURL c
      else if own \<noteq> [] then own
      else ''http://127.0.0.1'' @ sNetworkListenAddr c)"

definition base_config :: "SeparatedConfig \<Rightarrow> NodeConfig" where
  "base_config c =
     \<lparr>ListenAddr = [], RegistryID = sRegistryID c, PDPBaseURL = sPDPBaseURL c,
      NATSURL = sNATSURL c, AccountSeedFile = sAccountSeedFile c,
      TrustSeedFile = sTrustSeedFile c, ResolverDir = sResolverDir c, NodeDID = sNodeDID c,
      ResolverBaseURL = sResolverBaseURL c, RegistryBaseURLs = sRegistryBaseURLs c,
      VCStoreEndpoint = [], LoopsBlock = [], AllowLoopback = sAllowLoopback c,
      AllowPrivateNetworks = sAllowPrivateNetworks c, Extra = [], ChainExtra = sChainExtra c\<rparr>"

definition network_config :: "SeparatedConfig \<Rightarrow> NodeConfig" where
  "network_config c =
     (base_config c)\<lparr>ListenAddr := sNetworkListenAddr c, VCStoreEndpoint := network_base_url c,
                     LoopsBlock := [], Extra := sTunables c\<rparr>"

definition pipeline_config :: "SeparatedConfig \<Rightarrow> NodeConfig" where
  "pipeline_config c =
     (base_config c)\<lparr>ListenAddr := sPipelineListenAddr c, VCStoreEndpoint := network_base_url c,
                     LoopsBlock := sLoopsBlock c\<rparr>"

definition SplitNodeConfig ::
  "(nat \<Rightarrow> bool) \<Rightarrow> string list \<Rightarrow> string list \<Rightarrow> SeparatedConfig \<Rightarrow> string \<times> string" where
  "SplitNodeConfig pr ks ks' c = (Render pr ks (network_config c), Render pr ks' (pipeline_config c))"

section \<open>Reading a configuration\<close>

text \<open>
  A reader of \<^verbatim>\<open>key = value\<close> lines: the key is the line's first word; the first line of a
  key gives its value.
\<close>

definition conf_line :: "string \<Rightarrow> (string \<times> string) option" where
  "conf_line l =
     (let t = dropWhile (\<lambda>c. c = CHR '' '') l;
          k = takeWhile (\<lambda>c. c \<noteq> CHR '' '') t;
          v = dropWhile (\<lambda>c. c = CHR '' '') (dropWhile (\<lambda>c. c \<noteq> CHR '' '') t)
      in if has_prefix v ''= '' then Some (k, drop 2 v) else None)"

definition conf_entries :: "string \<Rightarrow> (string \<times> string) list" where
  "conf_entries s = List.map_filter conf_line (split_char nl s)"

definition conf_value :: "string \<Rightarrow> string \<Rightarrow> string option" where
  "conf_value k s =
     (case map_of (conf_entries s) k of None \<Rightarrow> None | Some v \<Rightarrow> unquote v)"

lemma unlines_simps [simp]:
  "unlines [] = []" "unlines (l # ls) = l @ nl # unlines ls"
  "unlines (ls @ ls') = unlines ls @ unlines ls'"
  by (simp_all add: unlines_def)

lemma split_unlines:
  "\<forall>l \<in> set ls. nl \<notin> set l \<Longrightarrow> split_char nl (unlines ls @ s) = ls @ split_char nl s"
  by (induction ls) (auto simp: split_char_append)

lemma entries_unlines:
  "\<forall>l \<in> set ls. nl \<notin> set l \<Longrightarrow>
     conf_entries (unlines ls @ s) = List.map_filter conf_line ls @ conf_entries s"
  by (simp add: conf_entries_def split_unlines map_filter_def)

lemma core_no_nl: "\<forall>l \<in> set (core_lines pr c). nl \<notin> set l"
  by (simp add: core_lines_def quote_no_nl show_bool_def)

lemma registry_no_nl: "\<forall>l \<in> set (registry_lines pr c). nl \<notin> set l"
  by (simp add: registry_lines_def quote_no_nl)

lemma nats_no_nl: "\<forall>l \<in> set (nats_lines pr c). nl \<notin> set l"
  by (simp add: nats_lines_def quote_no_nl)

lemma map_filter_Cons:
  "List.map_filter f (x # xs) =
     (case f x of None \<Rightarrow> List.map_filter f xs | Some y \<Rightarrow> y # List.map_filter f xs)"
  by (cases "f x") (simp_all add: map_filter_def)

lemma map_filter_Nil: "List.map_filter f [] = []"
  by (simp add: map_filter_def)

lemma core_entries:
  "List.map_filter conf_line (core_lines pr c) =
    [(''listen-addr'', quote pr (ListenAddr c)), (''data-dir'', dquote # ''./data'' @ [dquote]),
     (''dev.allow-loopback'', show_bool (AllowLoopback c)),
     (''allow-private-networks'', show_bool (AllowPrivateNetworks c)),
     (''tls.allow-cleartext'', ''true''),
     (''auth.policy-verifier-url'', quote pr (PDPBaseURL c))]"
  by (simp add: core_lines_def map_filter_Cons map_filter_Nil conf_line_def Let_def has_prefix_def)
lemma registry_entries:
  "List.map_filter conf_line (registry_lines pr c) = [(''id'', quote pr (RegistryID c))]"
  by (simp add: registry_lines_def map_filter_Cons map_filter_Nil conf_line_def Let_def has_prefix_def)

lemma nats_entries:
  "List.map_filter conf_line (nats_lines pr c) =
    [(''transport'', dquote # ''nats'' @ [dquote]), (''url'', quote pr (NATSURL c)),
     (''account-seed-file'', quote pr (AccountSeedFile c)),
     (''trust-root-seed-file'', quote pr (TrustSeedFile c)),
     (''resolver-dir'', quote pr (ResolverDir c)), (''node-did'', quote pr (NodeDID c)),
     (''resolver-base-url'', quote pr (ResolverBaseURL c))]"
  by (simp add: nats_lines_def map_filter_Cons map_filter_Nil conf_line_def Let_def has_prefix_def)

lemma plain_internal_entries:
  obtains ls where "plainInternalLine pr c = unlines ls" "\<forall>l \<in> set ls. nl \<notin> set l"
    "\<forall>e \<in> set (List.map_filter conf_line ls). fst e = ''auth.plain-internal''"
proof (cases "plainInternalLine pr c = []")
  case True
  then show ?thesis using that [of "[]"] by (simp add: map_filter_Nil)
next
  case False
  then obtain hp where "plainInternalLine pr c =
      unlines [''  auth.plain-internal = ['' @ quote pr hp @ '']'']"
    by (auto simp: plainInternalLine_def Let_def split: option.splits if_splits)
  then show ?thesis
    by (rule that) (simp_all add: map_filter_Cons map_filter_Nil conf_line_def has_prefix_def quote_no_nl)
qed

lemma service_entries:
  obtains ls where "serviceEndpointsBlock pr c = unlines ls" "\<forall>l \<in> set ls. nl \<notin> set l"
    "List.map_filter conf_line ls = []"
proof (cases "VCStoreEndpoint c = []")
  case True
  then show ?thesis using that [of "[]"] by (simp add: map_filter_Nil serviceEndpointsBlock_def)
next
  case False
  show ?thesis
  proof (rule that)
    show "serviceEndpointsBlock pr c = unlines
        [''    service-endpoints {'',
         ''      vc-resolver { type = '' @ dquote # ''VCResolver'' @ dquote # '', url = ''
           @ quote pr (VCStoreEndpoint c) @ '' }'',
         ''    }'']"
      using False by (simp add: serviceEndpointsBlock_def)
  qed (simp_all add: map_filter_Cons map_filter_Nil conf_line_def has_prefix_def quote_no_nl)
qed

lemma render_entries:
  obtains pl rest where "conf_entries (Render pr ks c) =
      List.map_filter conf_line (core_lines pr c) @ pl
      @ List.map_filter conf_line (registry_lines pr c)
      @ List.map_filter conf_line (nats_lines pr c) @ rest"
    "\<forall>e \<in> set pl. fst e = ''auth.plain-internal''"
proof -
  obtain ls where ls: "plainInternalLine pr c = unlines ls" "\<forall>l \<in> set ls. nl \<notin> set l"
    "\<forall>e \<in> set (List.map_filter conf_line ls). fst e = ''auth.plain-internal''"
    by (rule plain_internal_entries)
  obtain sl where sl: "serviceEndpointsBlock pr c = unlines sl" "\<forall>l \<in> set sl. nl \<notin> set l"
    "List.map_filter conf_line sl = []"
    by (rule service_entries)
  note entries = entries_unlines [OF core_no_nl] entries_unlines [OF registry_no_nl]
    entries_unlines [OF nats_no_nl] entries_unlines [OF ls(2)] entries_unlines [OF sl(2)]
  show ?thesis
  proof (rule that [OF _ ls(3)])
    show "conf_entries (Render pr ks c) =
        List.map_filter conf_line (core_lines pr c) @ List.map_filter conf_line ls
        @ List.map_filter conf_line (registry_lines pr c)
        @ List.map_filter conf_line (nats_lines pr c)
        @ conf_entries (registry_urls_block pr ks c @ unlines [''    }'']
            @ (if ChainExtra c = [] then [] else unlines [ChainExtra c])
            @ unlines [''  }'', ''  pipeline {''] @ pipeline_lines pr c @ unlines [''  }'', ''}''])"
      unfolding Render_def ls(1) sl(1) append_assoc entries sl(3) append_Nil ..
  qed
qed

lemma map_of_skip:
  "\<forall>e \<in> set xs. fst e \<noteq> k \<Longrightarrow> map_of (xs @ ys) k = map_of ys k"
  by (induction xs) auto

text \<open>The nine quoted settings of a configuration, by key.\<close>

definition settings :: "NodeConfig \<Rightarrow> (string \<times> string) list" where
  "settings c =
     [(''listen-addr'', ListenAddr c), (''auth.policy-verifier-url'', PDPBaseURL c),
      (''id'', RegistryID c), (''url'', NATSURL c), (''account-seed-file'', AccountSeedFile c),
      (''trust-root-seed-file'', TrustSeedFile c), (''resolver-dir'', ResolverDir c),
      (''node-did'', NodeDID c), (''resolver-base-url'', ResolverBaseURL c)]"

lemma render_settings:
  assumes "(k, v) \<in> set (settings c)"
  shows "conf_value k (Render pr ks c) = Some v"
proof -
  obtain pl rest where e: "conf_entries (Render pr ks c) =
      List.map_filter conf_line (core_lines pr c) @ pl
      @ List.map_filter conf_line (registry_lines pr c)
      @ List.map_filter conf_line (nats_lines pr c) @ rest"
    and pl: "\<forall>e \<in> set pl. fst e = ''auth.plain-internal''"
    by (rule render_entries)
  let ?C = "List.map_filter conf_line (core_lines pr c)"
  let ?R = "List.map_filter conf_line (registry_lines pr c)"
  let ?N = "List.map_filter conf_line (nats_lines pr c)"
  have keys: "map fst (?C @ ?R @ ?N) =
    [''listen-addr'', ''data-dir'', ''dev.allow-loopback'', ''allow-private-networks'',
     ''tls.allow-cleartext'', ''auth.policy-verifier-url'', ''id'', ''transport'', ''url'',
     ''account-seed-file'', ''trust-root-seed-file'', ''resolver-dir'', ''node-did'',
     ''resolver-base-url'']"
    unfolding core_entries registry_entries nats_entries by simp
  have dist: "distinct (map fst (?C @ ?R @ ?N))" unfolding keys by code_simp
  have "set (map (\<lambda>(k, v). (k, quote pr v)) (settings c)) \<subseteq> set (?C @ ?R @ ?N)"
    unfolding settings_def core_entries registry_entries nats_entries
      list.map list.set append.simps prod.case insert_subset
    by (intro conjI empty_subsetI; (rule insertI1 | rule insertI2)+)
  then have mem: "(k, quote pr v) \<in> set (?C @ ?R @ ?N)" using assms by force
  have "k \<in> set (map fst (?C @ ?R @ ?N))" using mem by (metis fst_conv image_eqI list.set_map)
  moreover have "''auth.plain-internal'' \<notin> set (map fst (?C @ ?R @ ?N))"
    unfolding keys by code_simp
  ultimately have "map_of pl k = None" using pl by (auto simp: map_of_eq_None_iff)
  moreover have "map_of (?C @ ?R @ ?N) k = Some (quote pr v)"
    using dist mem by (rule map_of_is_SomeI)
  ultimately have "map_of (conf_entries (Render pr ks c)) k = Some (quote pr v)"
    unfolding e map_of_append by (auto simp: map_add_def split: option.splits)
  then show ?thesis by (simp add: conf_value_def unquote_quote)
qed
section \<open>Plain-http URLs with a host name\<close>

definition reg_name :: "string \<Rightarrow> bool" where
  "reg_name h \<longleftrightarrow>
     h \<noteq> [] \<and> list_all (\<lambda>c. is_alpha c \<or> is_digit c \<or> c = CHR ''-'' \<or> c = CHR ''.'') h"

definition authority :: "string \<Rightarrow> string \<Rightarrow> string" where
  "authority host port = host @ (if port = [] then [] else CHR '':'' # port)"

definition name_char :: "char \<Rightarrow> bool" where
  "name_char c \<longleftrightarrow> is_alpha c \<or> is_digit c \<or> c = CHR ''-'' \<or> c = CHR ''.''"

lemma name_char_neq:
  "name_char c \<Longrightarrow> c \<noteq> CHR ''#'' \<and> c \<noteq> CHR ''?'' \<and> c \<noteq> slash \<and> c \<noteq> CHR ''@'' \<and> c \<noteq> CHR ''[''
     \<and> c \<noteq> CHR ''%'' \<and> c \<noteq> CHR '':'' \<and> \<not> is_ctl c \<and> host_ok c"
  by (auto simp: name_char_def is_alpha_def is_digit_def is_ctl_def host_ok_def)

lemma digit_name_char: "is_digit c \<Longrightarrow> name_char c"
  by (simp add: name_char_def)

lemma unescape_host:
  "\<forall>c \<in> set s. c \<noteq> CHR ''%'' \<and> host_ok c \<Longrightarrow> url_unescape Mode_host s = Some s"
  by (induction s) auto

lemma reg_name_char: "reg_name h \<Longrightarrow> c \<in> set h \<Longrightarrow> name_char c"
  by (auto simp: reg_name_def list_all_iff name_char_def)

lemma port_char: "list_all is_digit p \<Longrightarrow> c \<in> set p \<Longrightarrow> name_char c"
  by (auto simp: list_all_iff digit_name_char)

lemma colon_char:
  "\<not> is_ctl (CHR '':'')" "host_ok (CHR '':'')"
  by (simp_all add: is_ctl_def host_ok_def)

lemma authority_chars:
  assumes "reg_name host" and "list_all is_digit port" and "c \<in> set (authority host port)"
  shows "name_char c \<or> c = CHR '':''"
  using assms reg_name_char [of host c] port_char [of port c]
  by (auto simp: authority_def split: if_splits)

lemma parse_authority_name:
  assumes "reg_name host" and "list_all is_digit port"
  shows "parse_authority (authority host port) = Some (authority host port)"
proof -
  let ?a = "authority host port"
  have ch: "c \<noteq> CHR ''@'' \<and> c \<noteq> CHR ''['' \<and> c \<noteq> CHR ''%'' \<and> host_ok c" if "c \<in> set ?a" for c
    using authority_chars [OF assms that]
  proof
    assume "c = CHR '':''"
    then show ?thesis by (simp add: colon_char)
  qed (drule name_char_neq, simp)
  have "split_last (CHR ''@'') ?a = None" "split_last (CHR ''['') ?a = None"
    using ch by (auto simp: split_last_None_iff)
  moreover have "dropWhile (\<lambda>c. c \<noteq> CHR '':'') ?a = (if port = [] then [] else CHR '':'' # port)"
  proof -
    have "\<forall>c \<in> set host. c \<noteq> CHR '':''"
      using reg_name_char [OF assms(1)] name_char_neq by blast
    then show ?thesis by (simp add: authority_def dropWhile_append2)
  qed
  moreover have "url_unescape Mode_host ?a = Some ?a" using ch by (intro unescape_host) blast
  ultimately show ?thesis
    using assms(2) by (auto simp: parse_authority_def parse_host_def valid_optional_port_def)
qed

lemma get_scheme_http: "get_scheme (''http:'' @ s) = Some (''http'', s)"
  by (simp add: get_scheme_def scheme_char_def is_alpha_def is_digit_def has_prefix_def)

lemma parse_url_name:
  assumes "reg_name host" and "list_all is_digit port"
  shows "parse_url (''http://'' @ authority host port) = Some \<lparr>Scheme = ''http'', Host = authority host port\<rparr>"
proof -
  let ?a = "authority host port"
  have ch: "c \<noteq> CHR ''#'' \<and> c \<noteq> CHR ''?'' \<and> c \<noteq> slash \<and> \<not> is_ctl c" if "c \<in> set ?a" for c
    using authority_chars [OF assms that]
  proof
    assume "c = CHR '':''"
    then show ?thesis by (simp add: colon_char)
  qed (drule name_char_neq, simp)
  have hash: "cut (''http://'' @ ?a) ''#'' = (''http://'' @ ?a, [], False)"
    by (rule cut_char_absent) (use ch in auto)
  have ctl: "\<not> list_ex is_ctl (''http://'' @ ?a)"
    using ch by (auto simp: list_ex_iff is_ctl_def)
  have q: "cut (''//'' @ ?a) ''?'' = (''//'' @ ?a, [], False)"
    by (rule cut_char_absent) (use ch in auto)
  have "\<forall>c \<in> set ?a. c \<noteq> slash" using ch by blast
  then have path: "takeWhile (\<lambda>c. c \<noteq> slash) (drop 2 (''//'' @ ?a)) = ?a"
    "dropWhile (\<lambda>c. c \<noteq> slash) (drop 2 (''//'' @ ?a)) = []"
    by (simp_all add: numeral_2_eq_2 takeWhile_eq_all_conv)
  have sch: "get_scheme (''http://'' @ ?a) = Some (''http'', ''//'' @ ?a)"
    using get_scheme_http [of "''//'' @ ?a"] by simp
  have low: "map lower ''http'' = ''http''" by code_simp
  have pre: "has_prefix (''//'' @ ?a) ''/''" "has_prefix (''//'' @ ?a) ''//''"
    by (simp_all add: has_prefix_def)
  have ne: "''http://'' @ ?a \<noteq> ''*''" "''http'' \<noteq> []" by simp_all
  show ?thesis
    unfolding parse_url_def hash Let_def split sch option.case low q path
    using ctl pre ne parse_authority_name [OF assms] by (simp only: simp_thms if_True if_False
        option.case url_unescape.simps option.distinct)
qed

lemma host_port_name:
  assumes "reg_name host" and "list_all is_digit port"
  shows "split_host_port (authority host port) = (host, port)"
proof -
  have h: "\<forall>c \<in> set host. c \<noteq> CHR '':'' \<and> c \<noteq> CHR ''[''" and ne: "host \<noteq> []"
    using reg_name_char [OF assms(1)] name_char_neq assms(1) by (blast, simp add: reg_name_def)
  have p: "CHR '':'' \<notin> set port" using port_char [OF assms(2)] name_char_neq by blast
  have "\<not> has_prefix host ''[''" using h ne by (cases host) (auto simp: has_prefix_def)
  moreover have "split_last (CHR '':'') (authority host port) =
      (if port = [] then None else Some (host, port))"
    using h p by (auto simp: authority_def split_last_None_iff split_last_append)
  ultimately show ?thesis
    using assms(2) by (simp add: split_host_port_def authority_def)
qed

lemma plain_line_name:
  assumes "PDPBaseURL c = ''http://'' @ authority host port" and "reg_name host"
    and "list_all is_digit port"
  shows "plainInternalLine pr c =
    (if equal_fold host ''localhost''
        \<or> (case parse_addr host of Some a \<Rightarrow> is_loopback a | None \<Rightarrow> False) then []
     else unlines [''  auth.plain-internal = ['' @
       quote pr (host @ '':'' @ (if port = [] then ''80'' else port)) @ '']''])"
proof -
  have "CHR '':'' \<notin> set host" "host \<noteq> []"
    using reg_name_char [OF assms(2)] name_char_neq assms(2) by (blast, simp add: reg_name_def)
  then show ?thesis
    unfolding plainInternalLine_def assms(1) parse_url_name [OF assms(2,3)] url_hostname_def
      url_port_def
    using host_port_name [OF assms(2,3)] by (simp add: join_host_port_def)
qed
lemma nat_str_hd: "0 < n \<Longrightarrow> hd (nat_str n) \<noteq> CHR ''0''"
proof (induction n rule: nat_str.induct)
  case (1 n)
  show ?case
  proof (cases "n < 10")
    case True
    then have "digit_val (hd (nat_str n)) = n" by (simp add: nat_str.simps [of n])
    with "1.prems" show ?thesis by (auto simp: digit_val_def)
  next
    case False
    then have "0 < n div 10" by simp
    with 1 False show ?thesis by (simp add: nat_str.simps [of n])
  qed
qed

lemma nat_str_no_leading_zero: "length (nat_str n) = 1 \<or> hd (nat_str n) \<noteq> CHR ''0''"
  by (cases "n = 0") (simp_all add: nat_str_hd nat_str.simps [of 0])

lemma ipv4_loopback:
  assumes "a \<le> 255" and "b \<le> 255" and "d \<le> 255"
  shows "reg_name (''127.'' @ nat_str a @ ''.'' @ nat_str b @ ''.'' @ nat_str d)" (is "reg_name ?h")
    and "parse_addr (''127.'' @ nat_str a @ ''.'' @ nat_str b @ ''.'' @ nat_str d) = Some (Addr4 [127, a, b, d])"
proof -
  have dg: "c \<in> set (nat_str n) \<Longrightarrow> is_digit c \<and> c \<noteq> CHR ''.''" for c n
    using nat_str_digits [of c n] by (auto simp: is_digit_def)
  show "reg_name ?h" using dg by (auto simp: reg_name_def list_all_iff is_digit_def)
  have split: "split_char (CHR ''.'') ?h = [''127'', nat_str a, nat_str b, nat_str d]"
  proof -
    have "CHR ''.'' \<notin> set (nat_str n)" for n using dg by blast
    then show ?thesis by (simp add: split_char_append split_char_absent)
  qed
  have field: "ipv4_field (nat_str n) = Some n" if "n \<le> 255" for n
  proof -
    have "length (nat_str n) = 1 \<or> hd (nat_str n) \<noteq> CHR ''0''"
      by (rule nat_str_no_leading_zero)
    then show ?thesis using dg that by (auto simp: ipv4_field_def list_all_iff)
  qed
  have "ipv4_field ''127'' = Some 127" by code_simp
  then have "ipv4_fields ?h = Some [127, a, b, d]"
    unfolding ipv4_fields_def split list.map using assms by (simp add: field)
  then show "parse_addr ?h = Some (Addr4 [127, a, b, d])" by (simp add: parse_addr_def)
qed

section \<open>A sample deployment\<close>

text \<open>A multi-registry node against the compose runtime's PDP, and a table of printable
  code points with none above U+00FF.\<close>

definition no_table :: "nat \<Rightarrow> bool" where
  "no_table r = False"

definition sample_separated :: SeparatedConfig where
  "sample_separated =
     \<lparr>sNetworkListenAddr = '':8443'', sPipelineListenAddr = '':8444'', sRegistryID = ''reg.example'',
      sPDPBaseURL = ''http://'' @ authority ''pdpstub'' ''9091'', sNATSURL = ''nats://nats:4222'',
      sAccountSeedFile = ''/app/secrets/acme-account.seed'', sTrustSeedFile = ''/app/secrets/operator.seed'',
      sResolverDir = ''/app/jwts'', sNodeDID = ''did:dplaax:reg.example:pipeline:p1'', sResolverBaseURL = [],
      sRegistryBaseURLs = [''reg.example'' \<mapsto> ''http://127.0.0.1:8443'', ''other'' \<mapsto> ''http://127.0.0.1:9443''],
      sLoopsBlock = [], sTunables = [], sChainExtra = ''    did-cache { enabled = true }'',
      sAllowLoopback = True, sAllowPrivateNetworks = False\<rparr>"

section \<open>Properties\<close>

text \<open>C9: The rendered text does not depend on the order in which Go iterates the map of
  registry base URLs.\<close>

theorem render_order_independent:
  assumes "set ks = set ks'" and "distinct ks" and "distinct ks'"
  shows "Render pr ks c = Render pr ks' c"
proof -
  have "sort ks = sort ks'" by (rule sort_set_unique [OF assms])
  moreover have "ks = [] \<longleftrightarrow> ks' = []" using assms(1) by auto
  ultimately show ?thesis by (simp add: Render_def registry_urls_block_def)
qed

lemma render_order_independent_witness:
  "Render no_table [''other'', ''reg.example''] (network_config sample_separated)
     = Render no_table [''reg.example'', ''other''] (network_config sample_separated)"
  by (rule render_order_independent) (simp_all add: insert_commute)

lemma sublist_same: "sublist x x"
  by simp

lemma sublist_trans: "sublist x y \<Longrightarrow> sublist y z \<Longrightarrow> sublist x z"
  by (rule sublist_order.order_trans)

lemma sublist_pad: "sublist x y \<Longrightarrow> sublist x (a @ y)" "sublist x y \<Longrightarrow> sublist x (y @ b)"
  unfolding sublist_def by (metis append_assoc)+

lemma render_pipeline_lines: "sublist (pipeline_lines pr c) (Render pr ks c)"
  unfolding Render_def append_assoc [symmetric]
  by (rule sublist_pad(2), rule sublist_pad(1), rule sublist_same)

lemma pipeline_loops:
  "LoopsBlock c \<noteq> [] \<Longrightarrow> sublist (unlines [''    loops {'', LoopsBlock c, ''    }'']) (pipeline_lines pr c)"
  unfolding pipeline_lines_def
  by (simp only: if_False, rule sublist_pad(1), rule sublist_pad(1), rule sublist_pad(2),
      rule sublist_same)

lemma pipeline_endpoint:
  "VCStoreEndpoint c \<noteq> [] \<Longrightarrow>
     sublist (unlines [''    vc-store-endpoint = '' @ quote pr (VCStoreEndpoint c)]) (pipeline_lines pr c)"
  unfolding pipeline_lines_def by (simp only: if_False) (rule sublist_pad(2) [OF sublist_same])

text \<open>C10: The data-plane loops reach the pipeline's configuration and never the network's.\<close>

theorem split_loops_only_in_pipeline:
  assumes "l \<noteq> []"
  shows "fst (SplitNodeConfig pr ks ks' (c\<lparr>sLoopsBlock := l\<rparr>)) = fst (SplitNodeConfig pr ks ks' c)
    \<and> sublist (unlines [''    loops {'', l, ''    }''])
        (snd (SplitNodeConfig pr ks ks' (c\<lparr>sLoopsBlock := l\<rparr>)))"
proof
  let ?p = "pipeline_config (c\<lparr>sLoopsBlock := l\<rparr>)"
  show "fst (SplitNodeConfig pr ks ks' (c\<lparr>sLoopsBlock := l\<rparr>)) = fst (SplitNodeConfig pr ks ks' c)"
    by (simp add: SplitNodeConfig_def network_config_def base_config_def network_base_url_def Let_def)
  have "LoopsBlock ?p = l" by (simp add: pipeline_config_def)
  then have "sublist (unlines [''    loops {'', l, ''    }'']) (pipeline_lines pr ?p)"
    using pipeline_loops [of ?p pr] assms by simp
  then show "sublist (unlines [''    loops {'', l, ''    }''])
      (snd (SplitNodeConfig pr ks ks' (c\<lparr>sLoopsBlock := l\<rparr>)))"
    unfolding SplitNodeConfig_def snd_conv
    using render_pipeline_lines by (rule sublist_trans)
qed

lemma split_loops_only_in_pipeline_witness:
  "fst (SplitNodeConfig no_table [] [] (sample_separated\<lparr>sLoopsBlock := ''      l1 {}''\<rparr>))
      = fst (SplitNodeConfig no_table [] [] sample_separated)
    \<and> sublist (unlines [''    loops {'', ''      l1 {}'', ''    }''])
        (snd (SplitNodeConfig no_table [] [] (sample_separated\<lparr>sLoopsBlock := ''      l1 {}''\<rparr>)))"
  by (rule split_loops_only_in_pipeline) simp

definition in_chain_block :: \<open>string \<Rightarrow> string \<Rightarrow> bool\<close> where
  \<open>in_chain_block x cfg \<longleftrightarrow>
     (\<exists>a u b. cfg = a @ unlines [''  chain {'', ''    transport = "nats"'', ''    nats {''] @ u
        @ unlines [''    }'', x, ''  }'', ''  pipeline {''] @ b)\<close>

lemma render_chain_extra:
  assumes "ChainExtra c \<noteq> []"
  shows "in_chain_block (ChainExtra c) (Render pr ks c)"
proof -
  have nats: "unlines (nats_lines pr c) = unlines [''  }'']
      @ unlines [''  chain {'', ''    transport = '' @ dquote # ''nats'' @ [dquote], ''    nats {'']
      @ unlines (drop 4 (nats_lines pr c))"
    by (simp add: nats_lines_def)
  have tail: "unlines [''    }''] @ unlines [ChainExtra c] @ unlines [''  }'', ''  pipeline {''] @ t
      = unlines [''    }'', ChainExtra c, ''  }'', ''  pipeline {''] @ t" for t
    by simp
  show ?thesis
    unfolding in_chain_block_def Render_def nats
    using assms
    by (intro exI [of _ "unlines (core_lines pr c) @ plainInternalLine pr c @
            unlines (registry_lines pr c) @ serviceEndpointsBlock pr c @ unlines [''  }'']"]
          exI [of _ "unlines (drop 4 (nats_lines pr c)) @ registry_urls_block pr ks c"]
          exI [of _ "pipeline_lines pr c @ unlines [''  }'', ''}'']"])
       simp
qed

text \<open>C11: A chain-level block reaches both configurations, each time inside the chain block:
  after the line that closes the nats block and before the one that opens the pipeline's.\<close>

theorem split_chain_extra_in_both:
  assumes "sChainExtra c \<noteq> []"
  shows "in_chain_block (sChainExtra c) (fst (SplitNodeConfig pr ks ks' c))
    \<and> in_chain_block (sChainExtra c) (snd (SplitNodeConfig pr ks ks' c))"
proof -
  have "ChainExtra (network_config c) = sChainExtra c" "ChainExtra (pipeline_config c) = sChainExtra c"
    by (simp_all add: network_config_def pipeline_config_def base_config_def)
  then show ?thesis
    using render_chain_extra [of "network_config c" pr ks] render_chain_extra [of "pipeline_config c" pr ks']
      assms by (simp add: SplitNodeConfig_def)
qed

lemma split_chain_extra_in_both_witness:
  "in_chain_block (sChainExtra sample_separated) (fst (SplitNodeConfig no_table [] [] sample_separated))
    \<and> in_chain_block (sChainExtra sample_separated) (snd (SplitNodeConfig no_table [] [] sample_separated))"
  by (rule split_chain_extra_in_both) (simp add: sample_separated_def)

lemma map_fst_Some:
  "(\<And>k v. (k, v) \<in> set xs \<Longrightarrow> f k = Some v) \<Longrightarrow> map f (map fst xs) = map (\<lambda>(k, v). Some v) xs"
  by (induction xs) auto

text \<open>The two configurations agree on every quoted setting but the listen address, which
  is each process's own.\<close>

theorem split_settings:
  "conf_value ''listen-addr'' (fst (SplitNodeConfig pr ks ks' c)) = Some (sNetworkListenAddr c)
   \<and> conf_value ''listen-addr'' (snd (SplitNodeConfig pr ks ks' c)) = Some (sPipelineListenAddr c)
   \<and> map (\<lambda>k. conf_value k (fst (SplitNodeConfig pr ks ks' c))) (map fst (tl (settings (base_config c))))
     = map (\<lambda>(k, v). Some v) (tl (settings (base_config c)))
   \<and> map (\<lambda>k. conf_value k (snd (SplitNodeConfig pr ks ks' c))) (map fst (tl (settings (base_config c))))
     = map (\<lambda>(k, v). Some v) (tl (settings (base_config c)))"
proof -
  have tl: "tl (settings (network_config c)) = tl (settings (base_config c))"
    "tl (settings (pipeline_config c)) = tl (settings (base_config c))"
    by (simp_all add: settings_def network_config_def pipeline_config_def)
  have hd: "(''listen-addr'', ListenAddr d) \<in> set (settings d)" for d by (simp add: settings_def)
  have rest: "map (\<lambda>k. conf_value k (Render pr ks d)) (map fst (tl (settings d)))
      = map (\<lambda>(k, v). Some v) (tl (settings d))" for d ks
  proof (rule map_fst_Some)
    fix k v
    assume "(k, v) \<in> set (tl (settings d))"
    moreover have "settings d \<noteq> []" by (simp add: settings_def)
    ultimately have "(k, v) \<in> set (settings d)" by (metis list.set_sel(2))
    then show "conf_value k (Render pr ks d) = Some v" by (rule render_settings)
  qed
  show ?thesis
    using render_settings [OF hd [of "network_config c"], of pr ks]
      render_settings [OF hd [of "pipeline_config c"], of pr ks']
      rest [of ks "network_config c"] rest [of ks' "pipeline_config c"]
    unfolding SplitNodeConfig_def fst_conv snd_conv tl
    by (simp add: network_config_def pipeline_config_def)
qed

text \<open>Both processes are pointed at the network's base URL, never at the pipeline's own:
  the first non-empty one of the resolver URL, the registry's own entry and the loopback
  fallback, advertised by both and used by both as vc-store-endpoint.\<close>

theorem split_vc_store_endpoint:
  "let u = hd (filter (\<lambda>x. x \<noteq> [])
         [sResolverBaseURL c,
          case sRegistryBaseURLs c (sRegistryID c) of Some u \<Rightarrow> u | None \<Rightarrow> [],
          ''http://127.0.0.1'' @ sNetworkListenAddr c])
   in u \<noteq> []
    \<and> sublist (unlines [''    vc-store-endpoint = '' @ quote pr u]) (fst (SplitNodeConfig pr ks ks' c))
    \<and> sublist (unlines [''    vc-store-endpoint = '' @ quote pr u]) (snd (SplitNodeConfig pr ks ks' c))"
proof -
  let ?u = "network_base_url c"
  have ne: "?u \<noteq> []" by (simp add: network_base_url_def Let_def)
  have ep: "VCStoreEndpoint (network_config c) = ?u" "VCStoreEndpoint (pipeline_config c) = ?u"
    by (simp_all add: network_config_def pipeline_config_def)
  have "sublist (unlines [''    vc-store-endpoint = '' @ quote pr ?u]) (Render pr ks d)"
    if "VCStoreEndpoint d = ?u" for d ks
    using pipeline_endpoint [of d pr, unfolded that, OF ne] render_pipeline_lines
    by (rule sublist_trans)
  then have "sublist (unlines [''    vc-store-endpoint = '' @ quote pr ?u]) (fst (SplitNodeConfig pr ks ks' c))"
    "sublist (unlines [''    vc-store-endpoint = '' @ quote pr ?u]) (snd (SplitNodeConfig pr ks ks' c))"
    unfolding SplitNodeConfig_def fst_conv snd_conv using ep by blast+
  moreover have "hd (filter (\<lambda>x. x \<noteq> [])
         [sResolverBaseURL c,
          case sRegistryBaseURLs c (sRegistryID c) of Some u \<Rightarrow> u | None \<Rightarrow> [],
          ''http://127.0.0.1'' @ sNetworkListenAddr c]) = ?u"
    by (simp add: network_base_url_def Let_def)
  ultimately show ?thesis using ne by (simp only: Let_def simp_thms)
qed

text \<open>A PDP reached over plain http at a host name that is neither localhost nor a
  loopback address gets exactly one plain-internal entry, its host and port, port 80 when the
  URL names none.\<close>

theorem plain_internal_named_host:
  assumes "PDPBaseURL c = ''http://'' @ authority host port" and "reg_name host"
    and "list_all is_digit port" and "\<not> equal_fold host ''localhost''" and "parse_addr host = None"
  shows "plainInternalLine pr c = unlines [''  auth.plain-internal = ['' @
       quote pr (host @ '':'' @ (if port = [] then ''80'' else port)) @ '']'']"
  using assms by (simp add: plain_line_name)

lemma plain_internal_named_host_witness:
  "plainInternalLine no_table (network_config sample_separated) =
     unlines [''  auth.plain-internal = ['' @ quote no_table (''pdpstub'' @ '':'' @
       (if ''9091'' = [] then ''80'' else ''9091'')) @ '']'']"
proof (rule plain_internal_named_host)
  show "PDPBaseURL (network_config sample_separated) = ''http://'' @ authority ''pdpstub'' ''9091''"
    by (simp add: network_config_def base_config_def sample_separated_def)
qed code_simp+

text \<open>A PDP on any IPv4 loopback address, with or without a port, gets no entry.\<close>

theorem plain_internal_loopback:
  assumes "PDPBaseURL c =
      ''http://'' @ authority (''127.'' @ nat_str a @ ''.'' @ nat_str b @ ''.'' @ nat_str d) port"
    and "a \<le> 255" and "b \<le> 255" and "d \<le> 255" and "list_all is_digit port"
  shows "plainInternalLine pr c = []"
  using plain_line_name [OF assms(1) ipv4_loopback(1) [OF assms(2-4)] assms(5)]
  by (simp only: ipv4_loopback(2) [OF assms(2-4)] option.case is_loopback_def addr.case
      nth_Cons_0 simp_thms if_True)

lemma plain_internal_loopback_witness:
  "plainInternalLine no_table ((network_config sample_separated)\<lparr>PDPBaseURL :=
     ''http://'' @ authority (''127.'' @ nat_str 0 @ ''.'' @ nat_str 0 @ ''.'' @ nat_str 1) ''41234''\<rparr>) = []"
  by (rule plain_internal_loopback [where a = 0 and b = 0 and d = 1 and port = "''41234''"])
     (simp_all add: is_digit_def)

lemma parse_url_https: "parse_url (''https://'' @ x) = Some u \<Longrightarrow> Scheme u = ''https''"
proof -
  assume p: "parse_url (''https://'' @ x) = Some u"
  obtain b a f where c: "cut x ''#'' = (b, a, f)" by (cases "cut x ''#''") auto
  have hash: "cut (''https://'' @ x) ''#'' = (''https://'' @ b, a, f)" by (simp add: c)
  have sch: "get_scheme (''https://'' @ b) = Some (''https'', ''//'' @ b)"
    by (simp add: get_scheme_def scheme_char_def is_alpha_def is_digit_def has_prefix_def)
  have low: "map lower ''https'' = ''https''" by code_simp
  show ?thesis
    using p unfolding parse_url_def hash Let_def split sch low option.case
    by (auto split: if_splits option.splits prod.splits)
qed

text \<open>An https PDP never opens the cleartext exception, whatever follows the scheme.\<close>

theorem plain_internal_not_https:
  "plainInternalLine pr (c\<lparr>PDPBaseURL := ''https://'' @ x\<rparr>) = []"
  using parse_url_https [of x] by (auto simp: plainInternalLine_def split: option.split)
end
