(* ===== verification/Conf_Syntax.thy ===== *)
theory Conf_Syntax
  imports Config
begin

text \<open>
  The shape of a configuration's text: a scanner that knows strings, comments and the two
  kinds of brackets, and the proof that no setting can change the shape of what
  \<open>Render\<close> writes.
\<close>

section \<open>The scanner\<close>

text \<open>
  The state is the mode and the stack of open brackets.  A string ends on its line; a hash
  or two slashes start a comment.  Multi-line strings are not in the language: what
  \<^verbatim>\<open>%q\<close> writes is never one.
\<close>

datatype mode = Code | Slash | Comment | In_string | Escaped

type_synonym scanner = "mode \<times> string"

definition close_bracket :: "char \<Rightarrow> string \<Rightarrow> scanner option" where
  "close_bracket op st = (if st \<noteq> [] \<and> hd st = op then Some (Code, tl st) else None)"

fun code_char :: "string \<Rightarrow> char \<Rightarrow> scanner option" where
  "code_char st ch =
     (if ch = dquote then Some (In_string, st)
      else if ch = CHR ''#'' then Some (Comment, st)
      else if ch = CHR ''{'' \<or> ch = CHR ''['' then Some (Code, ch # st)
      else if ch = CHR ''}'' then close_bracket (CHR ''{'') st
      else if ch = CHR '']'' then close_bracket (CHR ''['') st
      else Some (Code, st))"

fun scan_char :: "scanner \<Rightarrow> char \<Rightarrow> scanner option" where
  "scan_char (Code, st) ch = (if ch = slash then Some (Slash, st) else code_char st ch)"
| "scan_char (Slash, st) ch = (if ch = slash then Some (Comment, st) else code_char st ch)"
| "scan_char (Comment, st) ch = Some (if ch = nl then Code else Comment, st)"
| "scan_char (In_string, st) ch =
     (if ch = dquote then Some (Code, st) else if ch = bslash then Some (Escaped, st)
      else if ch = nl then None else Some (In_string, st))"
| "scan_char (Escaped, st) ch = (if ch = nl then None else Some (In_string, st))"

primrec scan :: "string \<Rightarrow> scanner \<Rightarrow> scanner option" where
  "scan [] x = Some x"
| "scan (ch # s) x = Option.bind (scan_char x ch) (scan s)"

definition well_formed :: "string \<Rightarrow> bool" where
  "well_formed s \<longleftrightarrow> scan s (Code, []) = Some (Code, [])"

lemma scan_append: "scan (s @ t) x = Option.bind (scan s x) (scan t)"
  by (induction s arbitrary: x) (auto split: bind_split)

text \<open>Text that takes the scanner from one stack of brackets to another, whatever lies below.\<close>

definition takes :: "string \<Rightarrow> string \<Rightarrow> string \<Rightarrow> bool" where
  "takes a s b \<longleftrightarrow> (\<forall>st. scan s (Code, a @ st) = Some (Code, b @ st))"

lemma takes_append [intro]: "takes a s b \<Longrightarrow> takes b t c \<Longrightarrow> takes a (s @ t) c"
  by (simp add: takes_def scan_append)

lemma takes_Nil: "takes a [] a"
  by (simp add: takes_def)

lemma code_char_frame: "code_char st ch = Some (m, st') \<Longrightarrow> code_char (st @ r) ch = Some (m, st' @ r)"
  by (cases st) (auto simp: close_bracket_def split: if_splits)

lemma scan_frame:
  "scan s (m, st) = Some (m', st') \<Longrightarrow> scan s (m, st @ r) = Some (m', st' @ r)"
proof (induction s arbitrary: m st)
  case (Cons ch s)
  obtain m1 st1 where 1: "scan_char (m, st) ch = Some (m1, st1)" "scan s (m1, st1) = Some (m', st')"
    using Cons.prems by (auto split: bind_splits)
  have "scan_char (m, st @ r) ch = Some (m1, st1 @ r)"
    using 1(1) code_char_frame [of st ch m1 st1 r]
    by (cases m) (auto simp del: code_char.simps split: if_splits)
  then show ?case using Cons.IH [OF 1(2)] by simp
qed simp

lemma takes_iff: "takes [] s [] \<longleftrightarrow> well_formed s"
  using scan_frame [of s Code "[]" Code "[]"] by (auto simp: takes_def well_formed_def)

section \<open>Quoted text is one string\<close>

lemma scan_plain: "\<forall>ch \<in> set w. plain_byte ch \<Longrightarrow> scan w (In_string, st) = Some (In_string, st)"
  by (induction w) (simp_all add: plain_byte_neq)

lemma scan_escape_rune:
  assumes "valid_rune r"
  shows "scan (escape_rune pr r) (In_string, st) = Some (In_string, st)"
proof (cases "r \<noteq> 0x22 \<and> r \<noteq> 0x5C \<and> is_print pr r")
  case True
  then have "escape_rune pr r = encode_rune r" by (simp add: escape_rune_def)
  then show ?thesis using True is_print_plain [of pr r] by (auto intro: scan_plain)
next
  case False
  have "r < 4294967296" using assms by (auto simp: valid_rune_def)
  then show ?thesis
    using False scan_plain [of "hex2 r"] scan_plain [of "hex4 r"] scan_plain [of "hex8 r"]
      hex2_plain [of r] hex4_plain [of r] hex8_plain [of r]
    by (auto simp: escape_rune_def)
qed

lemma scan_quote_body: "scan (quote_body pr s) (In_string, st) = Some (In_string, st)"
proof (induction pr s rule: quote_body.induct)
  case (2 pr c s)
  have "scan (hex2 (byte c)) (In_string, st) = Some (In_string, st)"
    using hex2_plain [of "byte c"] by (intro scan_plain) auto
  moreover have "decode_rune (c # s) \<noteq> (rune_error, 1) \<Longrightarrow>
      scan (escape_rune pr (fst (decode_rune (c # s)))) (In_string, st) = Some (In_string, st)"
    using decode_rune_valid(1) [of "c # s"] by (intro scan_escape_rune) auto
  ultimately show ?case using 2 by (auto simp: scan_append)
qed simp

lemma scan_quote [simp]: "scan (quote pr s) (Code, st) = Some (Code, st)"
  by (simp add: quote_def scan_append scan_quote_body)

section \<open>The blocks of a configuration\<close>

lemmas scan_simps = scan_append unlines_def close_bracket_def

lemma scan_block: "well_formed (b @ [nl]) \<Longrightarrow> scan (b @ [nl]) (Code, st) = Some (Code, st)"
  using scan_frame [of "b @ [nl]" Code "[]" Code "[]" st] by (simp add: well_formed_def)

lemma scan_block_if:
  "well_formed (b @ [nl]) \<Longrightarrow> scan (if b = [] then [] else unlines [b]) (Code, st) = Some (Code, st)"
  using scan_block [of b st] by (simp add: unlines_def)

lemma scan_core: "scan (unlines (core_lines pr c)) (Code, st) = Some (Code, CHR ''{'' # st)"
  by (simp add: core_lines_def show_bool_def scan_simps)

lemma scan_plainInternal: "scan (plainInternalLine pr c) (Code, st) = Some (Code, st)"
  by (auto simp: plainInternalLine_def Let_def scan_simps split: option.split)

lemma scan_registry: "scan (unlines (registry_lines pr c)) (Code, st) = Some (Code, CHR ''{'' # st)"
  by (simp add: registry_lines_def scan_simps)

lemma scan_endpoints: "scan (serviceEndpointsBlock pr c) (Code, st) = Some (Code, st)"
  by (simp add: serviceEndpointsBlock_def scan_simps)

lemma scan_nats:
  "scan (unlines (nats_lines pr c)) (Code, CHR ''{'' # st) = Some (Code, CHR ''{'' # CHR ''{'' # st)"
  by (simp add: nats_lines_def scan_simps)

lemma scan_urls: "scan (registry_urls_block pr ks c) (Code, st) = Some (Code, st)"
proof -
  have "scan (concat (map ((\<lambda>l. l @ [nl]) \<circ> (\<lambda>reg. ''        '' @ quote pr reg @ '' = '' @ quote pr (f reg))) rs))
      (Code, st) = Some (Code, st)" for f rs st
    by (induction rs) (simp_all add: scan_append)
  then show ?thesis by (simp add: registry_urls_block_def scan_simps)
qed

lemma scan_pipeline:
  assumes "well_formed (LoopsBlock c @ [nl])" and "well_formed (Extra c @ [nl])"
  shows "scan (pipeline_lines pr c) (Code, st) = Some (Code, st)"
proof -
  have lines: "unlines [''    loops {'', LoopsBlock c, ''    }'']
      = ''    loops {\<newline>'' @ (LoopsBlock c @ [nl]) @ ''    }\<newline>''"
    by simp
  have "scan ''    loops {\<newline>'' (Code, st) = Some (Code, CHR ''{'' # st)"
    "scan ''    }\<newline>'' (Code, CHR ''{'' # st) = Some (Code, st)" for st
    by (simp_all add: close_bracket_def)
  then have "scan (unlines [''    loops {'', LoopsBlock c, ''    }'']) (Code, st) = Some (Code, st)" for st
    unfolding lines by (simp only: scan_append [of _ "_ @ _"] scan_append [of "_ @ [nl]"]
        scan_block [OF assms(1)] Option.bind.simps)
  then have loops: "scan (if LoopsBlock c = [] then [] else unlines [''    loops {'', LoopsBlock c, ''    }'']) (Code, st)
      = Some (Code, st)" for st
    by (simp del: unlines_simps)
  have head: "scan (if VCStoreEndpoint c = [] then []
      else unlines [''    vc-store-endpoint = '' @ quote pr (VCStoreEndpoint c)]) (Code, st) = Some (Code, st)"
    "scan (unlines [''    vc-store-bearer   = '' @ quote pr BearerToken]) (Code, st) = Some (Code, st)" for st
    by (simp_all add: scan_simps)
  show ?thesis
    unfolding pipeline_lines_def
    by (simp only: scan_append head loops scan_block_if [OF assms(2)] Option.bind.simps)
qed

lemma scan_frame_lines:
  "scan (unlines [''    }'']) (Code, CHR ''{'' # st) = Some (Code, st)"
  "scan (unlines [''  }'', ''  pipeline {'']) (Code, CHR ''{'' # st) = Some (Code, CHR ''{'' # st)"
  "scan (unlines [''  }'', ''}'']) (Code, CHR ''{'' # CHR ''{'' # st) = Some (Code, st)"
  by (simp_all add: scan_simps)

text \<open>C37: Whatever text the settings hold, a rendered configuration is well-formed: every string,
  comment and bracket is closed where the template closes it, so long as the blocks a
  scenario adds are well-formed themselves.\<close>

theorem render_well_formed:
  assumes "well_formed (LoopsBlock c @ [nl])" and "well_formed (Extra c @ [nl])"
    and "well_formed (ChainExtra c @ [nl])"
  shows "well_formed (Render pr ks c)"
  unfolding well_formed_def Render_def
  by (simp only: scan_append scan_core scan_plainInternal scan_registry scan_endpoints scan_nats scan_urls
      scan_pipeline [OF assms(1,2)] scan_block_if [OF assms(3)] scan_frame_lines Option.bind.simps)

definition FastTunables :: string where
  "FastTunables = ''    batch-resolver { interval = 1s, batch-size = 64, max-retries = 5, max-depth = 1024 }\<newline>    audit-runner { interval = 1s, batch-size = 64, max-attempts = 10 }''"

lemma render_well_formed_witness:
  "well_formed (Render no_table [] ((network_config sample_separated)
     \<lparr>RegistryID := [dquote, CHR ''}'', nl], Extra := FastTunables\<rparr>))"
proof (rule render_well_formed)
  let ?c = "(network_config sample_separated)\<lparr>RegistryID := [dquote, CHR ''}'', nl], Extra := FastTunables\<rparr>"
  show "well_formed (LoopsBlock ?c @ [nl])" "well_formed (Extra ?c @ [nl])" "well_formed (ChainExtra ?c @ [nl])"
    by (simp_all add: network_config_def base_config_def sample_separated_def FastTunables_def
        well_formed_def close_bracket_def)
qed
end
