(* ===== verification/Conf_Read.thy ===== *)
theory Conf_Read
  imports Conf_Syntax
begin

text \<open>
  Reading a configuration: a reader of the part of HOCON that the harness writes, in two
  stages.  The first turns characters into tokens; a quoted string is decoded by the rules of
  JSON, as HOCON has it, not by Go's.  The second turns tokens into a tree of objects, arrays
  and values, with dotted keys as paths.  The reader is no part of the harness; it is what the
  text is for.  It refuses whatever it does not know (substitutions, includes, concatenated
  values, keys with empty segments), so that what it does read has one meaning.
\<close>

section \<open>Tokens\<close>

datatype token =
    Newline | Comma | Equals | LBrace | RBrace | LBrack | RBrack
  | Quoted string
  | Bare string

text \<open>The lexer is outside a string with some unquoted text read (possibly followed by one
  slash), in a comment, or inside a string with some raw text read (possibly followed by one
  backslash).\<close>

datatype lex_mode = Plain string | Slashed string | Remark | Quoting string | Escaping string

definition word :: "string \<Rightarrow> token list" where
  "word w = (if w = [] then [] else [Bare w])"

definition punctuation :: "(char \<times> token) list" where
  "punctuation =
     [(CHR ''{'', LBrace), (CHR ''}'', RBrace), (CHR ''['', LBrack), (CHR '']'', RBrack),
      (CHR '','', Comma), (CHR ''='', Equals), (CHR '':'', Equals), (nl, Newline)]"

definition forbidden :: "char \<Rightarrow> bool" where
  "forbidden ch \<longleftrightarrow> ch \<in> {bslash, CHR ''$'', CHR ''+'', CHR 0x60, CHR ''^'', CHR ''?'', CHR ''!'',
     CHR ''@'', CHR ''*'', CHR 0x26}"

definition blank :: "char \<Rightarrow> bool" where
  "blank ch \<longleftrightarrow> ch \<in> {CHR '' '', CHR 0x09, CHR 0x0D}"

definition lex_plain :: "string \<Rightarrow> char \<Rightarrow> (token list \<times> lex_mode) option" where
  "lex_plain w ch =
     (if ch = dquote then Some (word w, Quoting [])
      else if ch = CHR ''#'' then Some (word w, Remark)
      else if blank ch then Some (word w, Plain [])
      else if forbidden ch then None
      else (case map_of punctuation ch of
              Some t \<Rightarrow> Some (word w @ [t], Plain [])
            | None \<Rightarrow> Some ([], Plain (w @ [ch]))))"

fun lex_char :: "lex_mode \<Rightarrow> char \<Rightarrow> (token list \<times> lex_mode) option" where
  "lex_char (Plain w) ch = (if ch = slash then Some ([], Slashed w) else lex_plain w ch)"
| "lex_char (Slashed w) ch =
     (if ch = slash then Some (word w, Remark) else lex_plain (w @ [slash]) ch)"
| "lex_char Remark ch = Some (if ch = nl then ([Newline], Plain []) else ([], Remark))"
| "lex_char (Quoting w) ch =
     (if ch = dquote then
        (case json_string (w @ [dquote]) of
           Some (v, []) \<Rightarrow> Some ([Quoted v], Plain [])
         | _ \<Rightarrow> None)
      else if ch = bslash then Some ([], Escaping (w @ [ch]))
      else if ch = nl then None
      else Some ([], Quoting (w @ [ch])))"
| "lex_char (Escaping w) ch = (if ch = nl then None else Some ([], Quoting (w @ [ch])))"

primrec lex :: "string \<Rightarrow> lex_mode \<Rightarrow> (token list \<times> lex_mode) option" where
  "lex [] m = Some ([], m)"
| "lex (ch # s) m =
     (case lex_char m ch of
        None \<Rightarrow> None
      | Some (ts, m') \<Rightarrow> map_option (apfst (append ts)) (lex s m'))"

lemma lex_append:
  "lex (s @ t) m =
     (case lex s m of None \<Rightarrow> None | Some (ts, m') \<Rightarrow> map_option (apfst (append ts)) (lex t m'))"
proof (induction s arbitrary: m)
  case Nil
  show ?case by (cases "lex t m") (auto simp: apfst_def map_prod_def split: prod.splits)
next
  case (Cons ch s)
  have comp: "map_option (apfst (append ts)) (map_option (apfst (append us)) r)
      = map_option (apfst (append (ts @ us))) r" for ts us and r :: "(token list \<times> lex_mode) option"
    by (cases r) (auto simp: apfst_def)
  show ?case by (simp add: Cons.IH comp split: option.split prod.split)
qed

text \<open>A piece of text that is a list of tokens by itself.\<close>

definition lexes :: "string \<Rightarrow> token list \<Rightarrow> bool" where
  "lexes s ts \<longleftrightarrow> lex s (Plain []) = Some (ts, Plain [])"

lemma lexes_append: "lexes s ts \<Longrightarrow> lexes t us \<Longrightarrow> lexes (s @ t) (ts @ us)"
  by (simp add: lexes_def lex_append)

lemma lexes_Nil: "lexes [] []"
  by (simp add: lexes_def)

section \<open>Quoted settings as JSON strings\<close>

text \<open>
  Go's \<^verbatim>\<open>%q\<close> and JSON share the escapes of the quote, the backslash and five control
  characters, and \<^verbatim>\<open>\u\<close> with four digits.  JSON has none of Go's other escapes: those of
  the alert and the vertical tab, the hexadecimal one of the remaining control characters
  and of malformed UTF-8, and the eight-digit one.  A text is safe if quoting it needs none
  of these.
\<close>

definition json_rune :: "(nat \<Rightarrow> bool) \<Rightarrow> nat \<Rightarrow> bool" where
  "json_rune pr r \<longleftrightarrow> is_print pr r \<or> r \<in> {0x08, 0x09, 0x0A, 0x0C, 0x0D} \<or> 0x80 \<le> r \<and> r < 0x10000"

definition hocon_safe :: "(nat \<Rightarrow> bool) \<Rightarrow> string \<Rightarrow> bool" where
  "hocon_safe pr s \<longleftrightarrow> (\<exists>rs. (\<forall>r \<in> set rs. valid_rune r \<and> json_rune pr r) \<and> s = utf8 rs)"

lemma hocon_safe_ascii:
  assumes "\<forall>ch \<in> set s. 0x20 \<le> byte ch \<and> byte ch < (0x7F :: nat)"
  shows "hocon_safe pr s"
proof -
  have "s = utf8 (map byte s)" using assms
    by (induction s) (simp_all add: encode_rune_ascii)
  moreover have "\<forall>r \<in> set (map byte s). valid_rune r \<and> json_rune pr r"
    using assms by (auto simp: valid_rune_def json_rune_def is_print_def)
  ultimately show ?thesis unfolding hocon_safe_def by blast
qed

lemma quote_body_utf8:
  "\<forall>r \<in> set rs. valid_rune r \<Longrightarrow> quote_body pr (utf8 rs) = concat (map (escape_rune pr) rs)"
proof (induction rs)
  case (Cons r rs)
  obtain c t where e: "encode_rune r @ utf8 rs = c # t"
    by (cases "encode_rune r @ utf8 rs") auto
  have r: "valid_rune r" using Cons.prems by simp
  have dec: "decode_rune (c # t) = (r, length (encode_rune r))"
    using decode_encode [OF r] e by metis
  have ok: "decode_rune (c # t) \<noteq> (rune_error, 1)"
    using decode_rune_encoded_error [OF r] e by metis
  have "quote_body pr (c # t) =
      escape_rune pr r @ quote_body pr (drop (length (encode_rune r)) (c # t))"
    using ok by (subst quote_body.simps, simp only: dec if_False fst_conv snd_conv)
  then have "quote_body pr (encode_rune r @ utf8 rs) = escape_rune pr r @ quote_body pr (utf8 rs)"
    unfolding e [symmetric] by simp
  with Cons show ?case by simp
qed simp

lemma json_string_u4:
  assumes "n < 0x10000" and "valid_rune n"
  shows "json_string (bslash # CHR ''u'' # hex4 n @ t) = prepend (encode_rune n) (json_string t)"
proof -
  have "hex_number 0 (hex4 n @ []) = Some n" using assms(1) by (subst hex_number_hex4) simp_all
  then have "u4 (hex4 n @ t) = Some n" by (simp add: u4_def)
  moreover have "u_escape n s = (n, 0)" for s using assms(2) by (auto simp: u_escape_def valid_rune_def)
  ultimately show ?thesis by (subst json_string.simps) (auto simp: json_escapes_def)
qed

lemma json_string_print:
  assumes "valid_rune r" and "is_print pr r" and "r \<noteq> 0x22" and "r \<noteq> 0x5C"
  shows "json_string (encode_rune r @ t) = prepend (encode_rune r) (json_string t)"
proof (cases "r < 0x80")
  case True
  then have e: "encode_rune r = [char_of r]" by (rule encode_rune_ascii)
  have b: "byte (char_of r) = r" using True by simp
  have "plain_byte (char_of r)" using assms is_print_plain [of pr r "char_of r"] e by simp
  then have "char_of r \<noteq> dquote" "char_of r \<noteq> bslash" "\<not> r < 0x20"
    using plain_byte_neq b by (auto simp: plain_byte_def)
  then show ?thesis using True b by (simp add: e json_string.simps decode_rune_ascii)
next
  case False
  obtain d u where u: "encode_rune r = d # u" by (cases "encode_rune r") auto
  have "0x80 \<le> (byte d :: nat)" using encode_rune_high [of r d] False u by simp
  then show ?thesis using json_string_encode [OF assms(1), of d t] u by simp
qed

lemma json_string_escape_rune:
  assumes r: "valid_rune r" "json_rune pr r"
  shows "json_string (escape_rune pr r @ t) = prepend (encode_rune r) (json_string t)"
proof -
  consider "r \<in> {0x22, 0x5C}"
    | "r \<notin> {0x22, 0x5C}" "is_print pr r"
    | "\<not> is_print pr r" "r \<in> {0x08, 0x09, 0x0A, 0x0C, 0x0D}"
    | "\<not> is_print pr r" "0x80 \<le> r" "r < 0x10000"
    using r(2) by (auto simp: json_rune_def)
  then show ?thesis
  proof cases
    case 1
    then show ?thesis
      by (auto simp: escape_rune_def encode_rune_ascii json_string_esc json_escapes_def char_of_specials)
  next
    case 2
    then show ?thesis using json_string_print [OF r(1), of pr t] by (simp add: escape_rune_def)
  next
    case 3
    then show ?thesis
      by (auto simp: escape_rune_def encode_rune_ascii json_string_esc json_escapes_def char_of_specials)
  next
    case 4
    then have "escape_rune pr r = bslash # CHR ''u'' # hex4 r" by (simp add: escape_rune_def)
    then show ?thesis using json_string_u4 [OF 4(3) r(1)] by simp
  qed
qed

lemma json_string_quote:
  assumes "hocon_safe pr s"
  shows "json_string (quote_body pr s @ [dquote]) = Some (s, [])"
proof -
  obtain rs where rs: "\<forall>r \<in> set rs. valid_rune r \<and> json_rune pr r" "s = utf8 rs"
    using assms by (auto simp: hocon_safe_def)
  have "json_string (concat (map (escape_rune pr) rs) @ [dquote]) = Some (utf8 rs, [])"
    using rs(1) by (induction rs) (simp_all add: json_string_escape_rune json_string.simps(2) [of dquote])
  then show ?thesis using rs quote_body_utf8 [of rs pr] by simp
qed

lemma lex_plain_bytes: "\<forall>ch \<in> set w. plain_byte ch \<Longrightarrow> lex w (Quoting a) = Some ([], Quoting (a @ w))"
  by (induction w arbitrary: a) (simp_all add: plain_byte_neq)

lemma lex_escape_rune:
  assumes "valid_rune r"
  shows "lex (escape_rune pr r) (Quoting a) = Some ([], Quoting (a @ escape_rune pr r))"
proof (cases "r \<noteq> 0x22 \<and> r \<noteq> 0x5C \<and> is_print pr r")
  case True
  then have "escape_rune pr r = encode_rune r" by (simp add: escape_rune_def)
  then show ?thesis using True is_print_plain [of pr r] by (auto intro: lex_plain_bytes)
next
  case False
  have "r < 4294967296" using assms by (auto simp: valid_rune_def)
  then show ?thesis
    using False lex_plain_bytes [of "hex2 r"] lex_plain_bytes [of "hex4 r"] lex_plain_bytes [of "hex8 r"]
      hex2_plain [of r] hex4_plain [of r] hex8_plain [of r]
    by (auto simp: escape_rune_def)
qed

lemma lexes_quote:
  assumes "hocon_safe pr s"
  shows "lexes (quote pr s) [Quoted s]"
proof -
  obtain rs where rs: "\<forall>r \<in> set rs. valid_rune r" "s = utf8 rs"
    using assms by (auto simp: hocon_safe_def)
  have "lex (concat (map (escape_rune pr) rs)) (Quoting a)
      = Some ([], Quoting (a @ concat (map (escape_rune pr) rs)))" for a
    using rs(1) by (induction rs arbitrary: a) (simp_all add: lex_append lex_escape_rune)
  then have "lex (quote_body pr s) (Quoting []) = Some ([], Quoting (quote_body pr s))"
    using quote_body_utf8 [OF rs(1)] rs(2) by simp
  then show ?thesis
    using json_string_quote [OF assms]
    by (simp add: lexes_def quote_def lex_append lex_plain_def word_def)
qed

text \<open>The other escapes are no JSON: a setting that holds an alert is written, but not read.\<close>

lemma go_only_escape: "lex (quote pr [CHR 0x07]) (Plain []) = None"
proof -
  have "quote_body pr [CHR 0x07] = [bslash, CHR ''a'']"
    by (simp add: decode_rune_ascii escape_rune_def is_print_def)
  moreover have "json_string [bslash, CHR ''a'', dquote] = None"
    by (simp add: json_string.simps json_escapes_def)
  ultimately show ?thesis by (simp add: quote_def lex_plain_def word_def)
qed

section \<open>Trees\<close>

text \<open>A quoted value, an unquoted one, an array, an object with its entries in the order of the
  text.  The brackets still open are a stack of what was read inside each, the innermost
  first; an object also has the path of the entry being read.\<close>

datatype conf =
    Text string
  | Word string
  | Arr "conf list"
  | Obj "(string list \<times> conf) list"

type_synonym entries = "(string list \<times> conf) list"

datatype frame = In_obj entries "string list" | In_arr "conf list"

datatype phase = Wait | Named | Assigned | Done

type_synonym reader = "frame list \<times> phase"

fun add :: "conf \<Rightarrow> frame list \<Rightarrow> reader option" where
  "add v (In_obj es k # st) = Some (In_obj (es @ [(k, v)]) [] # st, Done)"
| "add v (In_arr vs # st) = Some (In_arr (vs @ [v]) # st, Done)"
| "add v [] = None"

definition path_of :: "string \<Rightarrow> string list option" where
  "path_of w = (let ks = split_char (CHR ''.'') w in if [] \<in> set ks then None else Some ks)"

fun named :: "frame list \<Rightarrow> string list \<Rightarrow> reader option" where
  "named (In_obj es _ # st) k = Some (In_obj es k # st, Named)"
| "named _ k = None"

fun close_frame :: "token \<Rightarrow> frame list \<Rightarrow> reader option" where
  "close_frame RBrace (In_obj es _ # st) = add (Obj es) st"
| "close_frame RBrack (In_arr vs # st) = add (Arr vs) st"
| "close_frame _ _ = None"

fun value_token :: "frame list \<Rightarrow> token \<Rightarrow> reader option" where
  "value_token st (Quoted s) = add (Text s) st"
| "value_token st (Bare w) = add (Word w) st"
| "value_token st LBrace = Some (In_obj [] [] # st, Wait)"
| "value_token st LBrack = Some (In_arr [] # st, Wait)"
| "value_token st _ = None"

fun key_token :: "frame list \<Rightarrow> token \<Rightarrow> reader option" where
  "key_token st (Quoted s) = named st [s]"
| "key_token st (Bare w) = Option.bind (path_of w) (named st)"
| "key_token st _ = None"

fun in_array :: "frame list \<Rightarrow> bool" where
  "in_array (In_arr _ # _) = True"
| "in_array _ = False"

fun read_token :: "reader \<Rightarrow> token \<Rightarrow> reader option" where
  "read_token (st, Wait) t =
     (if t = Newline then Some (st, Wait)
      else if t = RBrace \<or> t = RBrack then close_frame t st
      else if in_array st then value_token st t else key_token st t)"
| "read_token (st, Named) t =
     (if t = Equals then Some (st, Assigned) else if t = LBrace then value_token st t else None)"
| "read_token (st, Assigned) t = value_token st t"
| "read_token (st, Done) t =
     (if t = Newline \<or> t = Comma then Some (st, Wait) else close_frame t st)"

primrec read_tokens :: "token list \<Rightarrow> reader \<Rightarrow> reader option" where
  "read_tokens [] x = Some x"
| "read_tokens (t # ts) x = Option.bind (read_token x t) (read_tokens ts)"

definition read_conf :: "string \<Rightarrow> entries option" where
  "read_conf s =
     (case lex (s @ [nl]) (Plain []) of
        Some (ts, Plain []) \<Rightarrow>
          (case read_tokens ts ([In_obj [] []], Wait) of
             Some ([In_obj es []], Wait) \<Rightarrow> Some es
           | _ \<Rightarrow> None)
      | _ \<Rightarrow> None)"

lemma read_tokens_append: "read_tokens (ts @ us) x = Option.bind (read_tokens ts x) (read_tokens us)"
  by (induction ts arbitrary: x) (auto split: bind_split)

text \<open>What can be read by itself can be read inside any object, after any entries.\<close>

fun on_top :: "entries \<Rightarrow> frame list \<Rightarrow> frame list \<Rightarrow> frame list" where
  "on_top es0 st [In_obj es k] = In_obj (es0 @ es) k # st"
| "on_top es0 st (f # fs) = f # on_top es0 st fs"
| "on_top es0 st [] = st"

definition grounded :: "frame list \<Rightarrow> bool" where
  "grounded fs \<longleftrightarrow> fs \<noteq> [] \<and> \<not> in_array [last fs]"

lemma grounded_simps [simp]:
  "\<not> grounded []" "grounded [In_obj es k]" "\<not> grounded [In_arr vs]"
  "fs \<noteq> [] \<Longrightarrow> grounded (f # fs) \<longleftrightarrow> grounded fs"
  by (simp_all add: grounded_def)

lemma grounded_cases:
  assumes "grounded fs"
  obtains es k where "fs = [In_obj es k]" | f gs where "fs = f # gs" "grounded gs" "gs \<noteq> []"
  using assms by (cases fs; cases "tl fs"; cases "hd fs") auto

lemma on_top_Cons: "gs \<noteq> [] \<Longrightarrow> on_top es0 st (f # gs) = f # on_top es0 st gs"
  by (cases gs; cases f) auto

lemma add_on_top:
  assumes "grounded fs" and "add v fs = Some (fs', ph)"
  shows "grounded fs' \<and> add v (on_top es0 st fs) = Some (on_top es0 st fs', ph)"
  using assms(1)
proof (cases rule: grounded_cases)
  case 1
  then show ?thesis using assms(2) by auto
next
  case (2 f gs)
  then show ?thesis using assms(2) by (cases f) (auto simp: on_top_Cons)
qed

lemma named_on_top:
  assumes "grounded fs" and "named fs k = Some (fs', ph)"
  shows "grounded fs' \<and> named (on_top es0 st fs) k = Some (on_top es0 st fs', ph)"
  using assms(1)
proof (cases rule: grounded_cases)
  case 1
  then show ?thesis using assms(2) by auto
next
  case (2 f gs)
  then show ?thesis using assms(2) by (cases f) (auto simp: on_top_Cons)
qed

lemma close_on_top:
  assumes "grounded fs" and "close_frame t fs = Some (fs', ph)"
  shows "grounded fs' \<and> close_frame t (on_top es0 st fs) = Some (on_top es0 st fs', ph)"
  using assms(1)
proof (cases rule: grounded_cases)
  case 1
  then show ?thesis using assms(2) by (cases t) auto
next
  case (2 f gs)
  then show ?thesis using assms(2) add_on_top [of gs _ fs' ph es0 st]
    by (cases t; cases f) (auto simp: on_top_Cons)
qed

lemma in_array_on_top: "grounded fs \<Longrightarrow> in_array (on_top es0 st fs) \<longleftrightarrow> in_array fs"
  by (erule grounded_cases, simp, rename_tac f gs, case_tac f) (auto simp: on_top_Cons)

lemma on_top_push: "grounded fs \<Longrightarrow> f # on_top es0 st fs = on_top es0 st (f # fs) \<and> grounded (f # fs)"
  by (auto simp: on_top_Cons grounded_def)

lemma value_on_top:
  assumes "grounded fs" and "value_token fs t = Some (fs', ph)"
  shows "grounded fs' \<and> value_token (on_top es0 st fs) t = Some (on_top es0 st fs', ph)"
  using assms add_on_top [OF assms(1), of _ fs' ph es0 st] on_top_push [OF assms(1), of _ es0 st]
  by (cases t) auto

lemma key_on_top:
  assumes "grounded fs" and "key_token fs t = Some (fs', ph)"
  shows "grounded fs' \<and> key_token (on_top es0 st fs) t = Some (on_top es0 st fs', ph)"
  using assms named_on_top [OF assms(1), of _ fs' ph es0 st]
  by (cases t) (auto split: bind_splits)

lemma read_token_on_top:
  assumes "grounded fs" and "read_token (fs, p) t = Some (fs', ph)"
  shows "grounded fs' \<and> read_token (on_top es0 st fs, p) t = Some (on_top es0 st fs', ph)"
  using assms value_on_top [OF assms(1), of t fs' ph es0 st] key_on_top [OF assms(1), of t fs' ph es0 st]
    close_on_top [OF assms(1), of t fs' ph es0 st] in_array_on_top [OF assms(1), of es0 st]
  by (cases p) (auto split: if_splits)

lemma read_tokens_on_top:
  "grounded fs \<Longrightarrow> read_tokens ts (fs, p) = Some (fs', p') \<Longrightarrow>
     read_tokens ts (on_top es0 st fs, p) = Some (on_top es0 st fs', p')"
proof (induction ts arbitrary: fs p)
  case (Cons t ts)
  then obtain gs q where 1: "read_token (fs, p) t = Some (gs, q)" "read_tokens ts (gs, q) = Some (fs', p')"
    by (auto split: bind_splits)
  show ?case
    using read_token_on_top [OF Cons.prems(1) 1(1), of es0 st] Cons.IH [OF _ 1(2)] by simp
qed simp

text \<open>Tokens that add entries to the object they are in, whatever it is inside of.\<close>

definition adds :: "token list \<Rightarrow> entries \<Rightarrow> bool" where
  "adds ts es \<longleftrightarrow>
     (\<forall>es0 st. read_tokens ts (In_obj es0 [] # st, Wait) = Some (In_obj (es0 @ es) [] # st, Wait))"

lemma adds_append: "adds ts es \<Longrightarrow> adds us fs \<Longrightarrow> adds (ts @ us) (es @ fs)"
  by (simp add: adds_def read_tokens_append)

lemma adds_Nil: "adds [] []"
  by (simp add: adds_def)

lemma adds_Newline: "adds [Newline] []"
  by (simp add: adds_def)

lemma adds_text: "path_of w = Some k \<Longrightarrow> adds [Bare w, Equals, Quoted s, Newline] [(k, Text s)]"
  by (simp add: adds_def)

lemma adds_quoted_key: "adds [Quoted r, Equals, Quoted s, Newline] [([r], Text s)]"
  by (simp add: adds_def)

lemma adds_word: "path_of w = Some k \<Longrightarrow> adds [Bare w, Equals, Bare s, Newline] [(k, Word s)]"
  by (simp add: adds_def)

lemma adds_array: "path_of w = Some k \<Longrightarrow>
    adds [Bare w, Equals, LBrack, Quoted s, RBrack, Newline] [(k, Arr [Text s])]"
  by (simp add: adds_def)

lemma adds_obj:
  assumes "path_of w = Some k" and "adds ts es"
  shows "adds ([Bare w, LBrace, Newline] @ ts @ [RBrace, Newline]) [(k, Obj es)]"
  using assms by (simp add: adds_def read_tokens_append)

text \<open>Text that adds entries, line by line.\<close>

definition says :: "string \<Rightarrow> entries \<Rightarrow> bool" where
  "says s es \<longleftrightarrow> (\<exists>ts. lexes s ts \<and> adds ts es)"

lemma says_append: "says s es \<Longrightarrow> says t fs \<Longrightarrow> says (s @ t) (es @ fs)"
  unfolding says_def by (meson adds_append lexes_append)

lemma says_Nil: "says [] []"
  unfolding says_def using lexes_Nil adds_Nil by blast

lemma says_read_conf: "read_conf s = Some es \<Longrightarrow> says (s @ [nl]) es"
proof -
  assume r: "read_conf s = Some es"
  obtain ts where ts: "lex (s @ [nl]) (Plain []) = Some (ts, Plain [])"
    "read_tokens ts ([In_obj [] []], Wait) = Some ([In_obj es []], Wait)"
    using r by (auto simp: read_conf_def split: option.splits prod.splits lex_mode.splits list.splits
        frame.splits phase.splits)
  have "adds ts es"
    unfolding adds_def using read_tokens_on_top [OF _ ts(2)] by fastforce
  then show ?thesis using ts(1) unfolding says_def lexes_def by blast
qed

lemma read_conf_says: "says (s @ [nl]) es \<Longrightarrow> read_conf s = Some es"
  by (auto simp: says_def lexes_def adds_def read_conf_def)

section \<open>Lines and blocks\<close>

lemma quote_literal:
  assumes "\<forall>ch \<in> set w. 0x20 \<le> byte ch \<and> byte ch < (0x7F :: nat) \<and> ch \<noteq> dquote \<and> ch \<noteq> bslash"
  shows "quote pr w = dquote # w @ [dquote]"
proof -
  have spec: "byte ch = (0x22 :: nat) \<Longrightarrow> ch = dquote" "byte ch = (0x5C :: nat) \<Longrightarrow> ch = bslash" for ch
    by (metis char_of_char char_of_specials)+
  have "quote_body pr w = w"
    using assms
    by (induction w) (auto simp: decode_rune_ascii escape_rune_def is_print_def encode_rune_ascii dest: spec)
  then show ?thesis by (simp add: quote_def)
qed

lemma lexes_literal:
  assumes "\<forall>ch \<in> set w. 0x20 \<le> byte ch \<and> byte ch < (0x7F :: nat) \<and> ch \<noteq> dquote \<and> ch \<noteq> bslash"
  shows "lexes (dquote # w @ [dquote]) [Quoted w]"
  using lexes_quote [OF hocon_safe_ascii, of w no_table] assms
  unfolding quote_literal [OF assms, of no_table] by blast

lemma lexes_nl: "lexes [nl] [Newline]"
  by code_simp

lemma says_line:
  assumes "lexes pre ts" and "lexes v us" and "adds (ts @ us @ [Newline]) es"
  shows "says (pre @ v @ [nl]) es"
  unfolding says_def using assms lexes_append [OF assms(1) lexes_append [OF assms(2) lexes_nl]] by blast

lemma says_text:
  assumes "lexes pre [Bare w, Equals]" and "path_of w = Some k" and "lexes q [Quoted v]"
  shows "says (pre @ q @ [nl]) [(k, Text v)]"
  using assms(1,3) by (rule says_line) (simp add: adds_text [OF assms(2)])

lemma says_bool:
  assumes "lexes pre [Bare w, Equals]" and "path_of w = Some k"
  shows "says (pre @ show_bool b @ [nl]) [(k, Word (if b then ''true'' else ''false''))]"
proof -
  have "lexes (''true'' @ [nl]) [Bare ''true'', Newline]" "lexes (''false'' @ [nl]) [Bare ''false'', Newline]"
    by code_simp+
  then have "lexes (show_bool b @ [nl]) [Bare (if b then ''true'' else ''false''), Newline]"
    by (simp add: show_bool_def)
  from lexes_append [OF assms(1) this] show ?thesis
    unfolding says_def using adds_word [OF assms(2)] by fastforce
qed

lemma says_obj:
  assumes "lexes op [Bare w, LBrace, Newline]" and "path_of w = Some k" and "says s es"
    and "lexes cl [RBrace, Newline]"
  shows "says (op @ s @ cl) [(k, Obj es)]"
proof -
  obtain ts where "lexes s ts" "adds ts es" using assms(3) by (auto simp: says_def)
  then show ?thesis
    unfolding says_def using adds_obj [OF assms(2)] lexes_append [OF assms(1) lexes_append [OF _ assms(4)]]
    by blast
qed

lemma says_optional: "(b \<Longrightarrow> says s es) \<Longrightarrow> says (if b then s else []) (if b then es else [])"
  by (simp add: says_Nil)

section \<open>What a configuration says\<close>

text \<open>The host and port of a cleartext PDP that is neither localhost nor a loopback address.\<close>

definition plain_internal :: "string \<Rightarrow> string option" where
  "plain_internal url =
     (case parse_url url of
        None \<Rightarrow> None
      | Some u \<Rightarrow>
          (let h = url_hostname u in
           if Scheme u = ''http'' \<and> h \<noteq> [] \<and> \<not> equal_fold h ''localhost''
              \<and> (case parse_addr h of Some a \<Rightarrow> \<not> is_loopback a | None \<Rightarrow> True)
           then Some (join_host_port h (if url_port u = [] then ''80'' else url_port u)) else None))"

definition when_set :: "string \<Rightarrow> entries \<Rightarrow> entries" where
  "when_set v es = (if v \<noteq> [] then es else [])"

text \<open>The tree that a node should find in its configuration, given what the three blocks of the
  scenario say.\<close>

definition config_tree :: "NodeConfig \<Rightarrow> entries \<Rightarrow> entries \<Rightarrow> entries \<Rightarrow> entries" where
  "config_tree c loops extra chain_extra =
    [([''provin'', ''network''], Obj (
      [([''core''], Obj
         [([''listen-addr''], Text (ListenAddr c)),
          ([''data-dir''], Text ''./data''),
          ([''dev'', ''allow-loopback''], Word (if AllowLoopback c then ''true'' else ''false'')),
          ([''allow-private-networks''], Word (if AllowPrivateNetworks c then ''true'' else ''false'')),
          ([''tls'', ''allow-cleartext''], Word ''true'')]),
       ([''auth'', ''policy-verifier-url''], Text (PDPBaseURL c))]
      @ (case plain_internal (PDPBaseURL c) of
           None \<Rightarrow> []
         | Some hp \<Rightarrow> [([''auth'', ''plain-internal''], Arr [Text hp])])
      @ [([''registry''], Obj (
           [([''id''], Text (RegistryID c))]
           @ when_set (VCStoreEndpoint c)
               [([''service-endpoints''], Obj
                  [([''vc-resolver''], Obj
                     [([''type''], Text ''VCResolver''), ([''url''], Text (VCStoreEndpoint c))])])])),
         ([''chain''], Obj (
           [([''transport''], Text ''nats''),
            ([''nats''], Obj (
              [([''url''], Text (NATSURL c)),
               ([''account-seed-file''], Text (AccountSeedFile c)),
               ([''trust-root-seed-file''], Text (TrustSeedFile c)),
               ([''resolver-dir''], Text (ResolverDir c)),
               ([''node-did''], Text (NodeDID c)),
               ([''resolver-base-url''], Text (ResolverBaseURL c))]
              @ (if RegistryBaseURLs c = Map.empty then []
                 else [([''registry-base-urls''], Obj
                    (map (\<lambda>r. ([r], Text (the (RegistryBaseURLs c r))))
                      (sorted_list_of_set (dom (RegistryBaseURLs c)))))])))]
           @ chain_extra)),
         ([''pipeline''], Obj (
           when_set (VCStoreEndpoint c) [([''vc-store-endpoint''], Text (VCStoreEndpoint c))]
           @ [([''vc-store-bearer''], Text ''e2e-dummy'')]
           @ when_set (LoopsBlock c) [([''loops''], Obj loops)]
           @ extra))]))]"

section \<open>Reading what Render writes\<close>

text \<open>The rendered text with its blocks nested as its brackets are.\<close>

definition tls_text :: string where
  \<open>tls_text = unlines
     [''    # This harness never configures node-native TLS (no cert/key) and the'',
      ''    # process-runtime listen-addr (FreePort's ":<port>") has no host segment,'',
      ''    # so core.ListenerIsLoopback cannot recognize it as loopback even though'',
      ''    # the harness only ever binds 127.0.0.1 '' @ [CHR 0xE2, CHR 0x80, CHR 0x94] @ '' an explicit cleartext'',
      ''    # acknowledgement is the honest choice here (P0-6 transport-security'',
      ''    # guard), never a real deployment posture.'',
      ''    tls.allow-cleartext = true'']\<close>

definition core_text :: "(nat \<Rightarrow> bool) \<Rightarrow> NodeConfig \<Rightarrow> string" where
  "core_text pr c =
     (''    listen-addr = '' @ quote pr (ListenAddr c) @ [nl])
     @ (''    data-dir    = '' @ (dquote # ''./data'' @ [dquote]) @ [nl])
     @ (''    dev.allow-loopback     = '' @ show_bool (AllowLoopback c) @ [nl])
     @ (''    allow-private-networks = '' @ show_bool (AllowPrivateNetworks c) @ [nl])
     @ tls_text"

definition nats_text :: "(nat \<Rightarrow> bool) \<Rightarrow> NodeConfig \<Rightarrow> string" where
  "nats_text pr c =
     (''      url                  = '' @ quote pr (NATSURL c) @ [nl])
     @ (''      account-seed-file    = '' @ quote pr (AccountSeedFile c) @ [nl])
     @ (''      trust-root-seed-file = '' @ quote pr (TrustSeedFile c) @ [nl])
     @ (''      resolver-dir         = '' @ quote pr (ResolverDir c) @ [nl])
     @ (''      node-did             = '' @ quote pr (NodeDID c) @ [nl])
     @ (''      resolver-base-url    = '' @ quote pr (ResolverBaseURL c) @ [nl])"

definition chain_text :: "(nat \<Rightarrow> bool) \<Rightarrow> string list \<Rightarrow> NodeConfig \<Rightarrow> string" where
  "chain_text pr ks c =
     (''    transport = '' @ (dquote # ''nats'' @ [dquote]) @ [nl])
     @ (''    nats {\<newline>'' @ (nats_text pr c @ registry_urls_block pr ks c) @ ''    }\<newline>'')
     @ (if ChainExtra c \<noteq> [] then ChainExtra c @ [nl] else [])"

definition registry_text :: "(nat \<Rightarrow> bool) \<Rightarrow> NodeConfig \<Rightarrow> string" where
  "registry_text pr c =
     (''    id = '' @ quote pr (RegistryID c) @ [nl]) @ serviceEndpointsBlock pr c"

definition network_text :: "(nat \<Rightarrow> bool) \<Rightarrow> string list \<Rightarrow> NodeConfig \<Rightarrow> string" where
  "network_text pr ks c =
     (''  core {\<newline>'' @ core_text pr c @ ''  }\<newline>'')
     @ (''  auth.policy-verifier-url = '' @ quote pr (PDPBaseURL c) @ [nl])
     @ plainInternalLine pr c
     @ (''  registry {\<newline>'' @ registry_text pr c @ ''  }\<newline>'')
     @ (''  chain {\<newline>'' @ chain_text pr ks c @ ''  }\<newline>'')
     @ (''  pipeline {\<newline>'' @ pipeline_lines pr c @ ''  }\<newline>'')"

lemma layout_core:
  "unlines (core_lines pr c) = ''provin.network {\<newline>  core {\<newline>'' @ core_text pr c @ ''  }\<newline>''
     @ ''  auth.policy-verifier-url = '' @ quote pr (PDPBaseURL c) @ [nl]"
  by (simp add: core_lines_def core_text_def tls_text_def)

lemma layout_nats:
  "unlines (nats_lines pr c) = ''  }\<newline>  chain {\<newline>    transport = '' @ (dquote # ''nats'' @ [dquote])
     @ nl # ''    nats {\<newline>'' @ nats_text pr c"
  by (simp add: nats_lines_def nats_text_def)

lemma layout_registry:
  "unlines (registry_lines pr c) = ''  registry {\<newline>    id = '' @ quote pr (RegistryID c) @ [nl]"
  by (simp add: registry_lines_def)

lemma render_layout:
  "Render pr ks c = ''provin.network {\<newline>'' @ network_text pr ks c @ ''}\<newline>''"
  unfolding Render_def network_text_def registry_text_def chain_text_def layout_core layout_nats layout_registry
  by simp

lemma says_tls: "says tls_text [([''tls'', ''allow-cleartext''], Word ''true'')]"
proof -
  let ?nls = "replicate 6 Newline"
  have "lexes tls_text (?nls @ [Bare ''tls.allow-cleartext'', Equals, Bare ''true'', Newline])"
    by code_simp
  moreover have "adds (?nls @ [Bare ''tls.allow-cleartext'', Equals, Bare ''true'', Newline])
      ([] @ [([''tls'', ''allow-cleartext''], Word ''true'')])"
  proof (rule adds_append)
    show "adds ?nls []" by (simp add: adds_def numeral_eq_Suc)
    show "adds [Bare ''tls.allow-cleartext'', Equals, Bare ''true'', Newline] [([''tls'', ''allow-cleartext''], Word ''true'')]"
      by (rule adds_word) code_simp
  qed
  ultimately show ?thesis unfolding says_def by auto
qed

lemma says_core:
  assumes "hocon_safe pr (ListenAddr c)"
  shows "says (core_text pr c)
     [([''listen-addr''], Text (ListenAddr c)),
      ([''data-dir''], Text ''./data''),
      ([''dev'', ''allow-loopback''], Word (if AllowLoopback c then ''true'' else ''false'')),
      ([''allow-private-networks''], Word (if AllowPrivateNetworks c then ''true'' else ''false'')),
      ([''tls'', ''allow-cleartext''], Word ''true'')]"
proof -
  have addr: "says (''    listen-addr = '' @ quote pr (ListenAddr c) @ [nl]) [([''listen-addr''], Text (ListenAddr c))]"
    by (rule says_text [OF _ _ lexes_quote [OF assms]]) code_simp+
  have data: "says (''    data-dir    = '' @ (dquote # ''./data'' @ [dquote]) @ [nl]) [([''data-dir''], Text ''./data'')]"
    by (rule says_text [OF _ _ lexes_literal]) (code_simp, code_simp, simp)
  have loopback: "says (''    dev.allow-loopback     = '' @ show_bool b @ [nl])
      [([''dev'', ''allow-loopback''], Word (if b then ''true'' else ''false''))]" for b
    by (rule says_bool) code_simp+
  have networks: "says (''    allow-private-networks = '' @ show_bool b @ [nl])
      [([''allow-private-networks''], Word (if b then ''true'' else ''false''))]" for b
    by (rule says_bool) code_simp+
  have tls: "says tls_text [([''tls'', ''allow-cleartext''], Word ''true'')]"
    by (rule says_tls)
  show ?thesis
    using says_append [OF addr says_append [OF data says_append [OF loopback says_append [OF networks tls]]]]
    by (simp add: core_text_def)
qed

lemma says_nats:
  assumes "hocon_safe pr (NATSURL c)" and "hocon_safe pr (AccountSeedFile c)"
    and "hocon_safe pr (TrustSeedFile c)" and "hocon_safe pr (ResolverDir c)"
    and "hocon_safe pr (NodeDID c)" and "hocon_safe pr (ResolverBaseURL c)"
  shows "says (nats_text pr c)
     [([''url''], Text (NATSURL c)),
      ([''account-seed-file''], Text (AccountSeedFile c)),
      ([''trust-root-seed-file''], Text (TrustSeedFile c)),
      ([''resolver-dir''], Text (ResolverDir c)),
      ([''node-did''], Text (NodeDID c)),
      ([''resolver-base-url''], Text (ResolverBaseURL c))]"
proof -
  have lines: "lexes ''      url                  = '' [Bare ''url'', Equals]"
    "lexes ''      account-seed-file    = '' [Bare ''account-seed-file'', Equals]"
    "lexes ''      trust-root-seed-file = '' [Bare ''trust-root-seed-file'', Equals]"
    "lexes ''      resolver-dir         = '' [Bare ''resolver-dir'', Equals]"
    "lexes ''      node-did             = '' [Bare ''node-did'', Equals]"
    "lexes ''      resolver-base-url    = '' [Bare ''resolver-base-url'', Equals]"
    by code_simp+
  have paths: "path_of ''url'' = Some [''url'']" "path_of ''account-seed-file'' = Some [''account-seed-file'']"
    "path_of ''trust-root-seed-file'' = Some [''trust-root-seed-file'']"
    "path_of ''resolver-dir'' = Some [''resolver-dir'']" "path_of ''node-did'' = Some [''node-did'']"
    "path_of ''resolver-base-url'' = Some [''resolver-base-url'']"
    by code_simp+
  note line = says_text [OF lines(1) paths(1) lexes_quote [OF assms(1)]]
    says_text [OF lines(2) paths(2) lexes_quote [OF assms(2)]]
    says_text [OF lines(3) paths(3) lexes_quote [OF assms(3)]]
    says_text [OF lines(4) paths(4) lexes_quote [OF assms(4)]]
    says_text [OF lines(5) paths(5) lexes_quote [OF assms(5)]]
    says_text [OF lines(6) paths(6) lexes_quote [OF assms(6)]]
  show ?thesis
    using says_append [OF line(1) says_append [OF line(2) says_append [OF line(3)
      says_append [OF line(4) says_append [OF line(5) line(6)]]]]]
    by (simp add: nats_text_def)
qed

lemma says_endpoints:
  assumes "hocon_safe pr (VCStoreEndpoint c)"
  shows "says (serviceEndpointsBlock pr c) (when_set (VCStoreEndpoint c)
     [([''service-endpoints''], Obj
        [([''vc-resolver''], Obj [([''type''], Text ''VCResolver''), ([''url''], Text (VCStoreEndpoint c))])])])"
proof (cases "VCStoreEndpoint c = []")
  case True
  then show ?thesis by (simp add: serviceEndpointsBlock_def when_set_def says_Nil)
next
  case False
  let ?head = "''      vc-resolver { type = ''" and ?mid = "'', url = ''" and ?u = "VCStoreEndpoint c"
  let ?line = "?head @ (dquote # ''VCResolver'' @ [dquote]) @ ?mid @ quote pr ?u @ '' }\<newline>''"
  let ?ts = "[Bare ''vc-resolver'', LBrace, Bare ''type'', Equals] @ [Quoted ''VCResolver'']
      @ [Comma, Bare ''url'', Equals] @ [Quoted ?u] @ [RBrace, Newline]"
  have lits: "lexes ?head [Bare ''vc-resolver'', LBrace, Bare ''type'', Equals]"
    "lexes ?mid [Comma, Bare ''url'', Equals]" "lexes '' }\<newline>'' [RBrace, Newline]"
    by code_simp+
  have lit: "lexes (dquote # ''VCResolver'' @ [dquote]) [Quoted ''VCResolver'']"
    by (rule lexes_literal) simp
  have "lexes ?line ?ts"
    by (intro lexes_append lits lit lexes_quote [OF assms])
  moreover have "adds ?ts [([''vc-resolver''], Obj [([''type''], Text ''VCResolver''), ([''url''], Text ?u)])]"
  proof -
    have "path_of ''vc-resolver'' = Some [''vc-resolver'']" "path_of ''type'' = Some [''type'']"
      "path_of ''url'' = Some [''url'']"
      by code_simp+
    then show ?thesis by (simp add: adds_def)
  qed
  ultimately have line: "says ?line [([''vc-resolver''], Obj [([''type''], Text ''VCResolver''), ([''url''], Text ?u)])]"
    unfolding says_def by blast
  have "says (''    service-endpoints {\<newline>'' @ ?line @ ''    }\<newline>'') [([''service-endpoints''],
      Obj [([''vc-resolver''], Obj [([''type''], Text ''VCResolver''), ([''url''], Text ?u)])])]"
    by (rule says_obj [OF _ _ line]) code_simp+
  then show ?thesis using False by (simp add: serviceEndpointsBlock_def when_set_def)
qed

lemma says_plain_internal:
  assumes "\<forall>hp. plain_internal (PDPBaseURL c) = Some hp \<longrightarrow> hocon_safe pr hp"
  shows "says (plainInternalLine pr c)
     (case plain_internal (PDPBaseURL c) of
        None \<Rightarrow> []
      | Some hp \<Rightarrow> [([''auth'', ''plain-internal''], Arr [Text hp])])"
proof -
  have line: "plainInternalLine pr c = (case plain_internal (PDPBaseURL c) of
        None \<Rightarrow> []
      | Some hp \<Rightarrow> ''  auth.plain-internal = ['' @ (quote pr hp @ '']'') @ [nl])"
    by (auto simp: plainInternalLine_def plain_internal_def Let_def split: option.split)
  show ?thesis
  proof (cases "plain_internal (PDPBaseURL c)")
    case None
    then show ?thesis by (simp add: line says_Nil)
  next
    case (Some hp)
    have "lexes ''  auth.plain-internal = ['' [Bare ''auth.plain-internal'', Equals, LBrack]" "lexes '']'' [RBrack]"
      by code_simp+
    moreover have "path_of ''auth.plain-internal'' = Some [''auth'', ''plain-internal'']" by code_simp
    ultimately have "says (''  auth.plain-internal = ['' @ (quote pr hp @ '']'') @ [nl])
        [([''auth'', ''plain-internal''], Arr [Text hp])]"
      using assms Some lexes_quote [of pr hp] adds_array
      by (intro says_line [where us = "[Quoted hp] @ [RBrack]"] lexes_append) auto
    then show ?thesis by (simp add: line Some)
  qed
qed

lemma says_lines: "(\<And>x. x \<in> set xs \<Longrightarrow> says (f x) [g x]) \<Longrightarrow> says (concat (map f xs)) (map g xs)"
proof (induction xs)
  case (Cons x xs)
  then show ?case using says_append [of "f x" "[g x]"] by simp
qed (simp add: says_Nil)

lemma says_registry_urls:
  assumes "distinct ks" and "set ks = dom (RegistryBaseURLs c)"
    and "\<forall>r u. RegistryBaseURLs c r = Some u \<longrightarrow> hocon_safe pr r \<and> hocon_safe pr u"
  shows "says (registry_urls_block pr ks c)
     (if RegistryBaseURLs c = Map.empty then []
      else [([''registry-base-urls''], Obj
        (map (\<lambda>r. ([r], Text (the (RegistryBaseURLs c r))))
          (sorted_list_of_set (dom (RegistryBaseURLs c)))))])"
proof -
  let ?rs = "sorted_list_of_set (dom (RegistryBaseURLs c))"
  let ?line = "\<lambda>r. (''        '' @ quote pr r @ '' = '') @ quote pr (the (RegistryBaseURLs c r)) @ [nl]"
  have sort: "sort ks = ?rs"
    using assms(1,2) by (metis distinct_remdups_id sorted_list_of_set_sort_remdups)
  have ne: "ks = [] \<longleftrightarrow> RegistryBaseURLs c = Map.empty"
    using assms(2) by (metis dom_eq_empty_conv set_empty)
  have some: "\<exists>u. RegistryBaseURLs c r = Some u" if "r \<in> set ?rs" for r
    using that assms(2) sort by (metis domD set_sort)
  have entry: "says (?line r) [([r], Text (the (RegistryBaseURLs c r)))]" if "r \<in> set ?rs" for r
  proof -
    obtain u where u: "RegistryBaseURLs c r = Some u" using some [OF \<open>r \<in> set ?rs\<close>] by blast
    have "lexes ''        '' []" "lexes '' = '' [Equals]" by code_simp+
    then have "lexes (''        '' @ quote pr r @ '' = '') ([] @ [Quoted r] @ [Equals])"
      using assms(3) u by (intro lexes_append lexes_quote) auto
    then show ?thesis
      using assms(3) u adds_quoted_key lexes_quote [of pr u]
      by (intro says_line [where us = "[Quoted u]"]) auto
  qed
  have shape: "registry_urls_block pr ks c = (if RegistryBaseURLs c = Map.empty then []
      else ''      registry-base-urls {\<newline>'' @ concat (map ?line ?rs) @ ''      }\<newline>'')"
  proof -
    have "(case RegistryBaseURLs c r of Some u \<Rightarrow> u | None \<Rightarrow> []) = the (RegistryBaseURLs c r)"
      if "r \<in> set ?rs" for r
      using some [OF that] by auto
    then show ?thesis
      unfolding registry_urls_block_def sort ne by (simp add: unlines_def comp_def cong: map_cong)
  qed
  have "says (''      registry-base-urls {\<newline>'' @ concat (map ?line ?rs) @ ''      }\<newline>'')
      [([''registry-base-urls''], Obj (map (\<lambda>r. ([r], Text (the (RegistryBaseURLs c r)))) ?rs))]"
    by (rule says_obj [OF _ _ says_lines [OF entry]]) (code_simp, code_simp, assumption, code_simp)
  then show ?thesis unfolding shape by (auto simp: says_Nil)
qed

lemma read_conf_Nil: "read_conf [] = Some []"
  by code_simp

lemma says_block:
  assumes "read_conf b = Some es"
  shows "says (if b \<noteq> [] then b @ [nl] else []) es"
  using assms says_read_conf [OF assms] read_conf_Nil by (auto simp: says_Nil)

lemma says_registry:
  assumes "hocon_safe pr (RegistryID c)" and "hocon_safe pr (VCStoreEndpoint c)"
  shows "says (registry_text pr c) ([([''id''], Text (RegistryID c))] @ when_set (VCStoreEndpoint c)
     [([''service-endpoints''], Obj
        [([''vc-resolver''], Obj [([''type''], Text ''VCResolver''), ([''url''], Text (VCStoreEndpoint c))])])])"
proof -
  have "says (''    id = '' @ quote pr (RegistryID c) @ [nl]) [([''id''], Text (RegistryID c))]"
    by (rule says_text [OF _ _ lexes_quote [OF assms(1)]]) code_simp+
  then show ?thesis
    unfolding registry_text_def by (rule says_append) (rule says_endpoints [OF assms(2)])
qed

lemma says_chain:
  assumes "says (nats_text pr c) ns" and "says (registry_urls_block pr ks c) us"
    and "read_conf (ChainExtra c) = Some cs"
  shows "says (chain_text pr ks c) ([([''transport''], Text ''nats''), ([''nats''], Obj (ns @ us))] @ cs)"
proof -
  have lit: "lexes (dquote # ''nats'' @ [dquote]) [Quoted ''nats'']"
    by (rule lexes_literal) simp
  have transport: "says (''    transport = '' @ (dquote # ''nats'' @ [dquote]) @ [nl]) [([''transport''], Text ''nats'')]"
    by (rule says_text [OF _ _ lit]) code_simp+
  have nats: "says (''    nats {\<newline>'' @ (nats_text pr c @ registry_urls_block pr ks c) @ ''    }\<newline>'')
      [([''nats''], Obj (ns @ us))]"
    by (rule says_obj [OF _ _ says_append [OF assms(1,2)]]) code_simp+
  show ?thesis
    unfolding chain_text_def
    using says_append [OF transport says_append [OF nats says_block [OF assms(3)]]] by simp
qed

lemma says_pipeline:
  assumes "hocon_safe pr (VCStoreEndpoint c)" and "read_conf (LoopsBlock c) = Some ls"
    and "read_conf (Extra c) = Some xs"
  shows "says (pipeline_lines pr c)
     (when_set (VCStoreEndpoint c) [([''vc-store-endpoint''], Text (VCStoreEndpoint c))]
      @ [([''vc-store-bearer''], Text ''e2e-dummy'')]
      @ when_set (LoopsBlock c) [([''loops''], Obj ls)]
      @ xs)"
proof -
  have safe: "hocon_safe pr BearerToken"
    by (rule hocon_safe_ascii) (simp add: BearerToken_def)
  have endpoint: "says (''    vc-store-endpoint = '' @ quote pr (VCStoreEndpoint c) @ [nl])
      [([''vc-store-endpoint''], Text (VCStoreEndpoint c))]"
    by (rule says_text [OF _ _ lexes_quote [OF assms(1)]]) code_simp+
  have bearer: "says (''    vc-store-bearer   = '' @ quote pr BearerToken @ [nl])
      [([''vc-store-bearer''], Text BearerToken)]"
    by (rule says_text [OF _ _ lexes_quote [OF safe]]) code_simp+
  have loops: "says (''    loops {\<newline>'' @ (LoopsBlock c @ [nl]) @ ''    }\<newline>'') [([''loops''], Obj ls)]"
    by (rule says_obj [OF _ _ says_read_conf [OF assms(2)]]) code_simp+
  have shape: "pipeline_lines pr c =
      (if VCStoreEndpoint c \<noteq> [] then ''    vc-store-endpoint = '' @ quote pr (VCStoreEndpoint c) @ [nl] else [])
      @ (''    vc-store-bearer   = '' @ quote pr BearerToken @ [nl])
      @ (if LoopsBlock c \<noteq> [] then ''    loops {\<newline>'' @ (LoopsBlock c @ [nl]) @ ''    }\<newline>'' else [])
      @ (if Extra c \<noteq> [] then Extra c @ [nl] else [])"
    by (simp add: pipeline_lines_def)
  have bearer_text: "BearerToken = ''e2e-dummy''" by (simp add: BearerToken_def)
  show ?thesis
    unfolding shape when_set_def bearer_text [symmetric]
    by (intro says_append says_optional endpoint bearer loops says_block [OF assms(3)])
qed

definition quoted_values :: "NodeConfig \<Rightarrow> string set" where
  "quoted_values c =
     {ListenAddr c, PDPBaseURL c, RegistryID c, VCStoreEndpoint c, NATSURL c, AccountSeedFile c,
      TrustSeedFile c, ResolverDir c, NodeDID c, ResolverBaseURL c}
     \<union> set_option (plain_internal (PDPBaseURL c))
     \<union> dom (RegistryBaseURLs c) \<union> ran (RegistryBaseURLs c)"

text \<open>C8: A rendered configuration, read as HOCON, is the tree of its settings: every setting
  the harness writes is at its path with its own value, quoted or not, the service endpoint,
  the cleartext PDP, and the base URL of each registry in the order of the registries included,
  the blocks of the scenario are where the node looks for them, and nothing else is there.
  The quoted values must need no escape that only Go has, and the blocks must be readable.\<close>

theorem render_reads_back:
  assumes "\<forall>v \<in> quoted_values c. hocon_safe pr v"
    and "distinct ks" and "set ks = dom (RegistryBaseURLs c)"
    and "read_conf (LoopsBlock c) = Some loops" and "read_conf (Extra c) = Some extra"
    and "read_conf (ChainExtra c) = Some chain_extra"
  shows "read_conf (Render pr ks c) = Some (config_tree c loops extra chain_extra)"
proof -
  have safe: "hocon_safe pr (ListenAddr c)" "hocon_safe pr (PDPBaseURL c)" "hocon_safe pr (RegistryID c)"
    "hocon_safe pr (VCStoreEndpoint c)" "hocon_safe pr (NATSURL c)" "hocon_safe pr (AccountSeedFile c)"
    "hocon_safe pr (TrustSeedFile c)" "hocon_safe pr (ResolverDir c)" "hocon_safe pr (NodeDID c)"
    "hocon_safe pr (ResolverBaseURL c)"
    using assms(1) by (simp_all add: quoted_values_def)
  have plain: "\<forall>hp. plain_internal (PDPBaseURL c) = Some hp \<longrightarrow> hocon_safe pr hp"
    using assms(1) by (simp add: quoted_values_def)
  have urls: "\<forall>r u. RegistryBaseURLs c r = Some u \<longrightarrow> hocon_safe pr r \<and> hocon_safe pr u"
    using assms(1) by (auto simp: quoted_values_def ran_def)
  have core: "says (''  core {\<newline>'' @ core_text pr c @ ''  }\<newline>'') [([''core''], Obj es)]"
    if "says (core_text pr c) es" for es
    by (rule says_obj [OF _ _ that]) code_simp+
  have registry: "says (''  registry {\<newline>'' @ registry_text pr c @ ''  }\<newline>'') [([''registry''], Obj es)]"
    if "says (registry_text pr c) es" for es
    by (rule says_obj [OF _ _ that]) code_simp+
  have chain: "says (''  chain {\<newline>'' @ chain_text pr ks c @ ''  }\<newline>'') [([''chain''], Obj es)]"
    if "says (chain_text pr ks c) es" for es
    by (rule says_obj [OF _ _ that]) code_simp+
  have pipeline: "says (''  pipeline {\<newline>'' @ pipeline_lines pr c @ ''  }\<newline>'') [([''pipeline''], Obj es)]"
    if "says (pipeline_lines pr c) es" for es
    by (rule says_obj [OF _ _ that]) code_simp+
  have auth: "says (''  auth.policy-verifier-url = '' @ quote pr (PDPBaseURL c) @ [nl])
      [([''auth'', ''policy-verifier-url''], Text (PDPBaseURL c))]"
    by (rule says_text [OF _ _ lexes_quote [OF safe(2)]]) code_simp+
  note network = says_append [OF core [OF says_core [OF safe(1)]] says_append [OF auth
    says_append [OF says_plain_internal [OF plain] says_append [OF registry [OF says_registry [OF safe(3,4)]]
    says_append [OF chain [OF says_chain [OF says_nats [OF safe(5-10)] says_registry_urls [OF assms(2,3) urls] assms(6)]]
      pipeline [OF says_pipeline [OF safe(4) assms(4,5)]]]]]]]
  have whole: "says (Render pr ks c) (config_tree c loops extra chain_extra)"
    unfolding render_layout config_tree_def
    by (rule says_obj) (code_simp, code_simp, use network in \<open>simp add: network_text_def\<close>, code_simp)
  have "says [nl] []"
    using lexes_nl adds_Newline unfolding says_def by blast
  from says_append [OF whole this] show ?thesis by (intro read_conf_says) simp
qed

definition sample_node :: NodeConfig where
  "sample_node = (network_config sample_separated)\<lparr>Extra := FastTunables,
     LoopsBlock := ''      l1 { kind = produce, rate: 5 }''\<rparr>"

lemma render_reads_back_witness:
  "read_conf (Render no_table [''other'', ''reg.example''] sample_node)
     = Some (config_tree sample_node
         [([''l1''], Obj [([''kind''], Word ''produce''), ([''rate''], Word ''5'')])]
         [([''batch-resolver''], Obj
            [([''interval''], Word ''1s''), ([''batch-size''], Word ''64''), ([''max-retries''], Word ''5''),
             ([''max-depth''], Word ''1024'')]),
          ([''audit-runner''], Obj
            [([''interval''], Word ''1s''), ([''batch-size''], Word ''64''), ([''max-attempts''], Word ''10'')])]
         [([''did-cache''], Obj [([''enabled''], Word ''true'')])])"
proof (rule render_reads_back)
  have plain: "plain_internal (PDPBaseURL sample_node) = Some ''pdpstub:9091''"
    by code_simp
  show "\<forall>v \<in> quoted_values sample_node. hocon_safe no_table v"
    unfolding quoted_values_def plain
    by (auto intro!: hocon_safe_ascii simp: sample_node_def network_config_def base_config_def
        network_base_url_def sample_separated_def authority_def ran_def split: if_splits)
  show "set [''other'', ''reg.example''] = dom (RegistryBaseURLs sample_node)"
    by (auto simp: sample_node_def network_config_def base_config_def sample_separated_def)
qed code_simp+

end
