(* ===== verification/Polling.thy ===== *)
theory Polling
  imports Go_Text
begin

text \<open>
  The deadline loops of the harness: \<^verbatim>\<open>WaitFor\<close>, \<^verbatim>\<open>waitHealthy\<close>, the loop of
  \<^verbatim>\<open>StartPDPStub\<close> (\<^verbatim>\<open>node.go\<close>), \<^verbatim>\<open>Compose.Port\<close>, \<^verbatim>\<open>WaitHTTPHealthy\<close>,
  \<^verbatim>\<open>WaitForSubscriberHTTP\<close> (\<^verbatim>\<open>compose.go\<close>) and \<^verbatim>\<open>WaitForSubscriber\<close>
  (\<^verbatim>\<open>nats.go\<close>).  All of them read a clock, look at the outside, decide, sleep and go
  round again.  The outside is a script that fixes what the \<open>k\<close>-th look sees and how long
  it takes, or that it never comes back; a sleep lasts at least what was asked, the excess is
  part of the script.  Times are in milliseconds.  Every theorem holds for every script.
\<close>

section \<open>The outside\<close>

record 'o world =
  clock :: nat
  looks :: nat
  script :: "nat \<Rightarrow> 'o \<times> nat" \<comment> \<open>what the \<open>k\<close>-th look sees, and how long it takes\<close>
  oversleep :: "nat \<Rightarrow> nat" \<comment> \<open>by how much the sleep after the \<open>k\<close>-th look is late\<close>
  stuck :: "nat \<Rightarrow> bool" \<comment> \<open>whether the \<open>k\<close>-th look never comes back\<close>

definition seen :: "'o world \<Rightarrow> 'o" where
  "seen w = fst (script w (looks w))"

definition look :: "'o world \<Rightarrow> 'o world" where
  "look w = w\<lparr>clock := clock w + snd (script w (looks w)), looks := Suc (looks w)\<rparr>"

definition sleep :: "nat \<Rightarrow> 'o world \<Rightarrow> 'o world" where
  "sleep d w = w\<lparr>clock := clock w + d + oversleep w (looks w - 1)\<rparr>"

section \<open>The loop\<close>

text \<open>What a loop makes of one look, given what it remembers from the looks before.\<close>

datatype ('s, 'a) verdict = Again 's | Done 'a | Fail fatal

text \<open>
  \<open>poll check interval expire deadline s w\<close>: None is a loop that does not come back, because
  it waits in a look for ever or goes round for ever.
\<close>

partial_function (option) poll ::
  "('s \<Rightarrow> 'o \<Rightarrow> ('s, 'a) verdict) \<Rightarrow> nat \<Rightarrow> ('s \<Rightarrow> 'o \<Rightarrow> fatal) \<Rightarrow> nat \<Rightarrow> 's \<Rightarrow> 'o world \<Rightarrow>
     ('a outcome \<times> 'o world) option" where
  [code]: "poll check interval expire deadline s w =
     (if clock w < deadline then
        (if stuck w (looks w) then None else case check s (seen w) of
           Again s' \<Rightarrow> poll check interval expire deadline s' (sleep interval (look w))
         | Done a \<Rightarrow> Some (Inr a, look w)
         | Fail e \<Rightarrow> Some (Inl e, look w))
      else Some (Inl (expire s (seen w)), w))"

text \<open>A loop that only asks whether the look is good.\<close>

definition probe_check :: "('o \<Rightarrow> bool) \<Rightarrow> unit \<Rightarrow> 'o \<Rightarrow> (unit, unit) verdict" where
  "probe_check ok s x = (if ok x then Done () else Again ())"

text \<open>
  A look through an \<^verbatim>\<open>http.Client\<close> with a \<^verbatim>\<open>Timeout\<close> of two seconds, which covers
  the connection, the redirects and the body: one whose reply would never come ends with an
  error after that time.  A \<open>steady\<close> outside always comes back.
\<close>

definition timed :: "('o \<Rightarrow> 'o) \<Rightarrow> 'o world \<Rightarrow> 'o world" where
  "timed late w = w\<lparr>script := (\<lambda>k. if stuck w k then (late (fst (script w k)), 2000) else script w k),
     stuck := (\<lambda>_. False)\<rparr>"

definition steady :: "'o world \<Rightarrow> 'o world" where
  "steady w = w\<lparr>stuck := (\<lambda>_. False)\<rparr>"

lemma timed_simps [simp]:
  "clock (timed late w) = clock w" "looks (timed late w) = looks w" "stuck (timed late w) k = False"
  "oversleep (timed late w) = oversleep w"
  "script (timed late w) = (\<lambda>k. if stuck w k then (late (fst (script w k)), 2000) else script w k)"
  by (simp_all add: timed_def)

lemma steady_simps [simp]:
  "clock (steady w) = clock w" "looks (steady w) = looks w" "stuck (steady w) k = False"
  "oversleep (steady w) = oversleep w" "script (steady w) = script w" "seen (steady w) = seen w"
  by (simp_all add: steady_def seen_def)

lemma steady_id: "stuck w = (\<lambda>_. False) \<Longrightarrow> steady w = w"
  by (simp add: steady_def)

lemma timed_id: "stuck w = (\<lambda>_. False) \<Longrightarrow> timed late w = w"
  by (simp add: timed_def)

text \<open>The world after \<open>k\<close> looks and sleeps, and the time they took.\<close>

primrec rounds :: "nat \<Rightarrow> nat \<Rightarrow> 'o world \<Rightarrow> 'o world" where
  "rounds interval 0 w = w"
| "rounds interval (Suc k) w = rounds interval k (sleep interval (look w))"

primrec elapsed :: "nat \<Rightarrow> 'o world \<Rightarrow> nat \<Rightarrow> nat" where
  "elapsed interval w 0 = 0"
| "elapsed interval w (Suc k) =
     elapsed interval w k + snd (script w (looks w + k)) + interval + oversleep w (looks w + k)"

lemma sleep_look [simp]:
  "clock (sleep d (look w)) = clock w + snd (script w (looks w)) + d + oversleep w (looks w)"
  "looks (sleep d (look w)) = Suc (looks w)"
  "script (sleep d (look w)) = script w" "oversleep (sleep d (look w)) = oversleep w"
  "stuck (sleep d (look w)) = stuck w"
  by (simp_all add: sleep_def look_def)

lemma look_simps [simp]:
  "looks (look w) = Suc (looks w)" "script (look w) = script w" "oversleep (look w) = oversleep w"
  "stuck (look w) = stuck w" "clock (look w) = clock w + snd (script w (looks w))"
  by (simp_all add: look_def)

text \<open>Whether the \<open>k\<close> looks before the next all decide nothing.\<close>

fun undecided :: "('s \<Rightarrow> 'o \<Rightarrow> ('s, 'a) verdict) \<Rightarrow> 's \<Rightarrow> 'o world \<Rightarrow> nat \<Rightarrow> bool" where
  "undecided check s w 0 = True"
| "undecided check s w (Suc k) =
     (case check s (seen w) of Again s' \<Rightarrow> undecided check s' (w\<lparr>looks := Suc (looks w)\<rparr>) k | _ \<Rightarrow> False)"

lemma undecided_cong:
  "looks w = looks v \<Longrightarrow> script w = script v \<Longrightarrow> undecided check s w k = undecided check s v k"
proof (induction k arbitrary: s w v)
  case (Suc k)
  show ?case
    using Suc.prems Suc.IH [of "w\<lparr>looks := Suc (looks w)\<rparr>" "v\<lparr>looks := Suc (looks v)\<rparr>"]
    by (simp add: seen_def split: verdict.split)
qed simp

lemma undecided_step:
  "undecided check s w (Suc k) =
     (case check s (seen w) of Again s' \<Rightarrow> undecided check s' (sleep interval (look w)) k | _ \<Rightarrow> False)"
  by (auto split: verdict.split
      intro: undecided_cong [THEN iffD1, rotated 2] undecided_cong [THEN iffD2, rotated 2])

lemma elapsed_shift:
  "elapsed interval w (Suc k) =
     snd (script w (looks w)) + interval + oversleep w (looks w)
       + elapsed interval (sleep interval (look w)) k"
  by (induction k) auto

lemma elapsed_mono: "j \<le> k \<Longrightarrow> elapsed interval w j \<le> elapsed interval w k"
  by (rule lift_Suc_mono_le [of "elapsed interval w"]) simp_all

section \<open>The contract of a loop\<close>

locale poller =
  fixes check :: "'s \<Rightarrow> 'o \<Rightarrow> ('s, 'a) verdict"
    and interval :: nat
    and expire :: "'s \<Rightarrow> 'o \<Rightarrow> fatal"
  assumes interval_pos: "0 < interval"
begin

lemma unfold:
  "poll check interval expire deadline s w =
     (if clock w < deadline then
        (if stuck w (looks w) then None else case check s (seen w) of
           Again s' \<Rightarrow> poll check interval expire deadline s' (sleep interval (look w))
         | Done a \<Rightarrow> Some (Inr a, look w)
         | Fail e \<Rightarrow> Some (Inl e, look w))
      else Some (Inl (expire s (seen w)), w))"
  by (rule poll.simps)

lemma later: "clock w < deadline \<Longrightarrow> deadline - clock (sleep interval (look w)) < deadline - clock w"
  using interval_pos by simp

lemma returns:
  assumes "\<And>k. clock w + elapsed interval w k < deadline \<Longrightarrow> \<not> stuck w (looks w + k)"
  shows "\<exists>r. poll check interval expire deadline s w = Some r"
  using assms
proof (induction "deadline - clock w" arbitrary: s w rule: less_induct)
  case less
  show ?case
  proof (cases "clock w < deadline")
    case True
    let ?w = "sleep interval (look w)"
    have "\<not> stuck ?w (looks ?w + k)" if "clock ?w + elapsed interval ?w k < deadline" for k
      using less.prems [of "Suc k"] that by (simp only: elapsed_shift) simp
    with less.hyps [OF later [OF True]] have "\<exists>r. poll check interval expire deadline s' ?w = Some r" for s'
      by blast
    moreover have "\<not> stuck w (looks w)" using less.prems [of 0] True by simp
    ultimately show ?thesis by (subst unfold) (auto split: verdict.split)
  qed (simp add: unfold)
qed

lemma returns_timed: "\<exists>r. poll check interval expire deadline s (timed late w) = Some r"
  by (rule returns) simp

lemma looks_bound:
  "poll check interval expire deadline s w = Some (r, w') \<Longrightarrow>
     looks w' \<le> looks w + (deadline - clock w + interval - 1) div interval"
proof (induction "deadline - clock w" arbitrary: s w rule: less_induct)
  case less
  show ?case
  proof (cases "clock w < deadline")
    case True
    let ?d = "deadline - clock w"
    have one: "1 \<le> (?d + interval - 1) div interval"
      using True interval_pos by (simp add: Suc_le_eq div_greater_zero_iff)
    show ?thesis
    proof (cases "check s (seen w)")
      case (Again s')
      let ?w = "sleep interval (look w)"
      have "poll check interval expire deadline s' ?w = Some (r, w')"
        using less.prems True Again by (simp add: unfold [of deadline s w] split: if_splits)
      from less.hyps [OF later [OF True] this]
      have "looks w' \<le> Suc (looks w) + (deadline - clock ?w + interval - 1) div interval" by simp
      moreover have "(deadline - clock ?w + interval - 1) div interval + 1
          \<le> (?d + interval - 1) div interval"
      proof (cases "interval \<le> ?d")
        case True
        have "deadline - clock ?w + interval - 1 \<le> ?d - 1" using True interval_pos by simp
        then have "(deadline - clock ?w + interval - 1) div interval \<le> (?d - 1) div interval"
          by (rule div_le_mono)
        moreover have "(?d + interval - 1) div interval = (?d - 1) div interval + 1"
          using True interval_pos div_add_self2 [of interval "?d - 1"] by simp
        ultimately show ?thesis by simp
      next
        case False
        then have "deadline - clock ?w = 0" by simp
        then show ?thesis using one interval_pos by (simp add: div_less)
      qed
      ultimately show ?thesis by simp
    next
      case (Done a)
      then show ?thesis using less.prems True one by (auto simp: unfold [of deadline s w] split: if_splits)
    next
      case (Fail e)
      then show ?thesis using less.prems True one by (auto simp: unfold [of deadline s w] split: if_splits)
    qed
  next
    case False
    then show ?thesis using less.prems by (auto simp: unfold [of deadline s w])
  qed
qed

lemma done_source:
  "poll check interval expire deadline s w = Some (Inr a, w') \<Longrightarrow>
     \<exists>k s'. check s' (fst (script w (looks w + k))) = Done a \<and> clock w + elapsed interval w k < deadline
       \<and> (\<forall>j \<le> k. \<not> stuck w (looks w + j))"
proof (induction "deadline - clock w" arbitrary: s w rule: less_induct)
  case less
  have now: "clock w < deadline" "\<not> stuck w (looks w)"
    using less.prems by (auto simp: unfold [of deadline s w] split: if_splits)
  show ?case
  proof (cases "check s (seen w)")
    case (Again s')
    let ?w = "sleep interval (look w)"
    have "poll check interval expire deadline s' ?w = Some (Inr a, w')"
      using less.prems now Again by (simp add: unfold [of deadline s w])
    from less.hyps [OF later [OF now(1)] this]
    obtain k t where k: "check t (fst (script w (looks w + Suc k))) = Done a"
      "clock ?w + elapsed interval ?w k < deadline" "\<forall>j \<le> k. \<not> stuck w (looks w + Suc j)" by auto
    have "\<not> stuck w (looks w + j)" if "j \<le> Suc k" for j
      using k(3) now(2) that by (cases j) auto
    moreover have "clock w + elapsed interval w (Suc k) < deadline"
      using k(2) by (simp only: elapsed_shift) simp
    ultimately show ?thesis using k(1) by blast
  next
    case (Done b)
    with less.prems now have "check s (fst (script w (looks w + 0))) = Done a"
      by (simp add: unfold [of deadline s w] seen_def)
    then show ?thesis using now by (intro exI [of _ 0] exI [of _ s]) simp
  next
    case (Fail e)
    with less.prems now show ?thesis by (simp add: unfold [of deadline s w])
  qed
qed

text \<open>A loop does not come back exactly when it starts, before the deadline, a look that hangs.\<close>

lemma hangs_iff:
  "poll check interval expire deadline s w = None \<longleftrightarrow>
     (\<exists>k. undecided check s w k \<and> clock w + elapsed interval w k < deadline \<and> stuck w (looks w + k))"
proof (induction "deadline - clock w" arbitrary: s w rule: less_induct)
  case less
  have split: "(\<exists>k. P k) \<longleftrightarrow> P 0 \<or> (\<exists>k. P (Suc k))" for P :: "nat \<Rightarrow> bool"
    by (metis not0_implies_Suc)
  show ?case
  proof (cases "clock w < deadline")
    case True
    show ?thesis
      by (subst unfold, subst split, cases "check s (seen w)")
         (use True less.hyps [OF later [OF True]] in
           \<open>simp_all add: undecided_step [where interval = interval] elapsed_shift seen_def add.assoc
             del: elapsed.simps(2) undecided.simps(2)\<close>)
  next
    case False
    then show ?thesis by (simp add: unfold [of deadline s w])
  qed
qed

text \<open>Looks that are taken in time and decide nothing only move the loop on.\<close>

lemma decides:
  assumes "rounds interval k w = v" and "\<And>j. j < k \<Longrightarrow> clock w + elapsed interval w j < deadline"
    and "\<And>j. j < k \<Longrightarrow> check (st j) (fst (script w (looks w + j))) = Again (st (Suc j))"
    and "\<And>j. j < k \<Longrightarrow> \<not> stuck w (looks w + j)"
  shows "poll check interval expire deadline (st 0) w = poll check interval expire deadline (st k) v"
  using assms
proof (induction k arbitrary: w st)
  case (Suc k)
  have "clock w < deadline" using Suc.prems(2) [of 0] by simp
  moreover have "check (st 0) (seen w) = Again (st (Suc 0))"
    using Suc.prems(3) [of 0] by (simp add: seen_def)
  moreover have "\<not> stuck w (looks w)" using Suc.prems(4) [of 0] by simp
  moreover have "poll check interval expire deadline (st (Suc 0)) (sleep interval (look w))
      = poll check interval expire deadline (st (Suc k)) v"
  proof (rule Suc.IH [where st = "\<lambda>j. st (Suc j)"])
    show "rounds interval k (sleep interval (look w)) = v" using Suc.prems(1) by simp
    show "clock (sleep interval (look w)) + elapsed interval (sleep interval (look w)) j < deadline"
      if "j < k" for j
      using Suc.prems(2) [of "Suc j"] that by (simp only: elapsed_shift) simp
    show "check (st (Suc j)) (fst (script (sleep interval (look w)) (looks (sleep interval (look w)) + j)))
        = Again (st (Suc (Suc j)))" if "j < k" for j
      using Suc.prems(3) [of "Suc j"] that by simp
    show "\<not> stuck (sleep interval (look w)) (looks (sleep interval (look w)) + j)" if "j < k" for j
      using Suc.prems(4) [of "Suc j"] that by simp
  qed
  ultimately show ?case by (simp add: unfold [of deadline "st 0" w])
qed simp

end

lemma rounds_simps:
  "looks (rounds i k w) = looks w + k" "script (rounds i k w) = script w"
  "clock (rounds i k w) = clock w + elapsed i w k" "stuck (rounds i k w) = stuck w"
proof (induction k arbitrary: w)
  case (Suc k)
  { case 1 show ?case by (simp add: Suc.IH(1)) }
  { case 2 show ?case by (simp add: Suc.IH(2)) }
  { case 3 show ?case by (simp only: rounds.simps Suc.IH(3) elapsed_shift) simp }
  { case 4 show ?case by (simp add: Suc.IH(4)) }
qed simp_all

lemma elapsed_lower: "k * interval \<le> elapsed interval w k"
  by (induction k) auto

text \<open>A look that hangs and is reached before the deadline, no look before it being good.\<close>

definition hangs_at :: "('o \<Rightarrow> bool) \<Rightarrow> nat \<Rightarrow> nat \<Rightarrow> 'o world \<Rightarrow> bool" where
  "hangs_at ok interval timeout w \<longleftrightarrow>
     (\<exists>k. stuck w (looks w + k) \<and> elapsed interval w k < timeout
       \<and> (\<forall>j < k. \<not> ok (fst (script w (looks w + j)))))"

lemma hangs_atI:
  assumes "\<And>s x. (\<exists>s'. check s x = Again s') \<longleftrightarrow> \<not> ok x"
  shows "(\<exists>k. undecided check s w k \<and> clock w + elapsed interval w k < clock w + timeout \<and> stuck w (looks w + k))
     \<longleftrightarrow> hangs_at ok interval timeout w"
proof -
  have "undecided check s w k \<longleftrightarrow> (\<forall>j < k. \<not> ok (fst (script w (looks w + j))))" for k
  proof (induction k arbitrary: s w)
    case (Suc k)
    show ?case
      using assms [of s "seen w"] Suc.IH [of _ "w\<lparr>looks := Suc (looks w)\<rparr>"]
      by (auto simp: seen_def less_Suc_eq_0_disj split: verdict.splits)
  qed simp
  then show ?thesis by (auto simp: hangs_at_def)
qed

lemma hangs_at_steady [simp]: "\<not> hangs_at ok interval timeout (steady w)"
  by (simp add: hangs_at_def)

text \<open>A loop that asks for a good look: its contract is the first good look, if in time.\<close>

locale probe =
  fixes ok :: "'o \<Rightarrow> bool"
    and interval :: nat
    and expire :: "unit \<Rightarrow> 'o \<Rightarrow> fatal"
  assumes positive: "0 < interval"

sublocale probe \<subseteq> poller "probe_check ok" interval expire
  by (unfold_locales) (rule positive)

context probe begin

lemma never_back_iff:
  "poll (probe_check ok) interval expire (clock w + timeout) () w = None \<longleftrightarrow> hangs_at ok interval timeout w"
  unfolding hangs_iff by (rule hangs_atI) (simp add: probe_check_def)

lemma first_good:
  assumes "\<And>j. j < k \<Longrightarrow> \<not> ok (fst (script w (looks w + j)))" and "\<And>j. j \<le> k \<Longrightarrow> \<not> stuck w (looks w + j)"
    and "ok (fst (script w (looks w + k)))" and "elapsed interval w k < timeout"
  shows "poll (probe_check ok) interval expire (clock w + timeout) () w =
    Some (Inr (), look (rounds interval k w))"
proof -
  have "poll (probe_check ok) interval expire (clock w + timeout) () w =
      poll (probe_check ok) interval expire (clock w + timeout) () (rounds interval k w)"
  proof (rule decides [where st = "\<lambda>_. ()"])
    show "clock w + elapsed interval w j < clock w + timeout" if "j < k" for j
      using assms(4) elapsed_mono [of j k interval w] that by simp
  qed (simp_all add: probe_check_def assms(1,2))
  then show ?thesis
    using assms(2) [of k] assms(3,4) by (simp add: unfold rounds_simps seen_def probe_check_def)
qed

lemma succeeds_iff:
  "(\<exists>w'. poll (probe_check ok) interval expire (clock w + timeout) () w = Some (Inr (), w')) \<longleftrightarrow>
     (\<exists>k. ok (fst (script w (looks w + k))) \<and> elapsed interval w k < timeout
       \<and> (\<forall>j \<le> k. \<not> stuck w (looks w + j)))"
proof
  assume "\<exists>w'. poll (probe_check ok) interval expire (clock w + timeout) () w = Some (Inr (), w')"
  then obtain w' where "poll (probe_check ok) interval expire (clock w + timeout) () w = Some (Inr (), w')" ..
  from done_source [OF this]
  show "\<exists>k. ok (fst (script w (looks w + k))) \<and> elapsed interval w k < timeout
      \<and> (\<forall>j \<le> k. \<not> stuck w (looks w + j))"
    by (auto simp: probe_check_def split: if_splits)
next
  assume "\<exists>k. ok (fst (script w (looks w + k))) \<and> elapsed interval w k < timeout
      \<and> (\<forall>j \<le> k. \<not> stuck w (looks w + j))"
  then obtain k where k: "ok (fst (script w (looks w + k)))" "elapsed interval w k < timeout"
    "\<And>j. j \<le> k \<Longrightarrow> \<not> stuck w (looks w + j)" by blast
  define m where "m = (LEAST k. ok (fst (script w (looks w + k))))"
  have "ok (fst (script w (looks w + m)))" unfolding m_def by (rule LeastI) (rule k)
  moreover have m: "m \<le> k" unfolding m_def by (rule Least_le) (rule k)
  moreover have "\<not> ok (fst (script w (looks w + j)))" if "j < m" for j
    using not_less_Least [of j "\<lambda>k. ok (fst (script w (looks w + k)))"] that by (simp add: m_def)
  moreover have "elapsed interval w m < timeout"
    using k(2) elapsed_mono [OF \<open>m \<le> k\<close>, of interval w] by simp
  ultimately show "\<exists>w'. poll (probe_check ok) interval expire (clock w + timeout) () w = Some (Inr (), w')"
    using first_good [of m w timeout] k(3) by (meson le_trans)
qed

end

section \<open>Durations\<close>

text \<open>\<^verbatim>\<open>time.Duration\<close>'s text, of a number of milliseconds.\<close>

definition frac_ms :: "nat \<Rightarrow> string" where
  "frac_ms m =
     (if m = 0 then []
      else CHR ''.'' # rev (dropWhile (\<lambda>c. c = CHR ''0'')
             (rev [digit (m div 100), digit (m div 10 mod 10), digit (m mod 10)])))"

definition show_duration :: "nat \<Rightarrow> string" where
  "show_duration ms =
     (if ms = 0 then ''0s''
      else if ms < 1000 then nat_str ms @ ''ms''
      else
        let s = ms div 1000; sec = nat_str (s mod 60) @ frac_ms (ms mod 1000) @ ''s'' in
        if s < 60 then sec
        else if s < 3600 then nat_str (s div 60) @ ''m'' @ sec
        else nat_str (s div 3600) @ ''h'' @ nat_str (s div 60 mod 60) @ ''m'' @ sec)"

section \<open>The loops of the harness\<close>

text \<open>What an HTTP GET yields: an error, or a status and the body (None: it cannot be read).\<close>

datatype http_reply = Get_error string | Reply nat "string option"

definition is_200 :: "http_reply \<Rightarrow> bool" where
  "is_200 r = (case r of Reply st b \<Rightarrow> st = 200 | Get_error e \<Rightarrow> False)"

definition WaitFor :: "string \<Rightarrow> nat \<Rightarrow> bool world \<Rightarrow> (unit outcome \<times> bool world) option" where
  "WaitFor what timeout w =
     poll (probe_check (\<lambda>b. b)) 250
       (\<lambda>_ _. Fatalf ''timed out waiting for %s (%s)'' [what, show_duration timeout])
       (clock w + timeout) () w"

text \<open>One look of \<^verbatim>\<open>waitHealthy\<close>: whether the process is gone, its logs, the reply.\<close>

record boot_look =
  Exited :: bool
  BootReply :: http_reply
  BootStderr :: string
  BootStdout :: string

definition boot_check :: "string \<Rightarrow> unit \<Rightarrow> boot_look \<Rightarrow> (unit, unit) verdict" where
  "boot_check name s x =
     (if Exited x then
        Fail (Fatalf ''node %s: exited during boot\<newline>--- stderr ---\<newline>%s\<newline>--- stdout ---\<newline>%s''
                [name, BootStderr x, BootStdout x])
      else if is_200 (BootReply x) then Done ()
      else Again ())"

definition boot_expire :: "string \<Rightarrow> string \<Rightarrow> unit \<Rightarrow> boot_look \<Rightarrow> fatal" where
  "boot_expire name url s x =
     Fatalf ''node %s: never became healthy at %s\<newline>--- stderr ---\<newline>%s\<newline>--- stdout ---\<newline>%s''
       [name, url, BootStderr x, BootStdout x]"

text \<open>The client's timeout in a look that would hang.\<close>

definition late_reply :: http_reply where
  "late_reply = Get_error ''context deadline exceeded (Client.Timeout exceeded)''"

definition boot_looks :: "boot_look world \<Rightarrow> boot_look world" where
  "boot_looks = timed (\<lambda>x. x\<lparr>BootReply := late_reply\<rparr>)"

lemma boot_looks_id: "stuck w = (\<lambda>_. False) \<Longrightarrow> boot_looks w = w"
  by (simp add: boot_looks_def timed_id)

lemma boot_looks_simps [simp]:
  "clock (boot_looks w) = clock w" "looks (boot_looks w) = looks w" "\<not> stuck (boot_looks w) k"
  "Exited (fst (script (boot_looks w) k)) = Exited (fst (script w k))"
  "BootStderr (fst (script (boot_looks w) k)) = BootStderr (fst (script w k))"
  "BootStdout (fst (script (boot_looks w) k)) = BootStdout (fst (script w k))"
  "is_200 (BootReply (fst (script (boot_looks w) k))) \<longleftrightarrow> \<not> stuck w k \<and> is_200 (BootReply (fst (script w k)))"
  by (simp_all add: boot_looks_def late_reply_def is_200_def)

definition waitHealthy ::
  "string \<Rightarrow> string \<Rightarrow> boot_look world \<Rightarrow> (unit outcome \<times> boot_look world) option" where
  "waitHealthy name url w =
     poll (boot_check name) 200 (boot_expire name url) (clock w + 90000) () (boot_looks w)"

text \<open>
  The loop of \<^verbatim>\<open>StartPDPStub\<close>: a look is a reply and what the server's goroutine reported.
  Its \<^verbatim>\<open>http.Get\<close> has no timeout.
\<close>

definition stub_base :: "string \<Rightarrow> string" where
  "stub_base addr = ''http://127.0.0.1'' @ addr"

definition stub_check :: "string \<Rightarrow> unit \<Rightarrow> http_reply \<times> string \<Rightarrow> (unit, string) verdict" where
  "stub_check addr s x = (if is_200 (fst x) then Done (stub_base addr) else Again ())"

definition StartPDPStub ::
  "string \<Rightarrow> (http_reply \<times> string) world \<Rightarrow> (string outcome \<times> (http_reply \<times> string) world) option" where
  "StartPDPStub addr w =
     poll (stub_check addr) 50
       (\<lambda>_ x. Fatalf ''pdp stub never became healthy on %s (serve error: %s)'' [addr, snd x])
       (clock w + 5000) () w"

definition WaitHTTPHealthy ::
  "string \<Rightarrow> string \<Rightarrow> nat \<Rightarrow> http_reply world \<Rightarrow> (unit outcome \<times> http_reply world) option" where
  "WaitHTTPHealthy name url timeout w =
     poll (probe_check is_200) 300
       (\<lambda>_ _. Fatalf ''compose service %s never became healthy at %s'' [name, url])
       (clock w + timeout) () (timed (\<lambda>_. late_reply) w)"

text \<open>The subscriptions the broker lists, or None when \<^verbatim>\<open>Subsz\<close> fails.\<close>

definition has_subscriber :: "string \<Rightarrow> string list option \<Rightarrow> bool" where
  "has_subscriber subject subs = (case subs of None \<Rightarrow> False | Some l \<Rightarrow> subject \<in> set l)"

definition WaitForSubscriber ::
  "string \<Rightarrow> nat \<Rightarrow> string list option world \<Rightarrow> (unit outcome \<times> string list option world) option" where
  "WaitForSubscriber subject timeout w =
     poll (probe_check (has_subscriber subject)) 100
       (\<lambda>_ _. Fatalf ''nats: no subscriber on %q after %s'' [subject, show_duration timeout])
       (clock w + timeout) () w"

definition lists_subject :: "string \<Rightarrow> http_reply \<Rightarrow> bool" where
  "lists_subject subject r =
     (case r of Reply st (Some body) \<Rightarrow> contains body (dquote # subject @ [dquote]) | _ \<Rightarrow> False)"

definition WaitForSubscriberHTTP ::
  "string \<Rightarrow> string \<Rightarrow> nat \<Rightarrow> http_reply world \<Rightarrow> (unit outcome \<times> http_reply world) option" where
  "WaitForSubscriberHTTP monitorBase subject timeout w =
     poll (probe_check (lists_subject subject)) 200
       (\<lambda>_ _. Fatalf ''compose: no subscriber on %q after %s'' [subject, show_duration timeout])
       (clock w + timeout) () (timed (\<lambda>_. late_reply) w)"

text \<open>One look of \<^verbatim>\<open>Compose.Port\<close>: the command's output and error, and the service's logs.\<close>

record port_look =
  PortOut :: string
  PortErr :: "string option"
  PortLogs :: "string outcome"

definition normalize_addr :: "string \<Rightarrow> string" where
  "normalize_addr addr =
     (let a1 = (if has_prefix addr ''0.0.0.0:'' then ''127.0.0.1:'' @ trim_prefix addr ''0.0.0.0:''
                else addr)
      in if has_prefix a1 ''[::]:'' then ''127.0.0.1:'' @ trim_prefix a1 ''[::]:'' else a1)"

definition port_check :: "string option \<Rightarrow> port_look \<Rightarrow> (string option, string) verdict" where
  "port_check lastErr x =
     (let addr = trim_space (PortOut x) in
      if PortErr x = None \<and> addr \<noteq> [] then Done (normalize_addr addr) else Again (PortErr x))"

definition show_err :: "string option \<Rightarrow> string" where
  "show_err e = (case e of None \<Rightarrow> ''<nil>'' | Some m \<Rightarrow> m)"

definition port_expire :: "string \<Rightarrow> nat \<Rightarrow> string option \<Rightarrow> port_look \<Rightarrow> fatal" where
  "port_expire service containerPort lastErr x =
     (case PortLogs x of
        Inl e \<Rightarrow> e
      | Inr logs \<Rightarrow>
          Fatalf ''compose port %s %d: no published port after 60s (last error: %v)\<newline>--- %s logs ---\<newline>%s''
            [service, nat_str containerPort, show_err lastErr, service, logs])"

text \<open>The logs for the message at the deadline are one more command, which may hang as well.\<close>

definition Port ::
  "string \<Rightarrow> nat \<Rightarrow> port_look world \<Rightarrow> (string outcome \<times> port_look world) option" where
  "Port service containerPort w =
     (case poll port_check 500 (port_expire service containerPort) (clock w + 60000) None w of
        Some (Inl e, w') \<Rightarrow> if stuck w' (looks w') then None else Some (Inl e, w')
      | r \<Rightarrow> r)"

interpretation wait_for: probe "\<lambda>b. b" 250 expire for expire
  by unfold_locales simp

interpretation http_healthy: probe is_200 300 expire for expire
  by unfold_locales simp

interpretation subscriber: probe "has_subscriber subject" 100 expire for subject expire
  by unfold_locales simp

interpretation subscriber_http: probe "lists_subject subject" 200 expire for subject expire
  by unfold_locales simp

interpretation boot: poller "boot_check name" 200 "boot_expire name url" for name url
  by unfold_locales simp

interpretation stub: poller "stub_check addr" 50 expire for addr expire
  by unfold_locales simp

interpretation published: poller port_check 500 "port_expire service containerPort"
  for service containerPort
  by unfold_locales simp

section \<open>Properties\<close>

definition publishes :: "port_look \<Rightarrow> bool" where
  "publishes x \<longleftrightarrow> PortErr x = None \<and> trim_space (PortOut x) \<noteq> []"

definition logs_hang :: "port_look world \<Rightarrow> bool" where
  "logs_hang w \<longleftrightarrow>
     (\<exists>k. 60000 \<le> elapsed 500 w k \<and> stuck w (looks w + k)
       \<and> (\<forall>j < k. elapsed 500 w j < 60000 \<and> \<not> publishes (fst (script w (looks w + j)))
            \<and> \<not> stuck w (looks w + j)))"

lemma port_check_Again: "(\<exists>s'. port_check s x = Again s') \<longleftrightarrow> \<not> publishes x"
  by (auto simp: port_check_def publishes_def Let_def)

lemma port_check_not_Fail: "port_check s x \<noteq> Fail e"
  by (simp add: port_check_def Let_def)

lemma Port_expired:
  "poll port_check 500 ex deadline s w = Some (Inl e, w') \<Longrightarrow>
     \<exists>k. w' = rounds 500 k w \<and> deadline \<le> clock w + elapsed 500 w k
       \<and> (\<forall>j < k. clock w + elapsed 500 w j < deadline \<and> \<not> publishes (fst (script w (looks w + j)))
            \<and> \<not> stuck w (looks w + j))"
proof (induction "deadline - clock w" arbitrary: s w rule: less_induct)
  case less
  show ?case
  proof (cases "clock w < deadline")
    case True
    let ?w = "sleep 500 (look w)"
    have ns: "\<not> stuck w (looks w)" using less.prems True by (auto simp: poll.simps [of _ _ _ _ s w])
    obtain s' where s': "port_check s (seen w) = Again s'"
      using less.prems True ns port_check_not_Fail
      by (cases "port_check s (seen w)") (auto simp: poll.simps [of _ _ _ _ s w])
    then have "poll port_check 500 ex deadline s' ?w = Some (Inl e, w')"
      using less.prems True ns by (simp add: poll.simps [of _ _ _ _ s w])
    moreover have "deadline - clock ?w < deadline - clock w" using True by simp
    ultimately have "\<exists>k. w' = rounds 500 k ?w \<and> deadline \<le> clock ?w + elapsed 500 ?w k
      \<and> (\<forall>j < k. clock ?w + elapsed 500 ?w j < deadline \<and> \<not> publishes (fst (script ?w (looks ?w + j)))
         \<and> \<not> stuck ?w (looks ?w + j))"
      by (intro less.hyps)
    then obtain k where k: "w' = rounds 500 k ?w" "deadline \<le> clock ?w + elapsed 500 ?w k"
      "\<And>j. j < k \<Longrightarrow> clock ?w + elapsed 500 ?w j < deadline
         \<and> \<not> publishes (fst (script w (looks w + Suc j))) \<and> \<not> stuck w (looks w + Suc j)"
      by auto
    have shift: "clock w + elapsed 500 w (Suc j) = clock ?w + elapsed 500 ?w j" for j
      by (simp only: elapsed_shift) simp
    have "\<not> publishes (fst (script w (looks w)))"
      using s' port_check_Again [of s "seen w"] by (simp add: seen_def)
    then have "clock w + elapsed 500 w j < deadline \<and> \<not> publishes (fst (script w (looks w + j)))
        \<and> \<not> stuck w (looks w + j)" if "j < Suc k" for j
    proof (cases j)
      case (Suc i)
      then show ?thesis using k(3) [of i] that shift [of i] by (simp only: Suc_less_eq) simp
    qed (use True ns \<open>\<not> publishes _\<close> in simp)
    then show ?thesis using k(1,2) shift [of k] by (intro exI [of _ "Suc k"]) simp
  next
    case False
    then show ?thesis using less.prems by (intro exI [of _ 0]) (simp add: poll.simps [of _ _ _ _ s w])
  qed
qed

fun port_state :: "(nat \<Rightarrow> port_look) \<Rightarrow> nat \<Rightarrow> string option" where
  "port_state f 0 = None"
| "port_state f (Suc k) = PortErr (f k)"

lemma Port_waits:
  assumes "\<And>j. j < k \<Longrightarrow> elapsed 500 w j < 60000 \<and> \<not> publishes (fst (script w (looks w + j)))
      \<and> \<not> stuck w (looks w + j)"
  shows "poll port_check 500 (port_expire s p) (clock w + 60000) None w =
    poll port_check 500 (port_expire s p) (clock w + 60000)
      (port_state (\<lambda>j. fst (script w (looks w + j))) k) (rounds 500 k w)"
proof -
  have "poll port_check 500 (port_expire s p) (clock w + 60000) (port_state (\<lambda>j. fst (script w (looks w + j))) 0) w
      = poll port_check 500 (port_expire s p) (clock w + 60000)
          (port_state (\<lambda>j. fst (script w (looks w + j))) k) (rounds 500 k w)"
    by (rule published.decides [OF refl]) (use assms in \<open>auto simp: port_check_def publishes_def Let_def\<close>)
  then show ?thesis by simp
qed

lemma Port_never_back_iff: "Port service port w = None \<longleftrightarrow> hangs_at publishes 500 60000 w \<or> logs_hang w"
proof -
  let ?poll = "poll port_check 500 (port_expire service port) (clock w + 60000) None w"
  have none: "?poll = None \<longleftrightarrow> hangs_at publishes 500 60000 w"
    unfolding published.hangs_iff by (rule hangs_atI) (rule port_check_Again)
  have "(\<exists>e w'. ?poll = Some (Inl e, w') \<and> stuck w' (looks w')) \<longleftrightarrow> logs_hang w"
  proof
    assume "\<exists>e w'. ?poll = Some (Inl e, w') \<and> stuck w' (looks w')"
    then obtain e w' where 1: "?poll = Some (Inl e, w')" "stuck w' (looks w')" by blast
    from Port_expired [OF 1(1)] 1(2) show "logs_hang w"
      by (auto simp: logs_hang_def rounds_simps)
  next
    assume "logs_hang w"
    then obtain k where k: "60000 \<le> elapsed 500 w k" "stuck w (looks w + k)"
      "\<And>j. j < k \<Longrightarrow> elapsed 500 w j < 60000 \<and> \<not> publishes (fst (script w (looks w + j)))
         \<and> \<not> stuck w (looks w + j)" unfolding logs_hang_def by blast
    have "\<exists>e. poll port_check 500 (port_expire service port) (clock w + 60000) s (rounds 500 k w)
        = Some (Inl e, rounds 500 k w)" for s
      by (subst poll.simps) (use k(1) in \<open>simp add: rounds_simps\<close>)
    then have "\<exists>e. ?poll = Some (Inl e, rounds 500 k w)" by (simp add: Port_waits [OF k(3)])
    then show "\<exists>e w'. ?poll = Some (Inl e, w') \<and> stuck w' (looks w')"
      using k(2) by (auto simp: rounds_simps)
  qed
  moreover have "Port service port w = None \<longleftrightarrow> ?poll = None \<or> (\<exists>e w'. ?poll = Some (Inl e, w') \<and> stuck w' (looks w'))"
    unfolding Port_def by (auto split: option.split sum.split prod.split)
  ultimately show ?thesis using none by simp
qed

lemma StartPDPStub_never_back_iff: "StartPDPStub addr w = None \<longleftrightarrow> hangs_at (\<lambda>x. is_200 (fst x)) 50 5000 w"
  unfolding StartPDPStub_def stub.hangs_iff by (rule hangs_atI) (simp add: stub_check_def)

text \<open>C12: A wait through a client with a timeout always returns, whatever the outside does.
  The others, WaitFor with the caller's condition, the PDP stub's plain http.Get, the broker's
  own list and the docker commands of Port, fail to return exactly when a look started before
  the deadline never comes back (for Port also the logs it reads after it): the loops
  themselves never go round for ever.\<close>

theorem waits_return:
  "(\<exists>r. waitHealthy name url w2 = Some r) \<and> (\<exists>r. WaitHTTPHealthy name url t w4 = Some r)
   \<and> (\<exists>r. WaitForSubscriberHTTP base subject t w4 = Some r)
   \<and> (WaitFor what t w1 = None \<longleftrightarrow> hangs_at (\<lambda>b. b) 250 t w1)
   \<and> (StartPDPStub addr w3 = None \<longleftrightarrow> hangs_at (\<lambda>x. is_200 (fst x)) 50 5000 w3)
   \<and> (WaitForSubscriber subject t w5 = None \<longleftrightarrow> hangs_at (has_subscriber subject) 100 t w5)
   \<and> (Port service port w6 = None \<longleftrightarrow> hangs_at publishes 500 60000 w6 \<or> logs_hang w6)"
proof (intro conjI)
  show "\<exists>r. waitHealthy name url w2 = Some r" "\<exists>r. WaitHTTPHealthy name url t w4 = Some r"
    "\<exists>r. WaitForSubscriberHTTP base subject t w4 = Some r"
    unfolding waitHealthy_def boot_looks_def WaitHTTPHealthy_def WaitForSubscriberHTTP_def
    by (rule boot.returns_timed http_healthy.returns_timed subscriber_http.returns_timed)+
  show "WaitFor what t w1 = None \<longleftrightarrow> hangs_at (\<lambda>b. b) 250 t w1"
    unfolding WaitFor_def by (rule wait_for.never_back_iff)
  show "WaitForSubscriber subject t w5 = None \<longleftrightarrow> hangs_at (has_subscriber subject) 100 t w5"
    unfolding WaitForSubscriber_def by (rule subscriber.never_back_iff)
qed (rule StartPDPStub_never_back_iff Port_never_back_iff)+

text \<open>C13: WaitFor succeeds exactly when its condition holds at some look that starts before
  the deadline, no look up to it hanging; a condition that becomes true only later is a
  failure.\<close>

theorem WaitFor_succeeds_iff:
  "(\<exists>w'. WaitFor what timeout w = Some (Inr (), w')) =
     (\<exists>k. fst (script w (looks w + k)) \<and> elapsed 250 w k < timeout
        \<and> (\<forall>j \<le> k. \<not> stuck w (looks w + j)))"
  unfolding WaitFor_def by (rule wait_for.succeeds_iff)

text \<open>A condition that holds from its third look on, 500 ms into the wait.\<close>

definition ready_world :: "bool world" where
  "ready_world = \<lparr>clock = 40, looks = 0, script = (\<lambda>k. (2 \<le> k, 0)), oversleep = (\<lambda>_. 0),
     stuck = (\<lambda>_. False)\<rparr>"

lemma WaitFor_succeeds_iff_witness:
  "(\<exists>w'. WaitFor ''sinks'' 501 ready_world = Some (Inr (), w'))
    \<and> \<not> (\<exists>w'. WaitFor ''sinks'' 500 ready_world = Some (Inr (), w'))"
proof -
  have "elapsed 250 ready_world 2 = 500" by (simp add: ready_world_def numeral_2_eq_2)
  moreover have "500 \<le> elapsed 250 ready_world k" if "2 \<le> k" for k
    using elapsed_mono [OF that, of 250 ready_world] calculation by simp
  ultimately show ?thesis
    unfolding WaitFor_succeeds_iff by (auto simp: ready_world_def intro!: exI [of _ 2] dest: leD)
qed

text \<open>C14: waitHealthy reports a process that dies while booting at once, at the look that
  finds it gone, with that look's logs, and not after the 90 seconds.\<close>

theorem waitHealthy_reports_death:
  assumes "\<And>j. j < k \<Longrightarrow> \<not> Exited (fst (script w (looks w + j)))
      \<and> (stuck w (looks w + j) \<or> \<not> is_200 (BootReply (fst (script w (looks w + j)))))"
    and "Exited (fst (script w (looks w + k)))" and "elapsed 200 (boot_looks w) k < 90000"
  shows "waitHealthy name url w =
    Some (Inl (Fatalf ''node %s: exited during boot\<newline>--- stderr ---\<newline>%s\<newline>--- stdout ---\<newline>%s''
       [name, BootStderr (fst (script w (looks w + k))), BootStdout (fst (script w (looks w + k)))]),
      look (rounds 200 k (boot_looks w)))"
proof -
  have "waitHealthy name url w =
      poll (boot_check name) 200 (boot_expire name url) (clock w + 90000) () (rounds 200 k (boot_looks w))"
    unfolding waitHealthy_def
  proof (rule boot.decides [where st = "\<lambda>_. ()"])
    show "clock (boot_looks w) + elapsed 200 (boot_looks w) j < clock w + 90000" if "j < k" for j
      using assms(3) elapsed_mono [of j k 200 "boot_looks w"] that by simp
  qed (use assms(1) in \<open>auto simp: boot_check_def\<close>)
  then show ?thesis
    using assms(2,3) by (simp add: boot.unfold rounds_simps seen_def boot_check_def)
qed

text \<open>A process that is found gone at the second look of its boot, 200 ms in.\<close>

definition crash_script :: "nat \<Rightarrow> boot_look \<times> nat" where
  "crash_script k =
     (\<lparr>Exited = (1 \<le> k), BootReply = Get_error ''connection refused'', BootStderr = ''panic'',
       BootStdout = []\<rparr>, 3)"

definition crash_world :: "boot_look world" where
  "crash_world = \<lparr>clock = 7, looks = 0, script = crash_script, oversleep = (\<lambda>_. 1),
     stuck = (\<lambda>_. False)\<rparr>"

lemma waitHealthy_reports_death_witness:
  "waitHealthy ''acme-network'' ''http://127.0.0.1:18443/readyz'' crash_world =
    Some (Inl (Fatalf ''node %s: exited during boot\<newline>--- stderr ---\<newline>%s\<newline>--- stdout ---\<newline>%s''
       [''acme-network'', BootStderr (fst (script crash_world (looks crash_world + 1))),
        BootStdout (fst (script crash_world (looks crash_world + 1)))]),
      look (rounds 200 1 (boot_looks crash_world)))"
  by (rule waitHealthy_reports_death)
     (simp_all add: crash_world_def crash_script_def is_200_def boot_looks_id)

text \<open>A node that answers 200 in time before it is ever found gone passes.\<close>

theorem waitHealthy_passes:
  assumes "\<And>j. j \<le> k \<Longrightarrow> \<not> Exited (fst (script w (looks w + j)))"
    and "is_200 (BootReply (fst (script w (looks w + k))))" and "\<not> stuck w (looks w + k)"
    and "elapsed 200 (boot_looks w) k < 90000"
  shows "\<exists>w'. waitHealthy name url w = Some (Inr (), w')"
proof -
  let ?v = "boot_looks w"
  let ?ok = "\<lambda>k. is_200 (BootReply (fst (script ?v (looks w + k))))"
  define m where "m = (LEAST k. ?ok k)"
  have m: "?ok m" unfolding m_def by (rule LeastI [of ?ok k]) (simp add: assms)
  have mk: "m \<le> k" unfolding m_def by (rule Least_le) (simp add: assms)
  have less: "\<not> ?ok j" if "j < m" for j using not_less_Least [of j ?ok] that by (simp add: m_def)
  have time: "elapsed 200 ?v j < 90000" if "j \<le> m" for j
    using assms(4) elapsed_mono [of j k 200 ?v] mk that by simp
  have "waitHealthy name url w =
      poll (boot_check name) 200 (boot_expire name url) (clock w + 90000) () (rounds 200 m ?v)"
    unfolding waitHealthy_def
    by (rule boot.decides [where st = "\<lambda>_. ()"])
       (use less time assms(1) mk in \<open>auto simp: boot_check_def\<close>)
  then show ?thesis
    using m assms(1) [OF mk] time [of m]
    by (simp add: boot.unfold rounds_simps seen_def boot_check_def)
qed

definition boot_script :: "nat \<Rightarrow> boot_look \<times> nat" where
  "boot_script k =
     (\<lparr>Exited = (5 \<le> k), BootReply = Reply (if k < 2 then 503 else 200) (Some []),
       BootStderr = [], BootStdout = []\<rparr>, 3)"

definition boot_world :: "boot_look world" where
  "boot_world = \<lparr>clock = 0, looks = 0, script = boot_script, oversleep = (\<lambda>_. 1), stuck = (\<lambda>_. False)\<rparr>"

lemma waitHealthy_passes_witness:
  "\<exists>w'. waitHealthy ''acme-network'' ''http://127.0.0.1:18443/readyz'' boot_world = Some (Inr (), w')"
  by (rule waitHealthy_passes [where k = 2])
     (simp_all add: boot_world_def boot_script_def is_200_def numeral_2_eq_2 boot_looks_id)

text \<open>C15: The work of every wait is bounded by its budget: at most 450 looks for a boot, 100 for
  the PDP stub, 120 for a published port, and for each of the others its timeout over its
  interval, rounded up.\<close>

theorem waits_are_bounded:
  "(\<forall>r w'. waitHealthy name url w2 = Some (r, w') \<longrightarrow> looks w' \<le> looks w2 + 450)
   \<and> (\<forall>r w'. StartPDPStub addr w3 = Some (r, w') \<longrightarrow> looks w' \<le> looks w3 + 100)
   \<and> (\<forall>r w'. Port service port w6 = Some (r, w') \<longrightarrow> looks w' \<le> looks w6 + 120)
   \<and> (\<forall>r w'. WaitFor what t w1 = Some (r, w') \<longrightarrow> looks w' \<le> looks w1 + (t + 249) div 250)
   \<and> (\<forall>r w'. WaitHTTPHealthy name url t w4 = Some (r, w') \<longrightarrow> looks w' \<le> looks w4 + (t + 299) div 300)
   \<and> (\<forall>r w'. WaitForSubscriber subject t w5 = Some (r, w') \<longrightarrow> looks w' \<le> looks w5 + (t + 99) div 100)
   \<and> (\<forall>r w'. WaitForSubscriberHTTP base subject t w4 = Some (r, w') \<longrightarrow>
        looks w' \<le> looks w4 + (t + 199) div 200)"
proof (intro conjI allI impI)
  fix r w' assume "waitHealthy name url w2 = Some (r, w')"
  then show "looks w' \<le> looks w2 + 450"
    unfolding waitHealthy_def by (drule_tac boot.looks_bound) simp
next
  fix r w' assume "StartPDPStub addr w3 = Some (r, w')"
  then show "looks w' \<le> looks w3 + 100"
    unfolding StartPDPStub_def by (drule_tac stub.looks_bound) simp
next
  fix r w' assume "Port service port w6 = Some (r, w')"
  then show "looks w' \<le> looks w6 + 120"
    by (auto simp: Port_def split: option.splits prod.splits sum.splits if_splits dest!: published.looks_bound)
next
  fix r w' assume "WaitFor what t w1 = Some (r, w')"
  then show "looks w' \<le> looks w1 + (t + 249) div 250"
    unfolding WaitFor_def by (drule_tac wait_for.looks_bound) simp
next
  fix r w' assume "WaitHTTPHealthy name url t w4 = Some (r, w')"
  then show "looks w' \<le> looks w4 + (t + 299) div 300"
    unfolding WaitHTTPHealthy_def by (drule_tac http_healthy.looks_bound) simp
next
  fix r w' assume "WaitForSubscriber subject t w5 = Some (r, w')"
  then show "looks w' \<le> looks w5 + (t + 99) div 100"
    unfolding WaitForSubscriber_def by (drule_tac subscriber.looks_bound) simp
next
  fix r w' assume "WaitForSubscriberHTTP base subject t w4 = Some (r, w')"
  then show "looks w' \<le> looks w4 + (t + 199) div 200"
    unfolding WaitForSubscriberHTTP_def by (drule_tac subscriber_http.looks_bound) simp
qed

lemma boot_looks_world [simp]: "boot_looks boot_world = boot_world"
  by (rule boot_looks_id) (simp add: boot_world_def)

lemma boot_world_returns:
  "waitHealthy ''n'' ''u'' boot_world = Some (Inr (), look (rounds 200 2 boot_world))"
proof -
  have "waitHealthy ''n'' ''u'' boot_world =
      poll (boot_check ''n'') 200 (boot_expire ''n'' ''u'') (clock boot_world + 90000) ()
        (rounds 200 2 boot_world)"
    unfolding waitHealthy_def boot_looks_world
    by (rule boot.decides [where st = "\<lambda>_. ()", OF refl])
       (auto simp: boot_world_def boot_script_def boot_check_def is_200_def less_Suc_eq numeral_2_eq_2)
  then show ?thesis
    by (simp add: boot.unfold rounds_simps seen_def boot_check_def boot_world_def boot_script_def
        is_200_def numeral_2_eq_2)
qed

lemma waits_are_bounded_witness:
  "looks (look (rounds 200 2 boot_world)) \<le> looks boot_world + 450"
  by (rule waits_are_bounded [THEN conjunct1, rule_format, OF boot_world_returns])

lemma port_check_Done_iff:
  "port_check s x = Done a \<longleftrightarrow>
     PortErr x = None \<and> trim_space (PortOut x) \<noteq> [] \<and> a = normalize_addr (trim_space (PortOut x))"
  by (simp add: port_check_def Let_def eq_commute)

lemma normalize_addr_dialable:
  "\<not> has_prefix (normalize_addr a) ''0.0.0.0:'' \<and> \<not> has_prefix (normalize_addr a) ''[::]:''"
  by (auto simp: normalize_addr_def Let_def has_prefix_def)

lemma normalize_addr_not_Nil: "a \<noteq> [] \<Longrightarrow> normalize_addr a \<noteq> []"
  by (auto simp: normalize_addr_def Let_def)

text \<open>C16: An address Port returns was printed, without error, at some look of the command;
  it is not empty and never the wildcard address docker may print.\<close>

theorem Port_publishes:
  assumes "Port service port w = Some (Inr a, w')"
  shows "(\<exists>k. PortErr (fst (script w (looks w + k))) = None
        \<and> a = normalize_addr (trim_space (PortOut (fst (script w (looks w + k))))))
    \<and> a \<noteq> [] \<and> \<not> has_prefix a ''0.0.0.0:'' \<and> \<not> has_prefix a ''[::]:''"
proof -
  obtain k s' where "port_check s' (fst (script w (looks w + k))) = Done a"
    using published.done_source [of service port "clock w + 60000" None w a w'] assms
    unfolding Port_def by (auto split: option.splits prod.splits sum.splits if_splits)
  then have k: "PortErr (fst (script w (looks w + k))) = None"
    "trim_space (PortOut (fst (script w (looks w + k)))) \<noteq> []"
    "a = normalize_addr (trim_space (PortOut (fst (script w (looks w + k)))))"
    unfolding port_check_Done_iff by simp_all
  show ?thesis
  proof (intro conjI exI)
    show "PortErr (fst (script w (looks w + k))) = None" by (rule k)
    show "a = normalize_addr (trim_space (PortOut (fst (script w (looks w + k)))))" by (rule k)
    show "a \<noteq> []" unfolding k(3) by (rule normalize_addr_not_Nil [OF k(2)])
    show "\<not> has_prefix a ''0.0.0.0:''" "\<not> has_prefix a ''[::]:''"
      unfolding k(3) using normalize_addr_dialable by simp_all
  qed
qed

definition port_world :: "port_look world" where
  "port_world =
     \<lparr>clock = 0, looks = 0,
      script = (\<lambda>_. (\<lparr>PortOut = ''0.0.0.0:32768'', PortErr = None, PortLogs = Inr []\<rparr>, 10)),
      oversleep = (\<lambda>_. 0), stuck = (\<lambda>_. False)\<rparr>"

lemma port_world_returns: "Port s p port_world = Some (Inr ''127.0.0.1:32768'', look port_world)"
proof -
  have "trim_space ''0.0.0.0:32768'' = ''0.0.0.0:32768''"
    by (intro trimmed_trim_space trimmed_first_last) code_simp+
  moreover have "normalize_addr ''0.0.0.0:32768'' = ''127.0.0.1:32768''" by code_simp
  ultimately have "port_check None (seen port_world) = Done ''127.0.0.1:32768''"
    by (simp add: port_check_def seen_def port_world_def)
  then show ?thesis by (simp add: Port_def published.unfold port_world_def)
qed

lemma Port_publishes_witness:
  "(\<exists>k. PortErr (fst (script port_world (looks port_world + k))) = None
      \<and> ''127.0.0.1:32768'' =
        normalize_addr (trim_space (PortOut (fst (script port_world (looks port_world + k))))))
    \<and> ''127.0.0.1:32768'' \<noteq> [] \<and> \<not> has_prefix ''127.0.0.1:32768'' ''0.0.0.0:''
    \<and> \<not> has_prefix ''127.0.0.1:32768'' ''[::]:''"
  by (rule Port_publishes [OF port_world_returns])

end
