(* ===== verification/Process.thy ===== *)
theory Process
  imports Go_Text
begin

text \<open>
  \<^verbatim>\<open>internal/harness/node.go\<close> apart from its loops: the life of a node process under
  \<^verbatim>\<open>Stop\<close>, its log buffers, the sink lines read from them and, beside them, those of the
  compose runtime (\<^verbatim>\<open>compose.go\<close>), the search for the repository root, and the binaries
  built once per test binary.
\<close>

section \<open>Sink lines\<close>

text \<open>
  \<^verbatim>\<open>bufio.Scanner\<close> with \<^verbatim>\<open>ScanLines\<close>: the lines of a text, the last one only if it is
  not empty, a final carriage return dropped; a line that does not fit in the buffer of
  \<open>limit\<close> bytes ends the scan with an error the caller does not look at.
\<close>

definition scan_pieces :: "string \<Rightarrow> string list" where
  "scan_pieces s = (let ps = split_char nl s in if last ps = [] then butlast ps else ps)"

definition drop_cr :: "string \<Rightarrow> string" where
  "drop_cr l = trim_suffix l [CHR 0x0D]"

definition scan_lines :: "nat \<Rightarrow> string \<Rightarrow> string list" where
  "scan_lines limit s = map drop_cr (takeWhile (\<lambda>l. length l < limit) (scan_pieces s))"

definition max_line :: nat where
  "max_line = 16 * 1024 * 1024"

definition sink_filter :: "string list \<Rightarrow> string list" where
  "sink_filter ls = filter (\<lambda>l. has_prefix l ''{'') (map trim_space ls)"

definition Node_SinkLines :: "string \<Rightarrow> string list" where
  "Node_SinkLines stdout = sink_filter (scan_lines max_line stdout)"

definition Compose_SinkLines :: "string \<Rightarrow> string list" where
  "Compose_SinkLines logs = sink_filter (split_char nl logs)"

lemma space_seqs_last_cr: "p \<in> set space_seqs \<Longrightarrow> last p = CHR 0x0D \<Longrightarrow> p = [CHR 0x0D]"
proof -
  have "list_all (\<lambda>p. last p = CHR 0x0D \<longrightarrow> p = [CHR 0x0D]) space_seqs" by code_simp
  then show "p \<in> set space_seqs \<Longrightarrow> last p = CHR 0x0D \<Longrightarrow> p = [CHR 0x0D]"
    by (simp add: list_all_iff)
qed

lemma prefix_snoc_space:
  assumes "p \<in> set space_seqs" and "s \<noteq> []"
  shows "prefix p (s @ [CHR 0x0D]) \<longleftrightarrow> prefix p s"
proof
  assume "prefix p (s @ [CHR 0x0D])"
  then consider "prefix p s" | "p = s @ [CHR 0x0D]" by (auto simp: prefix_snoc)
  then show "prefix p s"
  proof cases
    case 2
    then show ?thesis using space_seqs_last_cr [OF assms(1)] assms(2) by simp
  qed
qed (simp add: prefix_snoc)

lemma strip_front_cr:
  "strip_seqs space_seqs (s @ [CHR 0x0D]) =
     (if strip_seqs space_seqs s = [] then [] else strip_seqs space_seqs s @ [CHR 0x0D])"
proof (induction s rule: length_induct)
  case (1 s)
  show ?case
  proof (cases "s = []")
    case True
    have "strip_seqs space_seqs [] = []"
      by (rule strip_seqs_id) (auto dest: space_seqs_not_Nil)
    moreover have "find (\<lambda>p. p \<noteq> [] \<and> prefix p [CHR 0x0D]) space_seqs = Some [CHR 0x0D]"
      by code_simp
    ultimately show ?thesis using True by (simp add: strip_seqs.simps [of _ "[CHR 0x0D]"])
  next
    case False
    have f: "find (\<lambda>p. p \<noteq> [] \<and> prefix p (s @ [CHR 0x0D])) space_seqs
        = find (\<lambda>p. p \<noteq> [] \<and> prefix p s) space_seqs"
      by (rule find_cong) (simp_all only: prefix_snoc_space [OF _ False])
    show ?thesis
    proof (cases "find (\<lambda>p. p \<noteq> [] \<and> prefix p s) space_seqs")
      case None
      then show ?thesis using f False by (simp add: strip_seqs_step)
    next
      case (Some p)
      then have p: "p \<noteq> []" "prefix p s" by (auto simp: find_Some_iff)
      have s: "strip_seqs space_seqs s = strip_seqs space_seqs (drop (length p) s)"
        using Some by (simp add: strip_seqs.simps [of _ s])
      have "strip_seqs space_seqs (s @ [CHR 0x0D])
          = strip_seqs space_seqs (drop (length p) s @ [CHR 0x0D])"
        using f Some p by (simp add: strip_seqs.simps [of _ "s @ [CHR 0x0D]"] prefix_length_le)
      moreover have "length (drop (length p) s) < length s" using p False by (cases p) auto
      ultimately show ?thesis using 1 s by simp
    qed
  qed
qed

lemma trim_space_cr: "trim_space (s @ [CHR 0x0D]) = trim_space s"
proof -
  have "find (\<lambda>p. p \<noteq> [] \<and> prefix p (CHR 0x0D # u)) (map rev space_seqs) = Some [CHR 0x0D]" for u
    by (simp add: space_seqs_def)
  then have "strip_seqs (map rev space_seqs) (CHR 0x0D # u) = strip_seqs (map rev space_seqs) u" for u
    by (simp add: strip_seqs.simps [of _ "CHR 0x0D # u"])
  moreover have "strip_seqs (map rev space_seqs) [] = []"
    by (rule strip_seqs_id) (auto dest: space_seqs_not_Nil)
  ultimately show ?thesis by (simp add: trim_space_def strip_front_cr)
qed

lemma trim_space_drop_cr [simp]: "trim_space (drop_cr l) = trim_space l"
  by (auto simp: drop_cr_def trim_suffix_def has_suffix_iff trim_space_cr)

lemma trim_space_Nil [simp]: "trim_space [] = []"
  by (rule trimmed_trim_space) (auto simp: trimmed_def dest: space_seqs_not_Nil)

lemma sink_filter_append [simp]: "sink_filter (a @ b) = sink_filter a @ sink_filter b"
  by (simp add: sink_filter_def)

lemma sink_filter_drop_cr: "sink_filter (map drop_cr ls) = sink_filter ls"
  by (simp add: sink_filter_def comp_def)

lemma sink_filter_pieces: "sink_filter (scan_pieces s) = sink_filter (split_char nl s)"
proof (cases "last (split_char nl s) = []")
  case True
  have "split_char nl s = butlast (split_char nl s) @ [[]]"
    using True by (metis append_butlast_last_id split_char_not_Nil)
  then have "sink_filter (split_char nl s) = sink_filter (butlast (split_char nl s)) @ sink_filter [[]]"
    by (metis sink_filter_append)
  moreover have "sink_filter [[]] = []" by (simp add: sink_filter_def has_prefix_def)
  ultimately show ?thesis using True by (simp add: scan_pieces_def)
qed (simp add: scan_pieces_def)

section \<open>Stopping a process\<close>

text \<open>
  A node process under \<^verbatim>\<open>Node.Stop\<close>.  \<open>alive\<close> is the process itself, \<open>waited\<close> that
  \<^verbatim>\<open>cmd.Wait\<close> has reaped it (from then on \<^verbatim>\<open>os.Process\<close> answers every signal with
  \<^verbatim>\<open>ErrProcessDone\<close> and sends none), \<open>closed\<close> the \<^verbatim>\<open>done\<close> channel, which the
  goroutine that waits closes some time later.  The caller is outside Stop, has just called
  it, is in the grace period with so many milliseconds waited, waits after the kill, or is
  back.  \<open>trail\<close> keeps what reached the process, and its reaping.
\<close>

datatype signal = Interrupt | Kill

datatype happening = Sent signal | Reaped

datatype stopper = Outside | Called | Grace nat | After_kill | Back

record node_state =
  started :: bool
  alive :: bool
  killed :: bool
  waited_for :: bool
  closed :: bool
  caller :: stopper
  trail :: "happening list"

definition grace_ms :: nat where
  "grace_ms = 10000"

text \<open>\<^verbatim>\<open>os.Process.Signal\<close> and \<^verbatim>\<open>Kill\<close>.\<close>

definition deliver :: "signal \<Rightarrow> node_state \<Rightarrow> node_state" where
  "deliver sg s =
     (if waited_for s then s
      else s\<lparr>killed := killed s \<or> sg = Kill, trail := trail s @ [Sent sg]\<rparr>)"

text \<open>
  Two relations.  What may happen or not: the process ends by itself or on the interrupt, or
  never does either; the test calls Stop, and goes on after it.  What happens once it can: a
  killed process dies, \<^verbatim>\<open>cmd.Wait\<close> returns, the channel is closed, time passes, and the
  caller takes its next step.  \<^verbatim>\<open>cmd.Wait\<close> also waits for the copies of the process's
  output to end: that they do, so that no child of the process outlives it with the pipes
  open, is assumed in \<open>reap\<close>.  A \<^verbatim>\<open>select\<close> with both cases ready picks either, so both
  steps are there.
\<close>

inductive free_step :: "node_state \<Rightarrow> node_state \<Rightarrow> bool" where
  exits: "alive s \<Longrightarrow> free_step s (s\<lparr>alive := False\<rparr>)"
| calls_stop: "caller s = Outside \<Longrightarrow> free_step s (s\<lparr>caller := Called\<rparr>)"
| goes_on: "caller s = Back \<Longrightarrow> free_step s (s\<lparr>caller := Outside\<rparr>)"

inductive must_step :: "node_state \<Rightarrow> node_state \<Rightarrow> bool" where
  dies: "alive s \<Longrightarrow> killed s \<Longrightarrow> must_step s (s\<lparr>alive := False\<rparr>)"
| reap: "started s \<Longrightarrow> \<not> alive s \<Longrightarrow> \<not> waited_for s \<Longrightarrow>
    must_step s (s\<lparr>waited_for := True, trail := trail s @ [Reaped]\<rparr>)"
| close_done: "waited_for s \<Longrightarrow> \<not> closed s \<Longrightarrow> must_step s (s\<lparr>closed := True\<rparr>)"
| stop_unstarted: "caller s = Called \<Longrightarrow> \<not> started s \<Longrightarrow> must_step s (s\<lparr>caller := Back\<rparr>)"
| stop_gone: "caller s = Called \<Longrightarrow> started s \<Longrightarrow> closed s \<Longrightarrow> must_step s (s\<lparr>caller := Back\<rparr>)"
| stop: "caller s = Called \<Longrightarrow> started s \<Longrightarrow> \<not> closed s \<Longrightarrow>
    must_step s ((deliver Interrupt s)\<lparr>caller := Grace 0\<rparr>)"
| wait: "caller s = Grace n \<Longrightarrow> n < grace_ms \<Longrightarrow> must_step s (s\<lparr>caller := Grace (Suc n)\<rparr>)"
| grace_done: "caller s = Grace n \<Longrightarrow> closed s \<Longrightarrow> must_step s (s\<lparr>caller := Back\<rparr>)"
| grace_over: "caller s = Grace grace_ms \<Longrightarrow> must_step s ((deliver Kill s)\<lparr>caller := After_kill\<rparr>)"
| kill_done: "caller s = After_kill \<Longrightarrow> closed s \<Longrightarrow> must_step s (s\<lparr>caller := Back\<rparr>)"

definition node_step :: "node_state \<Rightarrow> node_state \<Rightarrow> bool" where
  "node_step s t \<longleftrightarrow> free_step s t \<or> must_step s t"

inductive_cases free_stepE: "free_step s t"
inductive_cases must_stepE: "must_step s t"

text \<open>A node before its first Stop, with \<^verbatim>\<open>cmd.Process\<close> set or nil.\<close>

definition fresh_node :: "bool \<Rightarrow> node_state" where
  "fresh_node b = \<lparr>started = b, alive = b, killed = False, waited_for = False, closed = False,
     caller = Outside, trail = []\<rparr>"

inductive node_reachable :: "node_state \<Rightarrow> bool" where
  init: "node_reachable (fresh_node b)"
| step: "node_reachable s \<Longrightarrow> node_step s t \<Longrightarrow> node_reachable t"

text \<open>
  A run: one step after another, and rest only where nothing has to happen.  The process may
  never take a step of its own.
\<close>

definition node_run :: "(nat \<Rightarrow> node_state) \<Rightarrow> bool" where
  "node_run p \<longleftrightarrow>
     (\<forall>i. node_step (p i) (p (Suc i)) \<or> p (Suc i) = p i \<and> \<not> (\<exists>t. must_step (p i) t))"

definition gone :: "node_state \<Rightarrow> bool" where
  "gone s \<longleftrightarrow> \<not> alive s \<and> (started s \<longrightarrow> waited_for s \<and> closed s)"

definition sents :: "happening list \<Rightarrow> signal list" where
  "sents tr = concat (map (\<lambda>h. case h of Sent sg \<Rightarrow> [sg] | Reaped \<Rightarrow> []) tr)"

lemma sents_simps [simp]:
  "sents [] = []" "sents (tr @ [Sent sg]) = sents tr @ [sg]" "sents (tr @ [Reaped]) = sents tr"
  by (simp_all add: sents_def)

definition trail_ok :: "happening list \<Rightarrow> bool \<Rightarrow> bool" where
  "trail_ok tr reaped \<longleftrightarrow> tr = map Sent (sents tr) @ (if reaped then [Reaped] else [])"

lemma trail_ok_simps [simp]:
  "trail_ok [] False" "trail_ok tr False \<Longrightarrow> trail_ok (tr @ [Sent sg]) False"
  "trail_ok tr False \<Longrightarrow> trail_ok (tr @ [Reaped]) True"
  by (simp_all add: trail_ok_def)

text \<open>What a caller's place in Stop says of the signals, and of what became of the process.\<close>

fun place_ok :: "stopper \<Rightarrow> node_state \<Rightarrow> bool" where
  "place_ok Outside s \<longleftrightarrow> sents (trail s) = [] \<or> closed s"
| "place_ok Called s \<longleftrightarrow> sents (trail s) = [] \<or> closed s"
| "place_ok (Grace n) s \<longleftrightarrow> n \<le> grace_ms \<and> started s \<and> (sents (trail s) = [Interrupt] \<or> waited_for s)"
| "place_ok After_kill s \<longleftrightarrow> started s \<and> (killed s \<or> waited_for s)"
| "place_ok Back s \<longleftrightarrow> gone s"

definition node_inv :: "node_state \<Rightarrow> bool" where
  "node_inv s \<longleftrightarrow>
     (waited_for s \<longrightarrow> started s \<and> \<not> alive s) \<and> (closed s \<longrightarrow> waited_for s) \<and> (alive s \<longrightarrow> started s) \<and>
     (started s \<or> trail s = []) \<and> trail_ok (trail s) (waited_for s) \<and>
     sents (trail s) \<in> {[], [Interrupt], [Interrupt, Kill]} \<and> place_ok (caller s) s"

lemma place_ok_updates:
  "place_ok c (s\<lparr>caller := d\<rparr>) = place_ok c s"
  "place_ok c s \<Longrightarrow> place_ok c (s\<lparr>alive := False\<rparr>)"
  "place_ok c s \<Longrightarrow> place_ok c (s\<lparr>closed := True\<rparr>)"
  "place_ok c s \<Longrightarrow> place_ok c (s\<lparr>waited_for := True, trail := trail s @ [Reaped]\<rparr>)"
  by (cases c; auto simp: gone_def)+

lemma node_inv_free: "free_step s t \<Longrightarrow> node_inv s \<Longrightarrow> node_inv t"
proof (induction rule: free_step.induct)
  case (exits s)
  then have "\<not> waited_for s" by (simp add: node_inv_def)
  with exits show ?case by (simp add: node_inv_def place_ok_updates)
next
  case (calls_stop s)
  then show ?case by (simp add: node_inv_def)
next
  case (goes_on s)
  then show ?case 
    by (cases "started s"; cases "waited_for s"; cases "closed s"; simp add: node_inv_def gone_def)
qed

lemma node_inv_signal:
  "node_inv s \<Longrightarrow> \<not> waited_for s \<Longrightarrow> sents (trail s) @ [sg] \<in> {[Interrupt], [Interrupt, Kill]} \<Longrightarrow> started s \<Longrightarrow>
     place_ok c (deliver sg s) \<Longrightarrow> node_inv ((deliver sg s)\<lparr>caller := c\<rparr>)"
  by (auto simp: node_inv_def deliver_def place_ok_updates)

lemma node_inv_must: "must_step s t \<Longrightarrow> node_inv s \<Longrightarrow> node_inv t"
proof (induction rule: must_step.induct)
  case (stop s)
  show ?case
  proof (cases "waited_for s")
    case True
    then show ?thesis using stop by (auto simp: node_inv_def deliver_def)
  next
    case False
    then show ?thesis
      using stop by (intro node_inv_signal) (auto simp: node_inv_def deliver_def)
  qed
next
  case (grace_over s)
  show ?case
  proof (cases "waited_for s")
    case True
    then show ?thesis using grace_over by (auto simp: node_inv_def deliver_def)
  next
    case False
    then show ?thesis
      using grace_over by (intro node_inv_signal) (auto simp: node_inv_def deliver_def)
  qed
qed (auto simp: node_inv_def gone_def place_ok_updates)

lemma node_inv_fresh: "node_inv (fresh_node b)"
  by (simp add: node_inv_def fresh_node_def)

lemma node_inv_reachable: "node_reachable s \<Longrightarrow> node_inv s"
  by (induction rule: node_reachable.induct)
     (auto simp: node_step_def intro: node_inv_free node_inv_must node_inv_fresh)

text \<open>How far a call is from its end: every step inside it comes nearer.\<close>

fun stop_distance :: "stopper \<Rightarrow> nat" where
  "stop_distance Called = grace_ms + 3"
| "stop_distance (Grace n) = grace_ms - n + 2"
| "stop_distance After_kill = 1"
| "stop_distance c = 0"

definition node_measure :: "node_state \<Rightarrow> nat" where
  "node_measure s = of_bool (alive s) + of_bool (\<not> waited_for s) + of_bool (\<not> closed s) + stop_distance (caller s)"

definition inside :: "node_state \<Rightarrow> bool" where
  "inside s \<longleftrightarrow> caller s \<noteq> Outside \<and> caller s \<noteq> Back"

lemma step_nearer: "node_step s t \<Longrightarrow> inside s \<Longrightarrow> node_measure t < node_measure s"
  unfolding node_step_def
  by (elim disjE free_stepE must_stepE) (auto simp: node_measure_def inside_def deliver_def)

lemma step_stays: "node_step s t \<Longrightarrow> inside s \<Longrightarrow> inside t \<or> caller t = Back"
  unfolding node_step_def
  by (elim disjE free_stepE must_stepE) (auto simp: inside_def deliver_def)

lemma node_measure_le: "node_measure s \<le> stop_distance (caller s) + 3"
  by (simp add: node_measure_def)

lemma step_possible:
  assumes "node_inv s" and "inside s"
  shows "\<exists>t. must_step s t"
proof (cases "caller s")
  case Called
  then show ?thesis using stop_unstarted stop_gone stop by blast
next
  case (Grace n)
  then have "n \<le> grace_ms" using assms(1) by (auto simp: node_inv_def)
  then show ?thesis using wait [OF Grace] grace_over [of s] Grace by (cases "n = grace_ms") auto
next
  case After_kill
  then have "started s" "killed s \<or> waited_for s" using assms(1) by (auto simp: node_inv_def)
  then show ?thesis using dies reap close_done kill_done [OF After_kill] by blast
qed (use assms(2) in \<open>auto simp: inside_def\<close>)

lemma run_reachable: "node_run p \<Longrightarrow> node_reachable (p 0) \<Longrightarrow> node_reachable (p i)"
proof (induction i)
  case (Suc i)
  then show ?case unfolding node_run_def by (metis step)
qed

section \<open>The log buffer\<close>

text \<open>
  Writers and readers of a \<^verbatim>\<open>LogBuffer\<close> hold its mutex for the whole of their call, so a
  run is a sequence of calls; the result of a run is what each read returned.
\<close>

datatype log_call = Write string | Read

fun log_run :: "string \<Rightarrow> log_call list \<Rightarrow> string list \<times> string" where
  "log_run buf [] = ([], buf)"
| "log_run buf (Write p # cs) = log_run (buf @ p) cs"
| "log_run buf (Read # cs) = (case log_run buf cs of (rs, b) \<Rightarrow> (buf # rs, b))"

lemma log_run_buffer: "snd (log_run buf cs) = buf @ concat (map (\<lambda>c. case c of Write p \<Rightarrow> p | Read \<Rightarrow> []) cs)"
  by (induction buf cs rule: log_run.induct) (auto split: prod.splits)

lemma log_run_prefix: "r \<in> set (fst (log_run buf cs)) \<Longrightarrow> prefix buf r \<and> prefix r (snd (log_run buf cs))"
proof (induction buf cs arbitrary: r rule: log_run.induct)
  case (2 buf p cs)
  then show ?case by (auto dest: append_prefixD)
next
  case (3 buf cs)
  then show ?case using log_run_buffer [of buf cs] by (auto split: prod.splits)
qed simp

lemma log_run_sorted: "sorted_wrt prefix (fst (log_run buf cs))"
proof (induction buf cs rule: log_run.induct)
  case (3 buf cs)
  then show ?case using log_run_prefix [of _ buf cs] by (auto split: prod.splits)
qed simp_all


section \<open>The repository root\<close>

text \<open>\<^verbatim>\<open>filepath.Dir\<close>.\<close>

definition path_dir :: "string \<Rightarrow> string" where
  "path_dir s = path_clean (rev (dropWhile (\<lambda>c. c \<noteq> slash) (rev s)))"

text \<open>
  \<open>exists\<close> says which paths \<^verbatim>\<open>os.Stat\<close> finds.  None would be a walk that never ends.
\<close>

partial_function (option) walk_up :: "(string \<Rightarrow> bool) \<Rightarrow> string \<Rightarrow> string outcome option" where
  [code]: "walk_up exists dir =
     (if exists (path_join [dir, ''go.mod'']) then Some (Inr dir)
      else if path_dir dir = dir
      then Some (Inl (Fatalf ''repo root (go.mod) not found above CWD'' []))
      else walk_up exists (path_dir dir))"

definition repoRoot :: "string outcome \<Rightarrow> (string \<Rightarrow> bool) \<Rightarrow> string outcome option" where
  "repoRoot getwd exists =
     (case getwd of Inl e \<Rightarrow> Some (Inl e) | Inr dir \<Rightarrow> walk_up exists dir)"

lemma path_dir_abs:
  assumes "\<forall>x \<in> set (segs @ [x]). plain_seg x"
  shows "path_dir (abs_path (segs @ [x])) = abs_path segs"
proof -
  have x: "slash \<notin> set x" using assms by (simp add: plain_seg_def)
  have "rev (dropWhile (\<lambda>c. c \<noteq> slash) (rev (abs_path (segs @ [x]))))
      = (if segs = [] then ''/'' else abs_path segs @ ''/'')"
  proof (cases "segs = []")
    case True
    have "dropWhile (\<lambda>c. c \<noteq> slash) (rev x @ [slash]) = [slash]"
      using x by (subst dropWhile_append2) auto
    then show ?thesis using True by (simp add: abs_path_def)
  next
    case False
    have "dropWhile (\<lambda>c. c \<noteq> slash) (rev x @ slash # u) = slash # u" for u
      using x by (subst dropWhile_append2) auto
    then show ?thesis using False by (simp add: abs_path_def join_snoc)
  qed
  moreover have "path_clean ''/'' = ''/''" by code_simp
  ultimately show ?thesis
    using path_clean_abs_slash [of segs] assms by (auto simp: path_dir_def abs_path_def)
qed

lemma path_dir_root: "path_dir (abs_path []) = abs_path []"
  unfolding abs_path_def by code_simp

lemma plain_go_mod: "plain_seg ''go.mod''"
  by (simp add: plain_seg_def)

lemma path_join_go_mod:
  assumes "\<forall>x \<in> set segs. plain_seg x"
  shows "path_join [abs_path segs, ''go.mod''] = abs_path (segs @ [''go.mod''])"
proof (cases "segs = []")
  case True
  have "path_join [''/'', ''go.mod''] = ''/go.mod''" by code_simp
  then show ?thesis using True by (simp add: abs_path_def)
next
  case False
  then show ?thesis using path_join_abs [OF False assms, of "[''go.mod'']"] plain_go_mod by simp
qed

text \<open>The largest number up to \<open>n\<close> with a property.\<close>

fun nearest :: "(nat \<Rightarrow> bool) \<Rightarrow> nat \<Rightarrow> nat option" where
  "nearest P 0 = (if P 0 then Some 0 else None)"
| "nearest P (Suc n) = (if P (Suc n) then Some (Suc n) else nearest P n)"

lemma nearest_cong: "(\<And>k. k \<le> n \<Longrightarrow> P k = Q k) \<Longrightarrow> nearest P n = nearest Q n"
  by (induction n) auto

lemma nearest_Some:
  "nearest P n = Some k \<Longrightarrow> k \<le> n \<and> P k \<and> (\<forall>j. k < j \<and> j \<le> n \<longrightarrow> \<not> P j)"
  by (induction n) (auto split: if_splits simp: le_Suc_eq)

lemma nearest_None: "nearest P n = None \<longleftrightarrow> (\<forall>k \<le> n. \<not> P k)"
  by (induction n) (auto simp: le_Suc_eq)

text \<open>The walk finds the nearest directory, at or above the start, that holds a \<^verbatim>\<open>go.mod\<close>.\<close>

lemma walk_up_abs:
  assumes "\<forall>x \<in> set segs. plain_seg x"
  shows "walk_up exists (abs_path segs) =
    Some (case nearest (\<lambda>n. exists (abs_path (take n segs @ [''go.mod'']))) (length segs) of
            None \<Rightarrow> Inl (Fatalf ''repo root (go.mod) not found above CWD'' [])
          | Some n \<Rightarrow> Inr (abs_path (take n segs)))"
  using assms
proof (induction segs rule: rev_induct)
  case Nil
  show ?case
    by (subst walk_up.simps) (simp add: path_join_go_mod [of "[]", simplified] path_dir_root)
next
  case (snoc x segs)
  let ?P = "\<lambda>segs n. exists (abs_path (take n segs @ [''go.mod'']))"
  have ne: "abs_path segs \<noteq> abs_path (segs @ [x])"
  proof
    assume "abs_path segs = abs_path (segs @ [x])"
    then have "join segs ''/'' = join (segs @ [x]) ''/''" by (simp add: abs_path_def)
    then have "length (join segs ''/'') = length (join (segs @ [x]) ''/'')" by simp
    moreover have "x \<noteq> []" using snoc.prems by (simp add: plain_seg_def)
    ultimately show False by (cases "segs = []") (simp_all add: join_snoc)
  qed
  have step: "walk_up exists (abs_path (segs @ [x])) =
      (if exists (abs_path (segs @ [x, ''go.mod''])) then Some (Inr (abs_path (segs @ [x])))
       else walk_up exists (abs_path segs))"
    using path_dir_abs [OF snoc.prems] path_join_go_mod [OF snoc.prems] ne
    by (subst walk_up.simps) simp
  show ?case
  proof (cases "exists (abs_path (segs @ [x, ''go.mod'']))")
    case True
    then show ?thesis by (simp add: step)
  next
    case False
    have eq: "nearest (?P (segs @ [x])) (length segs) = nearest (?P segs) (length segs)"
      by (rule nearest_cong) simp
    have "nearest (?P (segs @ [x])) (length (segs @ [x])) = nearest (?P segs) (length segs)"
      using False by (simp add: eq [simplified])
    moreover have "nearest (?P segs) (length segs) = Some n \<Longrightarrow> take n (segs @ [x]) = take n segs" for n
      using nearest_Some [of "?P segs" "length segs" n] by simp
    ultimately show ?thesis
      using False snoc by (auto simp: step split: option.split)
  qed
qed

section \<open>Building the binaries once\<close>

text \<open>
  The package variables behind \<^verbatim>\<open>sync.Once\<close>.  A run of the function that does not come
  back, because \<^verbatim>\<open>repoRoot\<close> ends the test, has used the once up all the same.
  \<open>go_build out pkg\<close> is the error \<^verbatim>\<open>go build\<close> ends with, if it fails.
\<close>

record build_state =
  binariesOnce :: bool
  networkBinPath :: string
  pipelineBinPath :: string
  buildBinariesErr :: "string option"
  cliOnce :: bool
  cliPath :: string
  cliErr :: "string option"

definition build_binaries ::
  "string outcome \<Rightarrow> string \<Rightarrow> string option \<Rightarrow> (string \<Rightarrow> string \<Rightarrow> string option) \<Rightarrow>
     build_state \<Rightarrow> fatal option \<times> build_state" where
  "build_binaries root arg0 mkdir go_build s =
     (case root of
        Inl e \<Rightarrow> (Some e, s)
      | Inr r \<Rightarrow>
          let suffix = path_base arg0;
              netOut = path_join [r, ''.tmp'', ''network-'' @ suffix];
              pipeOut = path_join [r, ''.tmp'', ''pipeline-'' @ suffix]
          in
            (case mkdir of
               Some e \<Rightarrow> (None, s\<lparr>buildBinariesErr := Some e\<rparr>)
             | None \<Rightarrow>
                 (case go_build netOut ''./cmd/network'' of
                    Some e \<Rightarrow> (None, s\<lparr>buildBinariesErr := Some e\<rparr>)
                  | None \<Rightarrow>
                      (case go_build pipeOut ''./cmd/pipeline'' of
                         Some e \<Rightarrow> (None, s\<lparr>buildBinariesErr := Some e\<rparr>)
                       | None \<Rightarrow> (None, s\<lparr>networkBinPath := netOut, pipelineBinPath := pipeOut\<rparr>)))))"

definition BuildBinaries ::
  "string outcome \<Rightarrow> string \<Rightarrow> string option \<Rightarrow> (string \<Rightarrow> string \<Rightarrow> string option) \<Rightarrow>
     (build_state, string \<times> string) prog" where
  "BuildBinaries root arg0 mkdir go_build s =
     (let (aborted, s1) =
        (if binariesOnce s then (None, s)
         else build_binaries root arg0 mkdir go_build (s\<lparr>binariesOnce := True\<rparr>))
      in
        case aborted of
          Some e \<Rightarrow> (Inl e, s1)
        | None \<Rightarrow>
            (case buildBinariesErr s1 of
               Some e \<Rightarrow> (Inl (Fatalf ''BuildBinaries: %v'' [e]), s1)
             | None \<Rightarrow> (Inr (networkBinPath s1, pipelineBinPath s1), s1)))"

definition build_cli ::
  "string outcome \<Rightarrow> string \<Rightarrow> string option \<Rightarrow> (string \<Rightarrow> string \<Rightarrow> string option) \<Rightarrow>
     build_state \<Rightarrow> fatal option \<times> build_state" where
  "build_cli root arg0 mkdir go_build s =
     (case root of
        Inl e \<Rightarrow> (Some e, s)
      | Inr r \<Rightarrow>
          let out = path_join [r, ''.tmp'', ''provin-'' @ path_base arg0] in
          (case mkdir of
             Some e \<Rightarrow> (None, s\<lparr>cliErr := Some e\<rparr>)
           | None \<Rightarrow>
               (case go_build out ''./cmd/provin'' of
                  Some e \<Rightarrow> (None, s\<lparr>cliErr := Some e\<rparr>)
                | None \<Rightarrow> (None, s\<lparr>cliPath := out\<rparr>))))"

definition BuildProvinCLI ::
  "string outcome \<Rightarrow> string \<Rightarrow> string option \<Rightarrow> (string \<Rightarrow> string \<Rightarrow> string option) \<Rightarrow>
     (build_state, string) prog" where
  "BuildProvinCLI root arg0 mkdir go_build s =
     (let (aborted, s1) =
        (if cliOnce s then (None, s) else build_cli root arg0 mkdir go_build (s\<lparr>cliOnce := True\<rparr>))
      in
        case aborted of
          Some e \<Rightarrow> (Inl e, s1)
        | None \<Rightarrow>
            (case cliErr s1 of
               Some e \<Rightarrow> (Inl (Fatalf ''BuildProvinCLI: %v'' [e]), s1)
             | None \<Rightarrow> (Inr (cliPath s1), s1)))"

definition fresh_build :: build_state where
  "fresh_build = \<lparr>binariesOnce = False, networkBinPath = [], pipelineBinPath = [],
     buildBinariesErr = None, cliOnce = False, cliPath = [], cliErr = None\<rparr>"

section \<open>Reserving a port\<close>

definition FreePort :: "nat outcome \<Rightarrow> string outcome" where
  "FreePort listen = (case listen of Inl e \<Rightarrow> Inl e | Inr port \<Rightarrow> Inr (CHR '':'' # nat_str port))"

section \<open>Properties\<close>

text \<open>C17: Both runtimes read the same sink records from the same output, as long as no line
  reaches the 16 MiB the process runtime's scanner can hold.\<close>

theorem sink_lines_agree:
  assumes "\<forall>l \<in> set (split_char nl out). length l < max_line"
  shows "Node_SinkLines out = Compose_SinkLines out"
proof -
  have "set (scan_pieces out) \<subseteq> set (split_char nl out)"
    by (auto simp: scan_pieces_def Let_def dest: in_set_butlastD)
  then have "takeWhile (\<lambda>l. length l < max_line) (scan_pieces out) = scan_pieces out"
    using assms by (subst takeWhile_eq_all_conv) blast
  then show ?thesis
    unfolding Node_SinkLines_def Compose_SinkLines_def scan_lines_def
    by (simp only: sink_filter_drop_cr sink_filter_pieces)
qed

lemma sink_lines_agree_witness:
  "Node_SinkLines (''{1}'' @ [CHR 0x0D, nl] @ ''log'' @ nl # '' {2}'')
     = Compose_SinkLines (''{1}'' @ [CHR 0x0D, nl] @ ''log'' @ nl # '' {2}'')"
  by (rule sink_lines_agree) (simp add: max_line_def)

text \<open>C18: A line of 16 MiB or more silently hides itself and every later record from the
  process runtime, while the compose runtime still reports all of them.\<close>

theorem sink_lines_truncated:
  assumes "\<forall>l \<in> set (split_char nl a). length l < max_line"
    and "max_line \<le> length long" and "nl \<notin> set long"
  shows "Node_SinkLines (a @ nl # long @ nl # b) = Compose_SinkLines a
    \<and> Compose_SinkLines (a @ nl # long @ nl # b)
      = Compose_SinkLines a @ sink_filter [long] @ Compose_SinkLines b"
proof -
  have split: "split_char nl (x @ nl # y) = split_char nl x @ split_char nl y" for x y
  proof (induction x)
    case (Cons c x)
    then show ?case by (cases "split_char nl x") auto
  qed simp
  have all: "split_char nl (a @ nl # long @ nl # b) = split_char nl a @ long # split_char nl b"
    using assms(3) by (simp add: split split_char_absent)
  obtain r where r: "scan_pieces (a @ nl # long @ nl # b) = split_char nl a @ long # r"
    by (cases "last (split_char nl b) = []") (auto simp: scan_pieces_def all Let_def butlast_append)
  have "takeWhile (\<lambda>l. length l < max_line) (split_char nl a @ long # r) = split_char nl a"
    using assms(1,2) by (intro takeWhile_append_stop) auto
  then show ?thesis
    by (simp add: Node_SinkLines_def Compose_SinkLines_def scan_lines_def r all sink_filter_drop_cr)
       (simp add: sink_filter_def)
qed

lemma sink_lines_truncated_witness:
  "Node_SinkLines (''{1}'' @ nl # replicate max_line (CHR ''x'') @ nl # ''{2}'') = Compose_SinkLines ''{1}''
    \<and> Compose_SinkLines (''{1}'' @ nl # replicate max_line (CHR ''x'') @ nl # ''{2}'')
      = Compose_SinkLines ''{1}'' @ sink_filter [replicate max_line (CHR ''x'')] @ Compose_SinkLines ''{2}''"
  by (rule sink_lines_truncated) (simp_all add: max_line_def)

text \<open>C19: Stop signals only a process that was started and is not yet reaped: whenever the
  process dies by itself and however often Stop is called, what reaches the process is nothing,
  one interrupt, or one interrupt and then one kill, all of it before the reaping; and when
  Stop is back the process is gone and reaped.\<close>

theorem stop_safe:
  assumes "node_reachable s"
  shows "(\<exists>sent \<in> {[], [Interrupt], [Interrupt, Kill]}. trail s = map Sent sent @ (if waited_for s then [Reaped] else []))
    \<and> (\<not> started s \<longrightarrow> trail s = [])
    \<and> (caller s = Back \<longrightarrow> \<not> alive s \<and> (started s \<longrightarrow> waited_for s \<and> closed s))"
proof -
  have inv: "node_inv s" by (rule node_inv_reachable [OF assms])
  have "trail s = map Sent (sents (trail s)) @ (if waited_for s then [Reaped] else [])"
    using inv unfolding node_inv_def trail_ok_def by blast
  moreover have "sents (trail s) \<in> {[], [Interrupt], [Interrupt, Kill]}" "started s \<or> trail s = []"
    "caller s = Back \<longrightarrow> gone s"
    using inv unfolding node_inv_def by auto
  ultimately show ?thesis unfolding gone_def by blast
qed

text \<open>A process that dies, and is reaped, while Stop is on its way to the interrupt.\<close>

definition late_stop :: node_state where
  "late_stop = (fresh_node True)\<lparr>alive := False, waited_for := True, trail := [Reaped], caller := Grace 0\<rparr>"

lemma late_stop_reachable: "node_reachable late_stop"
proof -
  let ?a = "(fresh_node True)\<lparr>caller := Called\<rparr>"
  let ?b = "?a\<lparr>alive := False\<rparr>"
  let ?c = "?b\<lparr>waited_for := True, trail := trail ?b @ [Reaped]\<rparr>"
  have "node_step (fresh_node True) ?a" unfolding node_step_def by (rule disjI1, rule calls_stop) (simp add: fresh_node_def)
  then have a: "node_reachable ?a" by (rule step [OF init])
  have "node_step ?a ?b" unfolding node_step_def by (rule disjI1, rule exits) (simp add: fresh_node_def)
  then have b: "node_reachable ?b" by (rule step [OF a])
  have "node_step ?b ?c" unfolding node_step_def by (rule disjI2, rule reap) (simp_all add: fresh_node_def)
  then have c: "node_reachable ?c" by (rule step [OF b])
  have "node_step ?c ((deliver Interrupt ?c)\<lparr>caller := Grace 0\<rparr>)"
    unfolding node_step_def by (rule disjI2, rule stop) (simp_all add: fresh_node_def)
  from step [OF c this] show ?thesis by (simp add: deliver_def late_stop_def fresh_node_def)
qed

lemma stop_safe_witness:
  "(\<exists>sent \<in> {[], [Interrupt], [Interrupt, Kill]}.
      trail late_stop = map Sent sent @ (if waited_for late_stop then [Reaped] else []))
    \<and> trail late_stop = [Reaped] \<and> caller late_stop = Grace 0"
  using stop_safe [OF late_stop_reachable] by (simp add: late_stop_def fresh_node_def)

lemma stop_returns_within:
  assumes "node_run p" and "\<And>i. node_inv (p i)" and "inside (p k)"
  shows "\<exists>i \<le> k + node_measure (p k). caller (p i) = Back"
  using assms(3)
proof (induction "node_measure (p k)" arbitrary: k rule: less_induct)
  case less
  have s: "node_step (p k) (p (Suc k))"
    using assms(1) step_possible [OF assms(2) less.prems] unfolding node_run_def by blast
  have m: "node_measure (p (Suc k)) < node_measure (p k)" by (rule step_nearer [OF s less.prems])
  show ?case
  proof (cases "caller (p (Suc k)) = Back")
    case True
    then show ?thesis using m by (intro exI [of _ "Suc k"]) simp
  next
    case False
    then have "inside (p (Suc k))" using step_stays [OF s less.prems] by simp
    from less.hyps [OF m this] obtain i where "i \<le> Suc k + node_measure (p (Suc k))" "caller (p i) = Back" by blast
    then show ?thesis using m by (intro exI [of _ i]) simp
  qed
qed

text \<open>C20: Stop always comes back: on every run from every reachable state inside a call, also
  when the process ignores the interrupt and never ends by itself, the call is back, the
  process gone and reaped, after at most the 10 000 ms of grace and six further steps.\<close>

theorem stop_returns:
  assumes "node_run p" and "node_reachable (p 0)" and "caller (p 0) \<noteq> Outside"
  shows "\<exists>i \<le> 10000 + 6. caller (p i) = Back \<and> \<not> alive (p i)
    \<and> (started (p i) \<longrightarrow> waited_for (p i) \<and> closed (p i))"
proof -
  have inv: "node_inv (p i)" for i by (rule node_inv_reachable) (rule run_reachable [OF assms(1,2)])
  have "\<exists>i \<le> 10000 + 6. caller (p i) = Back"
  proof (cases "caller (p 0) = Back")
    case False
    then have "inside (p 0)" using assms(3) by (simp add: inside_def)
    moreover have "node_measure (p 0) \<le> 10000 + 6"
      by (rule le_trans [OF node_measure_le]) (cases "caller (p 0)"; simp add: grace_ms_def)
    ultimately show ?thesis using stop_returns_within [OF assms(1) inv, of 0]
      by (metis add_0 le_trans)
  qed auto
  then obtain i where i: "i \<le> 10000 + 6" "caller (p i) = Back" by blast
  then have "gone (p i)" using inv [of i] by (auto simp: node_inv_def)
  with i show ?thesis by (auto simp: gone_def)
qed

text \<open>A process that ignores the interrupt: the grace period runs out, the kill ends it.\<close>

definition stubborn_run :: "nat \<Rightarrow> node_state" where
  "stubborn_run i =
     (let n = (fresh_node True)\<lparr>caller := Called\<rparr>;
          k = n\<lparr>caller := After_kill, killed := True, trail := [Sent Interrupt, Sent Kill]\<rparr>;
          r = k\<lparr>alive := False, waited_for := True, trail := trail k @ [Reaped]\<rparr> in
      if i = 0 then n
      else if i \<le> grace_ms + 1 then n\<lparr>caller := Grace (i - 1), trail := [Sent Interrupt]\<rparr>
      else if i = grace_ms + 2 then k
      else if i = grace_ms + 3 then k\<lparr>alive := False\<rparr>
      else if i = grace_ms + 4 then r
      else if i = grace_ms + 5 then r\<lparr>closed := True\<rparr>
      else r\<lparr>closed := True, caller := Back\<rparr>)"

lemma stubborn_next:
  "node_step (stubborn_run i) (stubborn_run (Suc i))
   \<or> stubborn_run (Suc i) = stubborn_run i \<and> \<not> (\<exists>t. must_step (stubborn_run i) t)"
proof -
  consider "i = 0" | "0 < i \<and> i \<le> grace_ms" | "i = grace_ms + 1" | "i = grace_ms + 2" | "i = grace_ms + 3"
    | "i = grace_ms + 4" | "i = grace_ms + 5" | "grace_ms + 6 \<le> i" by linarith
  then show ?thesis
  proof cases
    case 1
    then show ?thesis using stop [of "stubborn_run 0"]
      by (simp add: stubborn_run_def Let_def fresh_node_def deliver_def node_step_def grace_ms_def)
  next
    case 2
    then obtain j where j: "i = Suc j" "j < grace_ms" by (cases i) auto
    then show ?thesis using wait [of "stubborn_run i" j]
      by (simp add: stubborn_run_def Let_def fresh_node_def node_step_def)
  next
    case 3
    then show ?thesis using grace_over [of "stubborn_run i"]
      by (simp add: stubborn_run_def Let_def fresh_node_def deliver_def node_step_def)
  next
    case 4
    then show ?thesis using dies [of "stubborn_run i"]
      by (simp add: stubborn_run_def Let_def fresh_node_def node_step_def)
  next
    case 5
    then show ?thesis using reap [of "stubborn_run i"]
      by (simp add: stubborn_run_def Let_def fresh_node_def node_step_def)
  next
    case 6
    then show ?thesis using close_done [of "stubborn_run i"]
      by (simp add: stubborn_run_def Let_def fresh_node_def node_step_def)
  next
    case 7
    then show ?thesis using kill_done [of "stubborn_run i"]
      by (simp add: stubborn_run_def Let_def fresh_node_def node_step_def)
  next
    case 8
    then show ?thesis
      by (auto simp: stubborn_run_def Let_def fresh_node_def elim: must_stepE)
  qed
qed

lemma stop_returns_witness:
  "\<exists>i \<le> 10000 + 6. caller (stubborn_run i) = Back \<and> \<not> alive (stubborn_run i)
    \<and> (started (stubborn_run i) \<longrightarrow> waited_for (stubborn_run i) \<and> closed (stubborn_run i))"
proof (rule stop_returns)
  show "node_run stubborn_run" unfolding node_run_def by (rule allI) (rule stubborn_next)
  have "node_step (fresh_node True) (stubborn_run 0)"
    using calls_stop [of "fresh_node True"] by (simp add: node_step_def stubborn_run_def Let_def fresh_node_def)
  then show "node_reachable (stubborn_run 0)" by (rule step [OF init])
qed (simp add: stubborn_run_def Let_def)

text \<open>Reads of a log buffer never lose or reorder output: of two reads the earlier is a
  prefix of the later, and all are prefixes of everything written.\<close>

theorem log_reads_grow:
  "sorted_wrt prefix (fst (log_run [] cs))
   \<and> (\<forall>r \<in> set (fst (log_run [] cs)).
        prefix r (concat (map (\<lambda>c. case c of Write p \<Rightarrow> p | Read \<Rightarrow> []) cs)))"
  using log_run_sorted [of "[]" cs] log_run_prefix [of _ "[]" cs] log_run_buffer [of "[]" cs]
  by simp

text \<open>C21: repoRoot always ends, with the nearest directory at or above the working directory
  that holds a go.mod, or, when there is none up to the root, with its abort.\<close>

theorem repoRoot_nearest:
  assumes "\<forall>x \<in> set segs. plain_seg x"
  shows "\<exists>r. repoRoot (Inr (abs_path segs)) exists = Some r
    \<and> (case r of
         Inl e \<Rightarrow> (\<forall>n \<le> length segs. \<not> exists (abs_path (take n segs @ [''go.mod''])))
       | Inr d \<Rightarrow> (\<exists>n \<le> length segs. d = abs_path (take n segs)
             \<and> exists (abs_path (take n segs @ [''go.mod'']))
             \<and> (\<forall>m. n < m \<and> m \<le> length segs \<longrightarrow> \<not> exists (abs_path (take m segs @ [''go.mod''])))))"
proof (cases "nearest (\<lambda>n. exists (abs_path (take n segs @ [''go.mod'']))) (length segs)")
  case None
  then show ?thesis
    using iffD1 [OF nearest_None None] by (simp add: repoRoot_def walk_up_abs [OF assms] None)
next
  case (Some n)
  then show ?thesis
    using walk_up_abs [OF assms, of exists] nearest_Some [OF Some] by (auto simp: repoRoot_def)
qed

lemma repoRoot_nearest_witness:
  "\<exists>r. repoRoot (Inr (abs_path [''src'', ''e2e'', ''scenarios''])) (\<lambda>p. p = ''/src/e2e/go.mod'') = Some r
    \<and> (case r of
         Inl e \<Rightarrow> (\<forall>n \<le> length [''src'', ''e2e'', ''scenarios'']. \<not> (\<lambda>p. p = ''/src/e2e/go.mod'')
             (abs_path (take n [''src'', ''e2e'', ''scenarios''] @ [''go.mod''])))
       | Inr d \<Rightarrow> (\<exists>n \<le> length [''src'', ''e2e'', ''scenarios''].
             d = abs_path (take n [''src'', ''e2e'', ''scenarios''])
             \<and> (\<lambda>p. p = ''/src/e2e/go.mod'') (abs_path (take n [''src'', ''e2e'', ''scenarios''] @ [''go.mod'']))
             \<and> (\<forall>m. n < m \<and> m \<le> length [''src'', ''e2e'', ''scenarios''] \<longrightarrow>
                  \<not> (\<lambda>p. p = ''/src/e2e/go.mod'')
                    (abs_path (take m [''src'', ''e2e'', ''scenarios''] @ [''go.mod''])))))"
  by (rule repoRoot_nearest) (simp add: plain_seg_def)

text \<open>C22: The binaries are built at most once: after a first call that came back, every later
  call, whatever the build would do by then, changes nothing and gives the same answer.\<close>

theorem build_once:
  assumes "binariesOnce s = False" and "buildBinariesErr s = None"
    and "BuildBinaries (Inr r) arg0 mkdir go_build s = (res, s')"
  shows "BuildBinaries root2 arg2 mkdir2 go_build2 s' = (res, s')"
  using assms
  by (auto simp: BuildBinaries_def build_binaries_def Let_def split: option.splits)

lemma build_once_witness:
  "BuildBinaries (Inl (Fatalf [] [])) [] (Some []) (\<lambda>_ _. Some []) (snd (BuildBinaries (Inr ''/src/e2e'')
      ''/tmp/recall.test'' None (\<lambda>_ _. None) fresh_build))
   = (fst (BuildBinaries (Inr ''/src/e2e'') ''/tmp/recall.test'' None (\<lambda>_ _. None) fresh_build),
      snd (BuildBinaries (Inr ''/src/e2e'') ''/tmp/recall.test'' None (\<lambda>_ _. None) fresh_build))"
  by (rule build_once [of fresh_build]) (simp_all add: fresh_build_def)

text \<open>A first call that ends the test inside the once, because no repository root is
  found, uses the once up: the next test's call does not fail but gets two empty paths.\<close>

theorem build_after_abort:
  "fst (BuildBinaries (Inl e) arg0 mkdir go_build fresh_build) = Inl e
   \<and> fst (BuildBinaries root2 arg2 mkdir2 go_build2
            (snd (BuildBinaries (Inl e) arg0 mkdir go_build fresh_build))) = Inr ([], [])"
  by (simp add: BuildBinaries_def build_binaries_def fresh_build_def)

end
