(* ===== verification/FsTree.thy ===== *)
theory FsTree
  imports Go_Text
begin

text \<open>
  Directory trees: the two permission walks of \<^verbatim>\<open>compose.go\<close>
  (\<^verbatim>\<open>makeContainerWritable\<close>, \<^verbatim>\<open>MakeContainerReadable\<close>) and the configuration files
  that \<^verbatim>\<open>compose.go\<close> and \<^verbatim>\<open>separated.go\<close> write.  A tree has files and directories, the
  entries of a directory in the order of their names, as \<^verbatim>\<open>os.ReadDir\<close> gives them; there
  are no links.  The errors of the file system that are not in the tree are arguments.
\<close>

unbundle bit_operations_syntax

section \<open>Trees\<close>

datatype tree = File string nat | Dir nat "(string \<times> tree) list"

primrec put :: "string \<Rightarrow> 'a \<Rightarrow> (string \<times> 'a) list \<Rightarrow> (string \<times> 'a) list" where
  "put k v [] = [(k, v)]"
| "put k v (e # es) =
     (if k = fst e then (k, v) # es else if k < fst e then (k, v) # e # es else e # put k v es)"

lemma map_of_put [simp]: "map_of (put k v es) = (map_of es)(k \<mapsto> v)"
  by (induction es) auto

lemma set_put: "fst ` set (put k v es) = insert k (fst ` set es)"
  by (induction es) auto

lemma sorted_put: "sorted_wrt (<) (map fst es) \<Longrightarrow> sorted_wrt (<) (map fst (put k v es))"
proof (induction es)
  case (Cons e es)
  have "\<forall>x \<in> fst ` set (put k v es). fst e < x" if "fst e < k"
    using Cons.prems that by (simp only: set_put) auto
  then show ?case using Cons by (auto simp: not_less order.order_iff_strict)
qed simp

fun modes :: "tree \<Rightarrow> (bool \<times> nat) list" and modes_of :: "(string \<times> tree) list \<Rightarrow> (bool \<times> nat) list" where
  "modes (File c m) = [(False, m)]"
| "modes (Dir m es) = (True, m) # modes_of es"
| "modes_of [] = []"
| "modes_of ((n, t) # es) = modes t @ modes_of es"

text \<open>A tree without its modes: names, structure and contents.\<close>

fun bare :: "tree \<Rightarrow> tree" and bare_all :: "(string \<times> tree) list \<Rightarrow> (string \<times> tree) list" where
  "bare (File c m) = File c 0"
| "bare (Dir m es) = Dir 0 (bare_all es)"
| "bare_all [] = []"
| "bare_all ((n, t) # es) = (n, bare t) # bare_all es"

section \<open>Opening a tree to the container user\<close>

text \<open>
  \<^verbatim>\<open>filepath.WalkDir\<close> with a visitor that sets the mode \<open>dm\<close> of a directory, then \<open>fm\<close> of
  a file.  \<open>chmod\<close> and \<open>readdir\<close> give the errors of the two calls on a path; the walk ends
  at the first.
\<close>

fun chmod_walk ::
  "(string \<Rightarrow> string option) \<Rightarrow> (string \<Rightarrow> string option) \<Rightarrow> nat \<Rightarrow> nat \<Rightarrow> string \<Rightarrow> tree \<Rightarrow>
     string option \<times> tree"
and chmod_entries ::
  "(string \<Rightarrow> string option) \<Rightarrow> (string \<Rightarrow> string option) \<Rightarrow> nat \<Rightarrow> nat \<Rightarrow> string \<Rightarrow>
     (string \<times> tree) list \<Rightarrow> string option \<times> (string \<times> tree) list" where
  "chmod_walk chmod readdir dm fm path (File c m) =
     (case chmod path of Some e \<Rightarrow> (Some e, File c m) | None \<Rightarrow> (None, File c fm))"
| "chmod_walk chmod readdir dm fm path (Dir m es) =
     (case chmod path of
        Some e \<Rightarrow> (Some e, Dir m es)
      | None \<Rightarrow>
          (case readdir path of
             Some e \<Rightarrow> (Some e, Dir dm es)
           | None \<Rightarrow> (case chmod_entries chmod readdir dm fm path es of (r, es') \<Rightarrow> (r, Dir dm es'))))"
| "chmod_entries chmod readdir dm fm path [] = (None, [])"
| "chmod_entries chmod readdir dm fm path ((n, t) # es) =
     (case chmod_walk chmod readdir dm fm (path_join [path, n]) t of
        (Some e, t') \<Rightarrow> (Some e, (n, t') # es)
      | (None, t') \<Rightarrow>
          (case chmod_entries chmod readdir dm fm path es of (r, es') \<Rightarrow> (r, (n, t') # es')))"

definition walk_dir ::
  "(string \<Rightarrow> string option) \<Rightarrow> (string \<Rightarrow> string option) \<Rightarrow> nat \<Rightarrow> nat \<Rightarrow> string \<Rightarrow> (string \<Rightarrow> fatal) \<Rightarrow>
     (tree option, unit) prog" where
  "walk_dir chmod readdir dm fm dir err = (\<lambda>w.
     case w of
       None \<Rightarrow> (Inl (err (''lstat '' @ dir @ '': no such file or directory'')), None)
     | Some t \<Rightarrow>
         (case chmod_walk chmod readdir dm fm dir t of
            (Some e, t') \<Rightarrow> (Inl (err e), Some t')
          | (None, t') \<Rightarrow> (Inr (), Some t')))"

definition makeContainerWritable ::
  "(string \<Rightarrow> string option) \<Rightarrow> (string \<Rightarrow> string option) \<Rightarrow> string \<Rightarrow> (tree option, unit) prog" where
  "makeContainerWritable chmod readdir dir =
     walk_dir chmod readdir 0x1FF 0x1B6 dir
       (\<lambda>e. Fatalf ''compose: make %s container-writable: %v'' [dir, e])"

definition MakeContainerReadable ::
  "(string \<Rightarrow> string option) \<Rightarrow> (string \<Rightarrow> string option) \<Rightarrow> string \<Rightarrow> (tree option, unit) prog" where
  "MakeContainerReadable chmod readdir dir =
     walk_dir chmod readdir 0x1ED 0x1A4 dir
       (\<lambda>e. Fatalf ''compose: make %s container-readable: %v'' [dir, e])"

lemma chmod_walk_bare:
  "bare (snd (chmod_walk chmod readdir dm fm path t)) = bare t"
  "bare_all (snd (chmod_entries chmod readdir dm fm path es)) = bare_all es"
  by (induction chmod readdir dm fm path t and chmod readdir dm fm path es
      rule: chmod_walk_chmod_entries.induct) (auto split: option.splits prod.splits)

lemma chmod_walk_modes:
  "fst (chmod_walk chmod readdir dm fm path t) = None \<Longrightarrow>
     modes (snd (chmod_walk chmod readdir dm fm path t)) =
       map (\<lambda>(d, _). (d, if d then dm else fm)) (modes t)"
  "fst (chmod_entries chmod readdir dm fm path es) = None \<Longrightarrow>
     modes_of (snd (chmod_entries chmod readdir dm fm path es)) =
       map (\<lambda>(d, _). (d, if d then dm else fm)) (modes_of es)"
  by (induction chmod readdir dm fm path t and chmod readdir dm fm path es
      rule: chmod_walk_chmod_entries.induct) (auto split: option.splits prod.splits)

text \<open>The calls of a walk in order, and the error of the first that fails.\<close>

datatype fs_call = Chmod string nat | Readdir string

fun calls :: "nat \<Rightarrow> nat \<Rightarrow> string \<Rightarrow> tree \<Rightarrow> fs_call list"
and calls_of :: "nat \<Rightarrow> nat \<Rightarrow> string \<Rightarrow> (string \<times> tree) list \<Rightarrow> fs_call list" where
  "calls dm fm path (File c m) = [Chmod path fm]"
| "calls dm fm path (Dir m es) = Chmod path dm # Readdir path # calls_of dm fm path es"
| "calls_of dm fm path [] = []"
| "calls_of dm fm path ((n, t) # es) = calls dm fm (path_join [path, n]) t @ calls_of dm fm path es"

fun call_error :: "(string \<Rightarrow> string option) \<Rightarrow> (string \<Rightarrow> string option) \<Rightarrow> fs_call \<Rightarrow> string option" where
  "call_error chmod readdir (Chmod p m) = chmod p"
| "call_error chmod readdir (Readdir p) = readdir p"

primrec first_error :: "('a \<Rightarrow> string option) \<Rightarrow> 'a list \<Rightarrow> string option" where
  "first_error f [] = None"
| "first_error f (c # cs) = (case f c of None \<Rightarrow> first_error f cs | Some e \<Rightarrow> Some e)"

lemma first_error_append [simp]:
  "first_error f (as @ bs) = (case first_error f as of None \<Rightarrow> first_error f bs | Some e \<Rightarrow> Some e)"
  by (induction as) (auto split: option.split)

lemma chmod_walk_error:
  "fst (chmod_walk chmod readdir dm fm path t) = first_error (call_error chmod readdir) (calls dm fm path t)"
  "fst (chmod_entries chmod readdir dm fm path es) = first_error (call_error chmod readdir) (calls_of dm fm path es)"
  by (induction chmod readdir dm fm path t and chmod readdir dm fm path es
      rule: chmod_walk_chmod_entries.induct) (auto split: option.splits prod.splits)

section \<open>What others may do with a tree\<close>

definition others_may :: "nat \<Rightarrow> nat \<Rightarrow> bool \<times> nat \<Rightarrow> bool" where
  "others_may dbits fbits = (\<lambda>(d, m). if d then m AND dbits = dbits else m AND fbits = fbits)"

lemma others_may_simps [simp]:
  "others_may d f (True, m) \<longleftrightarrow> m AND d = d" "others_may d f (False, m) \<longleftrightarrow> m AND f = f"
  by (simp_all add: others_may_def)

definition others_read :: "tree \<Rightarrow> bool" where
  "others_read t \<longleftrightarrow> list_all (others_may 5 4) (modes t)"

definition others_write :: "tree \<Rightarrow> bool" where
  "others_write t \<longleftrightarrow> list_all (others_may 7 6) (modes t)"

definition others_never_write :: "tree \<Rightarrow> bool" where
  "others_never_write t \<longleftrightarrow> list_all (\<lambda>(d, m). m AND 2 = 0) (modes t)"

lemma modes_walked:
  "list_all P (map (\<lambda>(d, _). (d, if d then dm else fm)) ms) \<longleftrightarrow>
     list_all (\<lambda>(d, m). P (d, if d then dm else fm)) ms"
  by (induction ms) auto

lemma walked_all:
  "P (True, dm) \<Longrightarrow> P (False, fm) \<Longrightarrow> fst (chmod_walk chmod readdir dm fm path t) = None \<Longrightarrow>
     list_all P (modes (snd (chmod_walk chmod readdir dm fm path t)))"
  by (auto simp: chmod_walk_modes(1) modes_walked list_all_iff)

text \<open>C27: Whatever a tree's modes were, after makeContainerWritable the container user can
  rewrite every file and create files in every directory, and after MakeContainerReadable it
  can read every file and list every directory but write none; names and contents are kept,
  also by a walk that fails half way.\<close>

theorem container_walks:
  "(case makeContainerWritable chmod readdir dir (Some t) of
      (Inr _, Some t') \<Rightarrow> others_write t' \<and> bare t' = bare t
    | (Inl _, Some t') \<Rightarrow> bare t' = bare t
    | (_, None) \<Rightarrow> False)
   \<and> (case MakeContainerReadable chmod readdir dir (Some t) of
      (Inr _, Some t') \<Rightarrow> others_read t' \<and> others_never_write t' \<and> bare t' = bare t
    | (Inl _, Some t') \<Rightarrow> bare t' = bare t
    | (_, None) \<Rightarrow> False)"
  using walked_all [of "others_may 7 6" "0x1FF" "0x1B6" chmod readdir dir t]
      walked_all [of "others_may 5 4" "0x1ED" "0x1A4" chmod readdir dir t]
      walked_all [of "\<lambda>(d, m). m AND 2 = 0" "0x1ED" "0x1A4" chmod readdir dir t]
      chmod_walk_bare(1) [of chmod readdir "0x1FF" "0x1B6" dir t]
      chmod_walk_bare(1) [of chmod readdir "0x1ED" "0x1A4" dir t]
  by (auto simp: makeContainerWritable_def MakeContainerReadable_def walk_dir_def others_write_def
        others_read_def others_never_write_def split: prod.split option.split)

lemma container_walk_missing:
  "makeContainerWritable chmod readdir dir None =
     (Inl (Fatalf ''compose: make %s container-writable: %v''
        [dir, ''lstat '' @ dir @ '': no such file or directory'']), None)"
  by (simp add: makeContainerWritable_def walk_dir_def)

lemma makeContainerWritable_ok:
  "makeContainerWritable chmod readdir dir (Some t) = (Inr u, r) \<Longrightarrow>
     \<exists>t'. r = Some t' \<and> others_write t' \<and> bare t' = bare t"
  using walked_all [of "others_may 7 6" "0x1FF" "0x1B6" chmod readdir dir t]
    chmod_walk_bare(1) [of chmod readdir "0x1FF" "0x1B6" dir t]
  by (auto simp: makeContainerWritable_def walk_dir_def others_write_def split: prod.splits option.splits)

lemma makeContainerWritable_no_faults:
  "fst (makeContainerWritable (\<lambda>_. None) (\<lambda>_. None) dir (Some t)) = Inr ()"
proof -
  have "call_error (\<lambda>_. None) (\<lambda>_. None) c = None" for c by (cases c) auto
  then have "first_error (call_error (\<lambda>_. None) (\<lambda>_. None)) cs = None" for cs by (induction cs) auto
  then have "fst (chmod_walk (\<lambda>_. None) (\<lambda>_. None) dm fm dir t) = None" for dm fm
    by (simp add: chmod_walk_error(1))
  then show ?thesis by (auto simp: makeContainerWritable_def walk_dir_def split: prod.split option.split)
     (metis fst_conv option.distinct(1))
qed

lemma makeContainerWritable_calm:
  "makeContainerWritable (\<lambda>_. None) (\<lambda>_. None) dir (Some t) = (r, t') \<Longrightarrow> r = Inr ()"
  using makeContainerWritable_no_faults [of dir t] by simp

text \<open>A walk fails exactly at the first of its calls that fails, in the order of the
  names, a directory before what is in it.\<close>

theorem container_walk_errors:
  "fst (makeContainerWritable chmod readdir dir (Some t)) =
     (case first_error (call_error chmod readdir) (calls 0x1FF 0x1B6 dir t) of
        None \<Rightarrow> Inr ()
      | Some e \<Rightarrow> Inl (Fatalf ''compose: make %s container-writable: %v'' [dir, e]))"
  unfolding makeContainerWritable_def walk_dir_def chmod_walk_error(1) [symmetric]
  by (simp split: prod.split option.split)

section \<open>Configuration files\<close>

text \<open>
  \<^verbatim>\<open>os.MkdirAll\<close> and \<^verbatim>\<open>os.WriteFile\<close> below a directory, by the names of a path; \<open>um\<close> is
  the process's umask.  A write that fails after the open leaves the first bytes it wrote:
  \<open>fault\<close> gives the error and, if the file was opened, how many.
\<close>

definition masked :: "nat \<Rightarrow> nat \<Rightarrow> nat" where
  "masked um m = m - (m AND um)"

fun mkdir_all :: "nat \<Rightarrow> nat \<Rightarrow> string list \<Rightarrow> tree \<Rightarrow> string + tree" where
  "mkdir_all um m p (File c fm) = Inl ''not a directory''"
| "mkdir_all um m [] (Dir d es) = Inr (Dir d es)"
| "mkdir_all um m (n # p) (Dir d es) =
     (case mkdir_all um m p (case map_of es n of None \<Rightarrow> Dir (masked um m) [] | Some t \<Rightarrow> t) of
        Inl e \<Rightarrow> Inl e
      | Inr t' \<Rightarrow> Inr (Dir d (put n t' es)))"

fun write_file ::
  "(string \<times> nat option) option \<Rightarrow> nat \<Rightarrow> nat \<Rightarrow> string list \<Rightarrow> string \<Rightarrow> tree \<Rightarrow> string option \<times> tree" where
  "write_file fault um m [] c t = (Some ''is a directory'', t)"
| "write_file fault um m p c (File c' fm) = (Some ''not a directory'', File c' fm)"
| "write_file fault um m [n] c (Dir d es) =
     (case fault of
        Some (e, None) \<Rightarrow> (Some e, Dir d es)
      | _ \<Rightarrow>
          (let (r, c') = (case fault of Some (e, Some k) \<Rightarrow> (Some e, take k c) | _ \<Rightarrow> (None, c)) in
           (case map_of es n of
              None \<Rightarrow> (r, Dir d (put n (File c' (masked um m)) es))
            | Some (File _ fm) \<Rightarrow> (r, Dir d (put n (File c' fm) es))
            | Some (Dir _ _) \<Rightarrow> (Some ''is a directory'', Dir d es))))"
| "write_file fault um m (n # n' # p) c (Dir d es) =
     (case map_of es n of
        None \<Rightarrow> (Some ''no such file or directory'', Dir d es)
      | Some t \<Rightarrow>
          (case write_file fault um m (n' # p) c t of (r, t') \<Rightarrow> (r, Dir d (put n t' es))))"

record disk_faults =
  mkdirFault :: "string option"
  writeFault :: "(string \<times> nat option) option"

text \<open>
  The three writers: the directory first, then the file.  \<open>WriteNodeConfig\<close> works below
  the provisioning's directory, the other two below the process's working directory, which
  is made if it is missing.
\<close>

definition write_below ::
  "disk_faults \<Rightarrow> nat \<Rightarrow> string list \<Rightarrow> string \<Rightarrow> string \<Rightarrow> (string \<Rightarrow> 'e) \<Rightarrow> (string \<Rightarrow> 'e) \<Rightarrow>
     tree \<Rightarrow> ('e + unit) \<times> tree" where
  "write_below ft um ds f cfg mkerr wrerr = (\<lambda>t.
     case (case mkdirFault ft of Some e \<Rightarrow> Inl e | None \<Rightarrow> mkdir_all um 0x1ED ds t) of
       Inl e \<Rightarrow> (Inl (mkerr e), t)
     | Inr t1 \<Rightarrow>
         (case write_file (writeFault ft) um 0x1A4 (ds @ [f]) cfg t1 of
            (Some e, t2) \<Rightarrow> (Inl (wrerr e), t2)
          | (None, t2) \<Rightarrow> (Inr (), t2)))"

definition WriteNodeConfig :: "disk_faults \<Rightarrow> nat \<Rightarrow> string \<Rightarrow> string \<Rightarrow> (tree, unit) prog" where
  "WriteNodeConfig ft um node cfg =
     write_below ft um [node, ''config''] ''application.conf'' cfg
       (\<lambda>e. Fatalf ''compose: mkdir node config: %v'' [e]) (\<lambda>e. Fatalf ''compose: write node config: %v'' [e])"

definition writeApplicationConf ::
  "disk_faults \<Rightarrow> nat \<Rightarrow> string list \<Rightarrow> string \<Rightarrow> tree \<Rightarrow> (string + unit) \<times> tree" where
  "writeApplicationConf ft um dir cfg =
     write_below ft um (dir @ [''config'']) ''application.conf'' cfg
       (\<lambda>e. ''mkdir config: '' @ e) (\<lambda>e. ''write config: '' @ e)"

definition writeConfigFile ::
  "disk_faults \<Rightarrow> nat \<Rightarrow> string list \<Rightarrow> string \<Rightarrow> tree \<Rightarrow> (string + string list) \<times> tree" where
  "writeConfigFile ft um dir cfg t =
     (case write_below ft um dir ''pipeline.conf'' cfg
             (\<lambda>e. ''mkdir: '' @ e) (\<lambda>e. ''write config: '' @ e) t of
        (Inl e, t') \<Rightarrow> (Inl e, t')
      | (Inr _, t') \<Rightarrow> (Inr (dir @ [''pipeline.conf'']), t'))"

text \<open>The abstract file system: contents by path.\<close>

fun read_file :: "tree \<Rightarrow> string list \<Rightarrow> string option" where
  "read_file (File c m) p = (if p = [] then Some c else None)"
| "read_file (Dir d es) [] = None"
| "read_file (Dir d es) (n # p) = (case map_of es n of None \<Rightarrow> None | Some t \<Rightarrow> read_file t p)"

lemma read_mkdir_all: "mkdir_all um m p t = Inr t' \<Longrightarrow> read_file t' = read_file t"
proof (induction um m p t arbitrary: t' rule: mkdir_all.induct)
  case (3 um m n p d es)
  let ?sub = "case map_of es n of None \<Rightarrow> Dir (masked um m) [] | Some t \<Rightarrow> t"
  obtain u where u: "mkdir_all um m p ?sub = Inr u" "t' = Dir d (put n u es)"
    using 3(2) by (auto split: sum.splits)
  have r: "read_file u = read_file ?sub" using 3(1) u(1) by blast
  have empty: "read_file (Dir k []) q = None" for k q by (cases q) auto
  show ?case
  proof
    fix q
    show "read_file t' q = read_file (Dir d es) q"
      by (cases q) (auto simp: u(2) r empty split: option.split)
  qed
qed auto

lemma read_write_file:
  "write_file None um m p c t = (None, t') \<Longrightarrow> read_file t' = (read_file t)(p \<mapsto> c)"
proof (induction "None :: (string \<times> nat option) option" um m p c t arbitrary: t' rule: write_file.induct)
  case (3 um m n c d es)
  show ?case
  proof
    fix q
    show "read_file t' q = ((read_file (Dir d es))([n] \<mapsto> c)) q"
      using 3 by (cases q) (auto split: option.splits tree.splits if_splits)
  qed
next
  case (4 um m n n' p c d es)
  show ?case
  proof
    fix q
    show "read_file t' q = ((read_file (Dir d es))(n # n' # p \<mapsto> c)) q"
      using 4 by (cases q) (auto split: option.splits prod.splits)
  qed
qed auto

lemma read_write_other:
  "write_file ft um m p c t = (r, t') \<Longrightarrow> q \<noteq> p \<Longrightarrow> read_file t' q = read_file t q"
proof (induction ft um m p c t arbitrary: r t' q rule: write_file.induct)
  case (3 ft um m n c d es)
  then show ?case
    by (cases q) (auto simp: Let_def split: option.splits tree.splits if_splits prod.splits)
next
  case (4 ft um m n n' p c d es)
  then show ?case by (cases q) (auto split: option.splits prod.splits)
qed auto

lemma write_file_fault: "write_file (Some ft) um m p c t = (r, t') \<Longrightarrow> r \<noteq> None"
proof (induction "Some ft" um m p c t arbitrary: r t' rule: write_file.induct)
  case (3 um m n c d es)
  then show ?case by (cases ft) (auto split: option.splits tree.splits)
next
  case (4 um m n n' p c d es)
  then show ?case by (auto split: option.splits prod.splits)
qed auto

lemma write_below_ok:
  "write_below ft um ds f cfg mk wr t = (Inr u, t') \<Longrightarrow> read_file t' = (read_file t)(ds @ [f] \<mapsto> cfg)"
proof -
  assume a: "write_below ft um ds f cfg mk wr t = (Inr u, t')"
  then obtain t1 where 1: "mkdir_all um 0x1ED ds t = Inr t1"
    "write_file (writeFault ft) um 0x1A4 (ds @ [f]) cfg t1 = (None, t')"
    by (auto simp: write_below_def split: option.splits sum.splits prod.splits)
  have "writeFault ft = None" using 1(2) write_file_fault by (metis option.exhaust)
  then show ?thesis using read_mkdir_all [OF 1(1)] read_write_file 1(2) by metis
qed

lemma write_below_others:
  "q \<noteq> ds @ [f] \<Longrightarrow> read_file (snd (write_below ft um ds f cfg mk wr t)) q = read_file t q"
  by (auto simp: write_below_def read_mkdir_all dest!: read_write_other
      split: option.splits sum.splits prod.splits)

lemma writeApplicationConf_ok:
  "writeApplicationConf ft um dir cfg t = (Inr u, t') \<Longrightarrow>
     read_file t' = (read_file t)(dir @ [''config'', ''application.conf''] \<mapsto> cfg)"
  unfolding writeApplicationConf_def using write_below_ok by fastforce

lemma writeConfigFile_ok:
  "writeConfigFile ft um dir cfg t = (Inr p, t') \<Longrightarrow>
     p = dir @ [''pipeline.conf''] \<and> read_file t' = (read_file t)(dir @ [''pipeline.conf''] \<mapsto> cfg)"
  by (auto simp: writeConfigFile_def split: prod.splits sum.splits dest!: write_below_ok)

definition conf_path :: "string \<Rightarrow> string list" where
  "conf_path node = [node, ''config'', ''application.conf'']"

text \<open>C28: The three writers refine the update of a map from paths to contents: after a
  success the configuration, and nothing else, has been replaced.\<close>

theorem config_writers_refine:
  assumes "WriteNodeConfig ft um node cfg t = (Inr u1, t1)"
    and "writeApplicationConf ft um dir cfg t = (Inr u2, t2)"
    and "writeConfigFile ft um dir cfg t = (Inr path, t3)"
  shows "read_file t1 = (read_file t)(conf_path node \<mapsto> cfg)
    \<and> read_file t2 = (read_file t)(dir @ [''config'', ''application.conf''] \<mapsto> cfg)
    \<and> path = dir @ [''pipeline.conf''] \<and> read_file t3 = (read_file t)(path \<mapsto> cfg)"
  using assms
  by (auto simp: WriteNodeConfig_def writeApplicationConf_def writeConfigFile_def
      conf_path_def split: prod.splits sum.splits dest!: write_below_ok)

lemma config_writers_refine_witness:
  "read_file (snd (writeApplicationConf \<lparr>mkdirFault = None, writeFault = None\<rparr> 0x12 [''w''] ''x = 1''
     (Dir 0x1C0 [(''w'', Dir 0x1C0 [(''keys'', File ''k'' 0x180)])])))
     [''w'', ''config'', ''application.conf''] = Some ''x = 1''"
proof -
  let ?ft = "\<lparr>mkdirFault = None, writeFault = None\<rparr>"
  let ?t = "Dir 0x1C0 [(''w'', Dir 0x1C0 [(''keys'', File ''k'' 0x180)])]"
  have "fst (WriteNodeConfig ?ft 0x12 ''n'' ''x = 1'' ?t) = Inr ()"
    "fst (writeApplicationConf ?ft 0x12 [''w''] ''x = 1'' ?t) = Inr ()"
    "fst (writeConfigFile ?ft 0x12 [''w''] ''x = 1'' ?t) = Inr [''w'', ''pipeline.conf'']"
    by (code_simp, code_simp, code_simp)
  then have "WriteNodeConfig ?ft 0x12 ''n'' ''x = 1'' ?t = (Inr (), snd (WriteNodeConfig ?ft 0x12 ''n'' ''x = 1'' ?t))"
    "writeApplicationConf ?ft 0x12 [''w''] ''x = 1'' ?t = (Inr (), snd (writeApplicationConf ?ft 0x12 [''w''] ''x = 1'' ?t))"
    "writeConfigFile ?ft 0x12 [''w''] ''x = 1'' ?t
       = (Inr [''w'', ''pipeline.conf''], snd (writeConfigFile ?ft 0x12 [''w''] ''x = 1'' ?t))"
    by (metis prod.collapse)+
  from config_writers_refine [OF this] show ?thesis by (simp del: One_nat_def)
qed

text \<open>A configuration file that others could not read the first time stays unreadable: the
  mode of an existing file is kept.\<close>

lemma write_file_keeps_mode:
  "map_of es n = Some (File c' fm) \<Longrightarrow>
     write_file None um m [n] c (Dir d es) = (None, Dir d (put n (File c fm) es))"
  by simp

text \<open>Contents do not depend on modes.\<close>

lemma bare_read_eq:
  "read_file (bare t) p = read_file t p"
  "(case map_of (bare_all es) n of None \<Rightarrow> None | Some t \<Rightarrow> read_file t q) =
     (case map_of es n of None \<Rightarrow> None | Some t \<Rightarrow> read_file t q)"
proof (induction t and es arbitrary: p and n q rule: bare_bare_all.induct)
  case (2 m es)
  then show ?case by (cases p) auto
qed auto

lemma bare_read: "bare t = bare t' \<Longrightarrow> read_file t p = read_file t' p"
  by (metis bare_read_eq(1))

end
