(* ===== verification/Broker.thy ===== *)
theory Broker
  imports Go_Quote FsTree "HOL-Library.AList"
begin

text \<open>
  The message broker's provisioning: \<^verbatim>\<open>nats.go\<close> (an embedded server with a live resolver)
  and \<^verbatim>\<open>ComposeProvision\<close> of \<^verbatim>\<open>compose.go\<close> (files a container preloads).  The operator of
  an account, the JWT codec and the server's account lookup are other repositories' code:
  they are the argument \<open>lib\<close>.  A directory is an association list from file names to
  contents; an I/O error on a name is the world's \<open>fault\<close>.
\<close>

section \<open>Accounts and the code the harness calls\<close>

record NATSAccount =
  Name :: string
  SeedFile :: string
  Seed :: string
  Pub :: string

text \<open>
  \<^verbatim>\<open>natsop.New\<close>, \<^verbatim>\<open>PublishClaims\<close>, \<^verbatim>\<open>AddExport\<close> and \<^verbatim>\<open>AddImport\<close> of an operator in
  state \<^typ>\<open>'o\<close>: an error, or the new state and the JWT the operator publishes under its
  account's key; \<^verbatim>\<open>jwt.DecodeAccountClaims\<close>; and whether the server's \<^verbatim>\<open>LookupAccount\<close>
  fetches an account it has not loaded.
\<close>

record ('o, 'c) natsop =
  NewOp :: "string \<Rightarrow> string \<Rightarrow> string + 'o"
  PublishClaims :: "'o \<Rightarrow> string + 'o \<times> string"
  AddExport :: "'o \<Rightarrow> string \<Rightarrow> string + 'o \<times> string"
  AddImport :: "'o \<Rightarrow> string \<Rightarrow> string \<Rightarrow> string \<Rightarrow> string + 'o \<times> string"
  DecodeClaims :: "string \<Rightarrow> string + 'c"
  LookupFetches :: bool

text \<open>What both runtimes keep: accounts by name, operators by account key, and files.\<close>

record 'o provision =
  accounts :: "string \<rightharpoonup> NATSAccount"
  ops :: "string \<rightharpoonup> 'o"
  jwts :: "(string \<times> string) list"
  seeds :: "(string \<times> string \<times> nat) list"
  fault :: "string \<Rightarrow> string option"

definition jwt_file :: "string \<Rightarrow> string" where
  "jwt_file pub = pub @ ''.jwt''"

definition account :: "string \<Rightarrow> string \<Rightarrow> (('o, 'z) provision_scheme, NATSAccount) prog" where
  "account runtime name = (\<lambda>w.
     case accounts w name of
       None \<Rightarrow> (Inl (Fatalf (runtime @ '': unknown account %q'') [name]), w)
     | Some a \<Rightarrow> (Inr a, w))"

text \<open>
  One call of an account's operator: it mutates the operator and publishes the account's
  JWT.  An account without an operator does not occur; Go would panic.
\<close>

definition operate ::
  "('o \<Rightarrow> string + 'o \<times> string) \<Rightarrow> NATSAccount \<Rightarrow> (string \<Rightarrow> fatal) \<Rightarrow>
     (('o, 'z) provision_scheme, unit) prog" where
  "operate f a err = (\<lambda>w.
     case ops w (Pub a) of
       None \<Rightarrow> (Inl (Fatalf ''nil operator'' []), w)
     | Some x \<Rightarrow>
         (case f x of
            Inl e \<Rightarrow> (Inl (err e), w)
          | Inr (x', jwt) \<Rightarrow>
              (Inr (), w\<lparr>ops := (ops w)(Pub a \<mapsto> x'),
                         jwts := AList.update (jwt_file (Pub a)) jwt (jwts w)\<rparr>)))"

definition write_seed ::
  "string \<Rightarrow> string \<Rightarrow> nat \<Rightarrow> (string \<Rightarrow> fatal) \<Rightarrow> (('o, 'z) provision_scheme, unit) prog" where
  "write_seed file content mode err = (\<lambda>w.
     case fault w file of
       Some e \<Rightarrow> (Inl (err e), w)
     | None \<Rightarrow>
         let mode' = (case map_of (seeds w) file of Some (_, m) \<Rightarrow> m | None \<Rightarrow> mode) in
         (Inr (), w\<lparr>seeds := AList.update file (content, mode') (seeds w)\<rparr>))"

text \<open>The two exports and imports of a grant, common to both runtimes.\<close>

definition export_then_import ::
  "('o, 'c) natsop \<Rightarrow> string \<Rightarrow> string \<Rightarrow> string \<Rightarrow> string \<Rightarrow> NATSAccount \<Rightarrow> NATSAccount \<Rightarrow>
     (('o, 'z) provision_scheme, NATSAccount \<times> NATSAccount) prog" where
  "export_then_import lib runtime exporter importer subject exp imp =
     andthen (operate (\<lambda>x. AddExport lib x subject) exp
                (\<lambda>e. Fatalf (runtime @ '': AddExport(%s, %s): %v'') [exporter, subject, e])) (\<lambda>_.
     andthen (operate (\<lambda>x. AddImport lib x subject (Pub exp) subject) imp
                (\<lambda>e. Fatalf (runtime @ '': AddImport(%s, %s): %v'') [importer, subject, e])) (\<lambda>_.
     ret (exp, imp)))"

definition export_import ::
  "('o, 'c) natsop \<Rightarrow> string \<Rightarrow> string \<Rightarrow> string \<Rightarrow> string \<Rightarrow>
     (('o, 'z) provision_scheme, NATSAccount \<times> NATSAccount) prog" where
  "export_import lib runtime exporter importer subject =
     andthen (account runtime exporter) (\<lambda>exp.
     andthen (account runtime importer) (\<lambda>imp.
     export_then_import lib runtime exporter importer subject exp imp))"

text \<open>
  One account of the provisioning: \<open>keys\<close> is what \<^verbatim>\<open>nkeys.CreateAccount\<close> gives, its seed
  and its public key, or its error.
\<close>

definition provision_account ::
  "('o, 'c) natsop \<Rightarrow> string \<Rightarrow> string \<Rightarrow> nat \<Rightarrow> string \<Rightarrow> string \<Rightarrow> string + string \<times> string \<Rightarrow>
     (('o, 'z) provision_scheme, unit) prog" where
  "provision_account lib runtime dir mode opSeed name keys =
     (case keys of
        Inl e \<Rightarrow> abort (Fatalf (runtime @ '': create account %s: %v'') [name, e])
      | Inr (seed, pub) \<Rightarrow>
          andthen (write_seed (name @ ''-account.seed'') seed mode
                     (\<lambda>e. Fatalf (runtime @ '': write account seed %s: %v'') [name, e])) (\<lambda>_.
          (case NewOp lib seed opSeed of
             Inl e \<Rightarrow> abort (Fatalf (runtime @ '': natsop.New(%s): %v'') [name, e])
           | Inr x \<Rightarrow>
               let a = \<lparr>Name = name, SeedFile = path_join [dir, name @ ''-account.seed''],
                        Seed = seed, Pub = pub\<rparr>
               in
                 andthen (\<lambda>w. (Inr (), w\<lparr>ops := (ops w)(pub \<mapsto> x)\<rparr>)) (\<lambda>_.
                 andthen (operate (PublishClaims lib) a
                            (\<lambda>e. Fatalf (runtime @ '': publish claims %s: %v'') [name, e])) (\<lambda>_.
                 (\<lambda>w. (Inr (), w\<lparr>accounts := (accounts w)(name \<mapsto> a)\<rparr>)))))))"

section \<open>The embedded broker\<close>

record ('o, 'c) NATS = "'o provision" +
  resolver :: "string \<rightharpoonup> string"
  loaded :: "string \<rightharpoonup> 'c"

definition read_jwt :: "string \<Rightarrow> (string \<Rightarrow> fatal) \<Rightarrow> (('o, 'z) provision_scheme, string) prog" where
  "read_jwt file err = (\<lambda>w.
     case fault w file of
       Some e \<Rightarrow> (Inl (err e), w)
     | None \<Rightarrow>
         (case map_of (jwts w) file of
            None \<Rightarrow> (Inl (err ''no such file or directory''), w)
          | Some j \<Rightarrow> (Inr j, w)))"

text \<open>\<^verbatim>\<open>bridge\<close>: every \<^verbatim>\<open>.jwt\<close> file into the resolver, in the order of the names.\<close>

definition bridge_entry :: "string \<Rightarrow> (('o, 'c) NATS, unit) prog" where
  "bridge_entry name =
     (if \<not> has_suffix name ''.jwt'' then ret ()
      else
        andthen (read_jwt name (\<lambda>e. Fatalf ''nats: read jwt %s: %v'' [name, e])) (\<lambda>b.
        (\<lambda>w. (Inr (), w\<lparr>resolver := (resolver w)(trim_suffix name ''.jwt'' \<mapsto> b)\<rparr>))))"

definition bridge :: "(('o, 'c) NATS, unit) prog" where
  "bridge = (\<lambda>w.
     case fault w ''jwts'' of
       Some e \<Rightarrow> (Inl (Fatalf ''nats: read resolver dir: %v'' [e]), w)
     | None \<Rightarrow> andthen (for_each (sort (map fst (jwts w))) bridge_entry) (\<lambda>_. ret ()) w)"

text \<open>\<^verbatim>\<open>LookupAccount\<close>: the loaded account, or one the server may fetch from the resolver.\<close>

definition load_account :: "('o, 'c) natsop \<Rightarrow> string \<Rightarrow> ('o, 'c) NATS \<Rightarrow> ('o, 'c) NATS" where
  "load_account lib pub w =
     (case loaded w pub of
        Some _ \<Rightarrow> w
      | None \<Rightarrow>
          (case resolver w pub of
             None \<Rightarrow> w
           | Some j \<Rightarrow>
               (case DecodeClaims lib j of
                  Inl _ \<Rightarrow> w
                | Inr c \<Rightarrow> w\<lparr>loaded := (loaded w)(pub \<mapsto> c)\<rparr>)))"

definition refreshLoaded :: "('o, 'c) natsop \<Rightarrow> string \<Rightarrow> (('o, 'c) NATS, unit) prog" where
  "refreshLoaded lib pub = (\<lambda>w.
     let w1 = (if LookupFetches lib then load_account lib pub w else w) in
     if loaded w1 pub = None then (Inr (), w1)
     else
       andthen (read_jwt (jwt_file pub) (\<lambda>e. Fatalf ''nats: read refreshed jwt for %s: %v'' [pub, e])) (\<lambda>raw.
         (case DecodeClaims lib raw of
            Inl e \<Rightarrow> abort (Fatalf ''nats: decode refreshed jwt for %s: %v'' [pub, e])
          | Inr c \<Rightarrow> (\<lambda>w. (Inr (), w\<lparr>loaded := (loaded w)(pub \<mapsto> c)\<rparr>)))) w1)"

definition NATS_Grant ::
  "('o, 'c) natsop \<Rightarrow> string \<Rightarrow> string \<Rightarrow> string \<Rightarrow> (('o, 'c) NATS, unit) prog" where
  "NATS_Grant lib exporter importer subject =
     andthen (export_import lib ''nats'' exporter importer subject) (\<lambda>(exp, imp).
     andthen bridge (\<lambda>_.
     andthen (refreshLoaded lib (Pub exp)) (\<lambda>_.
     refreshLoaded lib (Pub imp))))"

text \<open>A client of an account connects: the server loads the account's claims.\<close>

definition connect :: "('o, 'c) natsop \<Rightarrow> string \<Rightarrow> ('o, 'c) NATS \<Rightarrow> ('o, 'c) NATS" where
  "connect lib pub w = load_account lib pub w"

text \<open>
  \<^verbatim>\<open>StartNATS\<close> up to the running server: \<open>op\<close> is the operator's seed and \<open>named_keys\<close>
  gives the accounts' keys, in the order of the names.
\<close>

definition nats_prepare ::
  "('o, 'c) natsop \<Rightarrow> string \<Rightarrow> string \<Rightarrow> (string \<times> (string + string \<times> string)) list \<Rightarrow>
     (('o, 'c) NATS, unit list) prog" where
  "nats_prepare lib dir opSeed named_keys =
     andthen (\<lambda>w. case fault w ''jwts'' of
                  Some e \<Rightarrow> (Inl (Fatalf ''nats: mkdir resolver dir: %v'' [e]), w)
                | None \<Rightarrow> (Inr (), w)) (\<lambda>_.
     andthen (write_seed ''operator.seed'' opSeed 0x180
                (\<lambda>e. Fatalf ''nats: write operator seed: %v'' [e])) (\<lambda>_.
     for_each named_keys (\<lambda>(name, keys).
       provision_account lib ''nats'' dir 0x180 opSeed name keys)))"

definition StartNATS ::
  "('o, 'c) natsop \<Rightarrow> string \<Rightarrow> string + string \<Rightarrow> (string \<times> (string + string \<times> string)) list \<Rightarrow>
     (('o, 'c) NATS, unit) prog" where
  "StartNATS lib dir op named_keys =
     (case op of
        Inl e \<Rightarrow> abort (Fatalf ''nats: create operator: %v'' [e])
      | Inr opSeed \<Rightarrow> andthen (nats_prepare lib dir opSeed named_keys) (\<lambda>_. bridge))"

section \<open>The compose runtime\<close>

record 'o ComposeProvision = "'o provision" +
  brokerConfigWritten :: bool
  brokerConf :: "string option"
  jwtMode :: "string \<Rightarrow> nat" \<comment> \<open>the modes the publisher gave its files, and \<^verbatim>\<open>jwts\<close> itself\<close>
  chmodErr :: "string \<Rightarrow> string option"
  readdirErr :: "string \<Rightarrow> string option"
  jwtTree :: "tree option" \<comment> \<open>\<^verbatim>\<open>jwts\<close> once it was handed to the containers\<close>

definition Compose_Grant ::
  "('o, 'c) natsop \<Rightarrow> string \<Rightarrow> string \<Rightarrow> string \<Rightarrow> ('o ComposeProvision, unit) prog" where
  "Compose_Grant lib exporter importer subject = (\<lambda>w.
     if brokerConfigWritten w then
       (Inl (Fatalf (''compose: Grant(%s->%s) after WriteBrokerConfig ''
               @ [CHR 0xE2, CHR 0x80, CHR 0x94]
               @ '' the broker preloads static claims; grant all subjects BEFORE rendering the broker config'')
          [exporter, importer]), w)
     else andthen (export_import lib ''compose'' exporter importer subject) (\<lambda>_. ret ()) w)"

definition preload_line :: \<open>(nat \<Rightarrow> bool) \<Rightarrow> NATSAccount \<Rightarrow> ('o ComposeProvision, string) prog\<close> where
  \<open>preload_line pr a =
     andthen (read_jwt (jwt_file (Pub a)) (\<lambda>e. Fatalf ''compose: read jwt for %s: %v'' [Name a, e])) (\<lambda>raw.
     ret (''  '' @ Pub a @ '': '' @ quote pr (trim_space raw) @ [nl]))\<close>

definition jwts_tree :: "'o ComposeProvision \<Rightarrow> tree" where
  "jwts_tree w = Dir (jwtMode w ''jwts'') (foldr (\<lambda>(n, c). put n (File c (jwtMode w n))) (jwts w) [])"

definition open_jwts :: "string \<Rightarrow> ('o ComposeProvision, unit) prog" where
  "open_jwts dir = (\<lambda>w.
     case makeContainerWritable (chmodErr w) (readdirErr w) (path_join [dir, ''jwts'']) (Some (jwts_tree w)) of
       (r, t) \<Rightarrow> (r, w\<lparr>jwtTree := t\<rparr>))"

text \<open>\<^verbatim>\<open>WriteBrokerConfig\<close>; \<open>names\<close> is the order in which Go iterates the accounts.\<close>

definition conf_head :: string where
  "conf_head = ''port: 4222\<newline>http: 8222\<newline>'' @ ''operator: /etc/nats/operator.jwt\<newline>''
     @ ''resolver: MEMORY\<newline>resolver_preload: {\<newline>''"

definition WriteBrokerConfig ::
  "(nat \<Rightarrow> bool) \<Rightarrow> string \<Rightarrow> string list \<Rightarrow> ('o ComposeProvision, unit) prog" where
  "WriteBrokerConfig pr dir names =
     andthen (\<lambda>w. (Inr (), w\<lparr>brokerConfigWritten := True\<rparr>)) (\<lambda>_.
     andthen (for_each names (\<lambda>name. andthen (account ''compose'' name) (preload_line pr))) (\<lambda>ls.
     andthen (\<lambda>w. case fault w ''nats-server.conf'' of
                  Some e \<Rightarrow> (Inl (Fatalf ''compose: write nats-server.conf: %v'' [e]), w)
                | None \<Rightarrow> (Inr (), w\<lparr>brokerConf := Some (conf_head @ concat ls @ ''}\<newline>'')\<rparr>)) (\<lambda>_.
     open_jwts dir)))"

definition ProvisionCompose ::
  "('o, 'c) natsop \<Rightarrow> string \<Rightarrow> string + string \<Rightarrow> string + string \<Rightarrow>
     (string \<times> (string + string \<times> string)) list \<Rightarrow> ('o ComposeProvision, unit) prog" where
  "ProvisionCompose lib dir op opJWT named_keys =
     (case op of
        Inl e \<Rightarrow> abort (Fatalf ''compose: create operator: %v'' [e])
      | Inr opSeed \<Rightarrow>
          andthen (for_each [''jwts'', ''nats''] (\<lambda>d w. case fault w d of
                       Some e \<Rightarrow> (Inl (Fatalf ''compose: mkdir: %v'' [e]), w)
                     | None \<Rightarrow> (Inr (), w))) (\<lambda>_.
          andthen (write_seed ''operator.seed'' opSeed 0x1A4
                     (\<lambda>e. Fatalf ''compose: write operator seed: %v'' [e])) (\<lambda>_.
          (case opJWT of
             Inl e \<Rightarrow> abort (Fatalf ''compose: encode operator jwt: %v'' [e])
           | Inr j \<Rightarrow>
               andthen (write_seed ''nats/operator.jwt'' j 0x1A4
                          (\<lambda>e. Fatalf ''compose: write operator jwt: %v'' [e])) (\<lambda>_.
               andthen (for_each named_keys (\<lambda>(name, keys).
                          provision_account lib ''compose'' dir 0x1A4 opSeed name keys)) (\<lambda>_.
               ret ()))))))"

section \<open>Frames\<close>

lemma account_keeps [prog_rules]: "keeps f (account runtime name)"
  by (simp add: keeps_def account_def split: option.split)

lemma read_jwt_keeps [prog_rules]: "keeps f (read_jwt file err)"
  by (simp add: keeps_def read_jwt_def split: option.split)

lemma operate_keeps [prog_rules]:
  "keeps accounts (operate f a err)" "keeps seeds (operate f a err)" "keeps fault (operate f a err)"
  by (simp_all add: keeps_def operate_def split: option.split sum.split prod.split)

lemma operate_keeps_NATS [prog_rules]:
  "keeps resolver (operate f a err)" "keeps loaded (operate f a err)"
  by (simp_all add: keeps_def operate_def split: option.split sum.split prod.split)

lemma operate_keeps_compose [prog_rules]:
  "keeps brokerConfigWritten (operate f a err)" "keeps brokerConf (operate f a err)"
  by (simp_all add: keeps_def operate_def split: option.split sum.split prod.split)

lemma jwt_file_inj [simp]: "jwt_file p = jwt_file q \<longleftrightarrow> p = q"
  by (simp add: jwt_file_def)

lemma operate_file:
  "p \<noteq> Pub a \<Longrightarrow> keeps (\<lambda>w. map_of (jwts w) (jwt_file p)) (operate f a err)"
  by (simp add: keeps_def operate_def update_conv' split: option.split sum.split prod.split)

lemma operate_grows:
  "operate f a err w = (r, w') \<Longrightarrow> map_of (jwts w) k \<noteq> None \<Longrightarrow> map_of (jwts w') k \<noteq> None"
  by (auto simp: operate_def update_conv' split: option.splits sum.splits prod.splits)

lemma account_Inr: "account rt name w = (Inr a, w') \<longleftrightarrow> accounts w name = Some a \<and> w' = w"
  by (auto simp: account_def split: option.split)

lemma export_import_keeps [prog_rules]:
  "keeps accounts (export_import lib rt e i s)" "keeps seeds (export_import lib rt e i s)"
  "keeps fault (export_import lib rt e i s)"
  unfolding export_import_def export_then_import_def by (intro prog_rules)+

lemma export_import_keeps_NATS [prog_rules]:
  "keeps resolver (export_import lib rt e i s)" "keeps loaded (export_import lib rt e i s)"
  unfolding export_import_def export_then_import_def by (intro prog_rules)+

lemma export_import_keeps_compose [prog_rules]:
  "keeps brokerConfigWritten (export_import lib rt e i s)" "keeps brokerConf (export_import lib rt e i s)"
  unfolding export_import_def export_then_import_def by (intro prog_rules)+

lemma export_import_known:
  "export_import lib rt e i s w = (Inr (exp, imp), w') \<Longrightarrow>
     accounts w e = Some exp \<and> accounts w i = Some imp"
  unfolding export_import_def export_then_import_def
  by (auto simp: andthen_eq_Inr_iff account_Inr)

lemma export_import_unknown:
  "accounts w e = None \<or> accounts w i = None \<Longrightarrow>
     \<exists>n \<in> {e, i}. accounts w n = None
       \<and> export_import lib rt e i s w = (Inl (Fatalf (rt @ '': unknown account %q'') [n]), w)"
  unfolding export_import_def export_then_import_def
  by (auto simp: account_def andthen_def split: option.split)

lemma export_then_import_file:
  "p \<noteq> Pub exp \<Longrightarrow> p \<noteq> Pub imp \<Longrightarrow>
     keeps (\<lambda>w. map_of (jwts w) (jwt_file p)) (export_then_import lib rt e i s exp imp)"
  unfolding export_then_import_def by (intro prog_rules operate_file)

lemma export_import_file:
  assumes "\<And>n a. n \<in> {e, i} \<Longrightarrow> accounts w n = Some a \<Longrightarrow> Pub a \<noteq> p"
  shows "map_of (jwts (snd (export_import lib rt e i s w))) (jwt_file p) = map_of (jwts w) (jwt_file p)"
proof (cases "accounts w e = None \<or> accounts w i = None")
  case True
  from export_import_unknown [OF this, of lib rt s] show ?thesis by auto
next
  case False
  then obtain exp imp where a: "accounts w e = Some exp" "accounts w i = Some imp" by auto
  have p: "p \<noteq> Pub exp" "p \<noteq> Pub imp" using assms a by auto
  have "export_import lib rt e i s w = export_then_import lib rt e i s exp imp w"
    using a by (simp add: export_import_def andthen_def account_def)
  then show ?thesis using keepsD [OF export_then_import_file [OF p]] by (metis prod.collapse)
qed

lemma export_import_grows:
  "export_import lib rt e i s w = (Inr r, w') \<Longrightarrow> map_of (jwts w) k \<noteq> None \<Longrightarrow> map_of (jwts w') k \<noteq> None"
  unfolding export_import_def export_then_import_def
  by (auto simp: andthen_eq_Inr_iff account_Inr dest!: operate_grows)

section \<open>The live broker stays coherent\<close>

text \<open>
  For an account, the resolver may hold what the directory holds, and the claims the server
  has loaded may be those of its current JWT.  \<open>coherent lib S w\<close>: both are so for every
  account outside \<open>S\<close>.
\<close>

definition bridged :: "('o, 'c) NATS \<Rightarrow> string \<Rightarrow> bool" where
  "bridged w pub \<longleftrightarrow> resolver w pub = map_of (jwts w) (jwt_file pub)"

definition live_ok :: "('o, 'c) natsop \<Rightarrow> ('o, 'c) NATS \<Rightarrow> string \<Rightarrow> bool" where
  "live_ok lib w pub \<longleftrightarrow>
     (\<forall>c. loaded w pub = Some c \<longrightarrow>
        (\<exists>j. map_of (jwts w) (jwt_file pub) = Some j \<and> DecodeClaims lib j = Inr c))"

definition good :: "('o, 'c) natsop \<Rightarrow> string set \<Rightarrow> string set \<Rightarrow> ('o, 'c) NATS \<Rightarrow> bool" where
  "good lib R L w \<longleftrightarrow> (\<forall>p. p \<notin> R \<longrightarrow> bridged w p) \<and> (\<forall>p. p \<notin> L \<longrightarrow> live_ok lib w p)"

definition coherent :: "('o, 'c) natsop \<Rightarrow> string set \<Rightarrow> ('o, 'c) NATS \<Rightarrow> bool" where
  "coherent lib S w \<longleftrightarrow> good lib S S w"

lemma jwt_name_cases:
  "has_suffix name ''.jwt'' \<Longrightarrow> name = jwt_file (trim_suffix name ''.jwt'')"
  by (auto simp: has_suffix_iff jwt_file_def)

lemma bridge_entry_ok:
  assumes "bridge_entry name w = (Inr u, w')"
  shows "w' = w\<lparr>resolver := (\<lambda>k. if jwt_file k = name then map_of (jwts w) name else resolver w k)\<rparr>"
proof (cases "has_suffix name ''.jwt''")
  case True
  then obtain b where b: "map_of (jwts w) name = Some b"
    "w' = w\<lparr>resolver := (resolver w)(trim_suffix name ''.jwt'' \<mapsto> b)\<rparr>"
    using assms by (auto simp: bridge_entry_def andthen_eq_Inr_iff read_jwt_def split: option.splits)
  have "jwt_file k = name \<longleftrightarrow> k = trim_suffix name ''.jwt''" for k
    using jwt_name_cases [OF True] by (metis jwt_file_inj)
  then show ?thesis using b by (auto simp: fun_eq_iff)
next
  case False
  moreover have "jwt_file k \<noteq> name" for k using False by (auto simp: jwt_file_def)
  ultimately show ?thesis using assms by (simp add: bridge_entry_def)
qed

lemma bridge_entries_ok:
  "for_each names bridge_entry w = (Inr u, w') \<Longrightarrow>
     w' = w\<lparr>resolver := (\<lambda>k. if jwt_file k \<in> set names then map_of (jwts w) (jwt_file k) else resolver w k)\<rparr>"
proof (induction names arbitrary: w u)
  case (Cons n names)
  then obtain v w1 us where 1: "bridge_entry n w = (Inr v, w1)"
    "for_each names bridge_entry w1 = (Inr us, w')"
    by (auto simp: andthen_eq_Inr_iff)
  show ?case using Cons.IH [OF 1(2)] bridge_entry_ok [OF 1(1)] by (auto simp: fun_eq_iff)
qed simp

lemma bridge_ok:
  assumes "bridge w = (Inr u, w')"
  shows "w' = w\<lparr>resolver := (\<lambda>k. case map_of (jwts w) (jwt_file k) of
                                 Some j \<Rightarrow> Some j | None \<Rightarrow> resolver w k)\<rparr>"
proof -
  obtain us where "for_each (sort (map fst (jwts w))) bridge_entry w = (Inr us, w')"
    using assms by (auto simp: bridge_def andthen_eq_Inr_iff split: option.splits)
  from bridge_entries_ok [OF this]
  have w': "w' = w\<lparr>resolver := (\<lambda>k. if jwt_file k \<in> fst ` set (jwts w)
      then map_of (jwts w) (jwt_file k) else resolver w k)\<rparr>" by simp
  have "(if jwt_file k \<in> fst ` set (jwts w) then map_of (jwts w) (jwt_file k) else resolver w k)
      = (case map_of (jwts w) (jwt_file k) of Some j \<Rightarrow> Some j | None \<Rightarrow> resolver w k)" for k
  proof (cases "map_of (jwts w) (jwt_file k)")
    case None
    then have "jwt_file k \<notin> fst ` set (jwts w)" by (simp add: map_of_eq_None_iff)
    then show ?thesis using None by simp
  next
    case (Some j)
    then have "jwt_file k \<in> fst ` set (jwts w)" by (metis map_of_eq_None_iff option.distinct(1))
    then show ?thesis using Some by simp
  qed
  then show ?thesis unfolding w' by simp
qed

lemma load_account_ok:
  assumes "good lib R L w" and "pub \<in> R \<longrightarrow> pub \<in> L"
  shows "good lib R L (load_account lib pub w)"
  using assms
  by (auto simp: load_account_def good_def bridged_def live_ok_def split: option.splits sum.splits)

text \<open>A refresh that comes back brings its account up to date, and one that fails harms none.\<close>

lemma refreshLoaded_ok:
  assumes "refreshLoaded lib pub w = (Inr u, w')" and "good lib R L w" and "pub \<notin> R"
  shows "good lib R (L - {pub}) w'"
proof -
  define w1 where "w1 = (if LookupFetches lib then load_account lib pub w else w)"
  have w1: "good lib R L w1"
    unfolding w1_def using load_account_ok [OF assms(2)] assms(2,3) by auto
  show ?thesis
  proof (cases "loaded w1 pub")
    case None
    then have "w' = w1" using assms(1) by (simp add: refreshLoaded_def w1_def Let_def)
    moreover have "live_ok lib w1 pub" using None by (simp add: live_ok_def)
    ultimately show ?thesis using w1 by (auto simp: good_def)
  next
    case (Some c)
    then obtain raw c' where "map_of (jwts w1) (jwt_file pub) = Some raw" "DecodeClaims lib raw = Inr c'"
      "w' = w1\<lparr>loaded := (loaded w1)(pub \<mapsto> c')\<rparr>"
      using assms(1)
      by (auto simp: refreshLoaded_def w1_def [symmetric] Let_def andthen_eq_Inr_iff read_jwt_def
          split: option.splits sum.splits)
    then show ?thesis using w1 by (auto simp: good_def bridged_def live_ok_def)
  qed
qed

lemma refreshLoaded_harmless:
  assumes "good lib R L w" and "pub \<in> R \<longrightarrow> pub \<in> L" and "refreshLoaded lib pub w = (r, w')"
  shows "good lib R L w'"
proof -
  define w1 where "w1 = (if LookupFetches lib then load_account lib pub w else w)"
  have w1: "good lib R L w1" unfolding w1_def using load_account_ok [OF assms(1,2)] assms(1) by auto
  have "w' = w1 \<or> (\<exists>raw c'. map_of (jwts w1) (jwt_file pub) = Some raw \<and> DecodeClaims lib raw = Inr c'
      \<and> w' = w1\<lparr>loaded := (loaded w1)(pub \<mapsto> c')\<rparr>)"
    using assms(3)
    by (auto simp: refreshLoaded_def w1_def [symmetric] Let_def andthen_def read_jwt_def
        split: option.splits sum.splits if_splits)
  then show ?thesis using w1 by (auto simp: good_def bridged_def live_ok_def split: if_splits)
qed

lemma bridge_entry_harmless: "triple (good lib R L) (bridge_entry name) (\<lambda>_. good lib R L) (\<lambda>_. good lib R L)"
proof (cases "has_suffix name ''.jwt''")
  case True
  have "name = jwt_file (trim_suffix name ''.jwt'')" by (rule jwt_name_cases [OF True])
  then show ?thesis
    using True
    by (auto simp: triple_def bridge_entry_def andthen_def read_jwt_def good_def bridged_def live_ok_def
        split: option.splits)
qed (simp add: bridge_entry_def triple_def)

lemma bridge_harmless:
  assumes "good lib R L w" and "bridge w = (r, w')"
  shows "good lib R L w'"
proof -
  have "triple (good lib R L) (andthen (for_each (sort (map fst (jwts w))) bridge_entry) (\<lambda>_. ret ()))
      (\<lambda>_. good lib R L) (\<lambda>_. good lib R L)"
    by (rule triple_andthen [OF triple_for_each [OF bridge_entry_harmless]]) (rule triple_ret)
  then show ?thesis
    using assms by (auto simp: bridge_def triple_def split: option.splits sum.splits)
qed

text \<open>The public keys of the accounts a grant names.\<close>

definition grant_keys :: "('o, 'c) NATS \<Rightarrow> string \<Rightarrow> string \<Rightarrow> string set" where
  "grant_keys w e i = set (List.map_filter (\<lambda>n. map_option Pub (accounts w n)) [e, i])"

lemma grant_keys_iff: "p \<in> grant_keys w e i \<longleftrightarrow> (\<exists>n \<in> {e, i}. \<exists>a. accounts w n = Some a \<and> Pub a = p)"
  by (auto simp: grant_keys_def map_filter_def split: if_splits)

lemma export_import_harmless:
  assumes "good lib R L w" and "export_import lib rt e i s w = (r, w')"
  shows "good lib (R \<union> grant_keys w e i) (L \<union> grant_keys w e i) w'"
proof -
  have kept: "resolver w' = resolver w" "loaded w' = loaded w"
    using keepsD [OF export_import_keeps_NATS(1) assms(2)] keepsD [OF export_import_keeps_NATS(2) assms(2)]
    by simp_all
  have "map_of (jwts w') (jwt_file p) = map_of (jwts w) (jwt_file p)" if "p \<notin> grant_keys w e i" for p
  proof -
    have "map_of (jwts (snd (export_import lib rt e i s w))) (jwt_file p) = map_of (jwts w) (jwt_file p)"
      by (rule export_import_file) (use that grant_keys_iff in blast)
    then show ?thesis using assms(2) by simp
  qed
  then show ?thesis using assms(1) by (auto simp: good_def bridged_def live_ok_def kept)
qed

lemma operate_file_there: "operate f a err w = (Inr u, w') \<Longrightarrow> map_of (jwts w') (jwt_file (Pub a)) \<noteq> None"
  by (auto simp: operate_def update_conv' split: option.splits sum.splits prod.splits)

lemma export_import_there:
  assumes "export_import lib rt e i s w = (Inr (exp, imp), w')"
  shows "map_of (jwts w') (jwt_file (Pub exp)) \<noteq> None \<and> map_of (jwts w') (jwt_file (Pub imp)) \<noteq> None"
  using assms unfolding export_import_def export_then_import_def
  by (auto simp: andthen_eq_Inr_iff account_Inr dest: operate_file_there operate_grows)

text \<open>A grant that comes back brings its two accounts up to date; however it ends, no other
  account is harmed.\<close>

lemma NATS_Grant_coherent:
  assumes "coherent lib S w" and "NATS_Grant lib e i s w = (Inr u, w')"
  shows "coherent lib (S - grant_keys w e i) w'"
proof -
  let ?K = "grant_keys w e i"
  obtain exp imp w1 w2 w3 v2 v3 where g: "export_import lib ''nats'' e i s w = (Inr (exp, imp), w1)"
    "bridge w1 = (Inr v2, w2)" "refreshLoaded lib (Pub exp) w2 = (Inr v3, w3)"
    "refreshLoaded lib (Pub imp) w3 = (Inr u, w')"
    using assms(2) unfolding NATS_Grant_def by (auto simp: andthen_eq_Inr_iff)
  have keys: "?K = {Pub exp, Pub imp}"
    using export_import_known [OF g(1)] by (auto simp: grant_keys_iff)
  have w1: "good lib (S \<union> ?K) (S \<union> ?K) w1"
    by (rule export_import_harmless [OF assms(1) [unfolded coherent_def] g(1)])
  have w2: "resolver w2 = (\<lambda>k. case map_of (jwts w1) (jwt_file k) of Some j \<Rightarrow> Some j | None \<Rightarrow> resolver w1 k)"
    "loaded w2 = loaded w1" "jwts w2 = jwts w1"
    using bridge_ok [OF g(2)] by simp_all
  have "bridged w2 p" if "p \<notin> S - ?K" for p
  proof (cases "p \<in> ?K")
    case True
    then have "map_of (jwts w1) (jwt_file p) \<noteq> None" using export_import_there [OF g(1)] keys by auto
    then show ?thesis by (auto simp: bridged_def w2)
  next
    case False
    then show ?thesis using that w1 by (auto simp: good_def bridged_def w2 split: option.split)
  qed
  then have "good lib (S - ?K) (S \<union> ?K) w2"
    using w1 by (simp add: good_def live_ok_def w2)
  then have "good lib (S - ?K) (S \<union> ?K - {Pub exp}) w3"
    by (rule refreshLoaded_ok [OF g(3)]) (simp add: keys)
  then have "good lib (S - ?K) (S \<union> ?K - {Pub exp} - {Pub imp}) w'"
    by (rule refreshLoaded_ok [OF g(4)]) (simp add: keys)
  moreover have "S \<union> ?K - {Pub exp} - {Pub imp} = S - ?K" unfolding keys by blast
  ultimately show ?thesis by (simp only: coherent_def)
qed

lemma NATS_Grant_harmless:
  assumes "coherent lib S w" and "NATS_Grant lib e i s w = (r, w')"
  shows "coherent lib (S \<union> grant_keys w e i) w'"
proof -
  let ?T = "S \<union> grant_keys w e i"
  obtain x w1 where 1: "export_import lib ''nats'' e i s w = (x, w1)"
    by (cases "export_import lib ''nats'' e i s w")
  have w1: "good lib ?T ?T w1" by (rule export_import_harmless [OF assms(1) [unfolded coherent_def] 1])
  let ?tail = "\<lambda>(exp, imp). andthen bridge (\<lambda>_. andthen (refreshLoaded lib (Pub exp)) (\<lambda>_. refreshLoaded lib (Pub imp)))"
  have "triple (good lib ?T ?T) (?tail y) (\<lambda>_. good lib ?T ?T) (\<lambda>_. good lib ?T ?T)" for y
  proof -
    have "triple (good lib ?T ?T) (bridge :: (('a, 'b) NATS, unit) prog) (\<lambda>_. good lib ?T ?T) (\<lambda>_. good lib ?T ?T)"
      by (rule triple_invariantI) (rule bridge_harmless)
    moreover have "triple (good lib ?T ?T) (refreshLoaded lib p) (\<lambda>_. good lib ?T ?T) (\<lambda>_. good lib ?T ?T)" for p
      by (rule triple_invariantI) (rule refreshLoaded_harmless, simp_all)
    ultimately show ?thesis by (cases y) (simp, (rule triple_andthen | assumption)+)
  qed
  note tail = this
  show ?thesis
  proof (cases x)
    case (Inl er)
    then show ?thesis using assms(2) 1 w1 by (simp add: NATS_Grant_def andthen_def coherent_def)
  next
    case (Inr y)
    then have "?tail y w1 = (r, w')" using assms(2) 1 by (simp add: NATS_Grant_def andthen_def)
    then show ?thesis
      using tripleD_Inl [OF tail [of y] w1] tripleD_Inr [OF tail [of y] w1] unfolding coherent_def
      by (cases r) simp_all
  qed
qed

text \<open>
  The runs of a broker, with the accounts whose JWT may have changed behind the server's
  back: clients connect, a node's publisher rewrites an account's JWT in the resolver
  directory, a grant is added or fails somewhere.
\<close>

definition rewrite_jwt :: "string \<Rightarrow> string \<Rightarrow> ('o, 'c) NATS \<Rightarrow> ('o, 'c) NATS" where
  "rewrite_jwt pub j w = w\<lparr>jwts := AList.update (jwt_file pub) j (jwts w)\<rparr>"

inductive broker_run ::
  "('o, 'c) natsop \<Rightarrow> ('o, 'c) NATS \<Rightarrow> string set \<Rightarrow> ('o, 'c) NATS \<Rightarrow> bool" for lib w0 where
  started: "broker_run lib w0 {} w0"
| connects: "broker_run lib w0 S w \<Longrightarrow> broker_run lib w0 S (connect lib pub w)"
| node_writes: "broker_run lib w0 S w \<Longrightarrow> broker_run lib w0 (insert pub S) (rewrite_jwt pub j w)"
| grants: "broker_run lib w0 S w \<Longrightarrow> NATS_Grant lib e i s w = (Inr u, w') \<Longrightarrow>
    broker_run lib w0 (S - grant_keys w e i) w'"
| grant_fails: "broker_run lib w0 S w \<Longrightarrow> NATS_Grant lib e i s w = (Inl er, w') \<Longrightarrow>
    broker_run lib w0 (S \<union> grant_keys w e i) w'"

lemma rewrite_coherent: "coherent lib S w \<Longrightarrow> coherent lib (insert pub S) (rewrite_jwt pub j w)"
  by (auto simp: coherent_def good_def bridged_def live_ok_def rewrite_jwt_def update_conv')

lemma broker_run_coherent: "broker_run lib w0 S w \<Longrightarrow> coherent lib {} w0 \<Longrightarrow> coherent lib S w"
proof (induction rule: broker_run.induct)
  case (connects S w pub)
  then show ?case
    using load_account_ok [of lib S S w pub] by (simp add: coherent_def connect_def)
next
  case (node_writes S w pub j)
  then show ?case by (simp add: rewrite_coherent)
next
  case (grants S w e i s u w')
  then show ?case using NATS_Grant_coherent by blast
next
  case (grant_fails S w e i s er w')
  then show ?case using NATS_Grant_harmless by blast
qed

definition empty_NATS :: "(string \<Rightarrow> string option) \<Rightarrow> ('o, 'c) NATS" where
  "empty_NATS f = \<lparr>accounts = Map.empty, ops = Map.empty, jwts = [], seeds = [], fault = f,
     resolver = Map.empty, loaded = Map.empty\<rparr>"

lemma write_seed_keeps [prog_rules]:
  "keeps resolver (write_seed n c m er)" "keeps loaded (write_seed n c m er)"
  "keeps accounts (write_seed n c m er)"
  by (simp_all add: keeps_def write_seed_def Let_def split: option.split)

lemma provision_account_keeps:
  assumes "\<And>n c m er. keeps f (write_seed n c m er)" and "\<And>g a er. keeps f (operate g a er)"
    and "\<And>u w. f (w\<lparr>ops := u\<rparr>) = f w" and "\<And>u w. f (w\<lparr>accounts := u\<rparr>) = f w"
  shows "keeps f (provision_account lib rt dir m se name keys)"
proof (cases keys)
  case (Inr sp)
  have upd: "keeps f (\<lambda>w. (Inr (), w\<lparr>ops := (ops w)(p \<mapsto> x)\<rparr>))"
    "keeps f (\<lambda>w. (Inr (), w\<lparr>accounts := (accounts w)(name \<mapsto> a)\<rparr>))" for p x a
    using assms(3,4) by (simp_all add: keeps_def)
  show ?thesis
    unfolding provision_account_def Inr Let_def sum.case
    by (cases sp; cases "NewOp lib (fst sp) se")
       (auto intro!: keeps_andthen keeps_abort assms(1,2) upd)
qed (simp add: provision_account_def keeps_abort)

lemma provision_keeps [prog_rules]:
  "keeps resolver (provision_account lib rt dir m se name keys)"
  "keeps loaded (provision_account lib rt dir m se name keys)"
  by (rule provision_account_keeps; (rule prog_rules | simp))+

lemma store_keeps [prog_rules]: "keeps loaded (\<lambda>w. (Inr (), w\<lparr>resolver := (resolver w)(k \<mapsto> b)\<rparr>))"
  by (simp add: keeps_def)

lemma bridge_entry_keeps [prog_rules]: "keeps loaded (bridge_entry n)"
  unfolding bridge_entry_def by (auto intro!: prog_rules)

lemma nats_prepare_keeps:
  "keeps resolver (nats_prepare lib dir opSeed keys)" "keeps loaded (nats_prepare lib dir opSeed keys)"
proof -
  have m: "keeps f (\<lambda>w. case fault w ''jwts'' of
                  Some e \<Rightarrow> (Inl (Fatalf ''nats: mkdir resolver dir: %v'' [e]), w)
                | None \<Rightarrow> (Inr (), w))" for f :: "('a, 'b) NATS \<Rightarrow> 'p"
    by (simp add: keeps_def split: option.split)
  show "keeps resolver (nats_prepare lib dir opSeed keys)" "keeps loaded (nats_prepare lib dir opSeed keys)"
    unfolding nats_prepare_def by (auto intro!: m prog_rules split: prod.split)
qed

lemma StartNATS_coherent:
  assumes "StartNATS lib dir op keys (empty_NATS f) = (Inr u, w)"
  shows "coherent lib {} w"
proof -
  obtain opSeed where op: "op = Inr opSeed"
    using assms by (cases op) (auto simp: StartNATS_def)
  have start: "StartNATS lib dir op keys = andthen (nats_prepare lib dir opSeed keys) (\<lambda>_. bridge)"
    by (simp add: StartNATS_def op)
  obtain us v where v: "nats_prepare lib dir opSeed keys (empty_NATS f) = (Inr us, v)" "bridge v = (Inr u, w)"
    using assms unfolding start by (auto simp: andthen_eq_Inr_iff)
  have "resolver v = Map.empty" "loaded v = Map.empty"
    using keepsD [OF nats_prepare_keeps(1) v(1)] keepsD [OF nats_prepare_keeps(2) v(1)]
    by (simp_all add: empty_NATS_def)
  then show ?thesis
    using bridge_ok [OF v(2)]
    by (auto simp: coherent_def good_def bridged_def live_ok_def split: option.split)
qed

end
