(* ===== verification/Runtimes.thy ===== *)
theory Runtimes
  imports Broker
begin

text \<open>
  What the two broker runtimes promise, proved over the model of \<open>Broker\<close>: the contract of
  grants as a locale that both runtimes interpret, the broker configuration that preloads the
  current JWTs, and a simulation between the live and the preloaded runtime.
\<close>

section \<open>The contract of grants\<close>

definition grant_all ::
  "(string \<Rightarrow> string \<Rightarrow> string \<Rightarrow> ('w, unit) prog) \<Rightarrow> (string \<times> string \<times> string) list \<Rightarrow>
     ('w, unit list) prog" where
  "grant_all grant gs = for_each gs (\<lambda>(e, i, s). grant e i s)"

text \<open>
  What the scenarios rely on in either runtime: a grant changes no account, succeeds only
  between known accounts, and leaves the JWT of every account it does not name alone.
\<close>

locale registry =
  fixes grant :: "string \<Rightarrow> string \<Rightarrow> string \<Rightarrow> ('w, unit) prog"
    and acc :: "'w \<Rightarrow> string \<Rightarrow> NATSAccount option"
    and jwt :: "'w \<Rightarrow> string \<Rightarrow> string option"
  assumes grant_accounts: "keeps acc (grant e i s)"
    and grant_known: "grant e i s w = (Inr u, w') \<Longrightarrow> acc w e \<noteq> None \<and> acc w i \<noteq> None"
    and grant_frame: "(\<And>n a. n \<in> {e, i} \<Longrightarrow> acc w n = Some a \<Longrightarrow> Pub a \<noteq> p) \<Longrightarrow>
           jwt (snd (grant e i s w)) p = jwt w p"
begin

lemma all_accounts: "keeps acc (grant_all grant gs)"
  unfolding grant_all_def by (auto intro!: keeps_for_each grant_accounts split: prod.split)

lemma all_known:
  "grant_all grant gs w = (Inr u, w') \<Longrightarrow> (e, i, s) \<in> set gs \<Longrightarrow> acc w e \<noteq> None \<and> acc w i \<noteq> None"
proof (induction gs arbitrary: w u)
  case (Cons g gs)
  obtain e1 i1 s1 where g: "g = (e1, i1, s1)" by (cases g) auto
  obtain v w1 us where 1: "grant e1 i1 s1 w = (Inr v, w1)" "grant_all grant gs w1 = (Inr us, w')"
    using Cons.prems(1) by (auto simp: grant_all_def g andthen_eq_Inr_iff)
  have "acc w1 = acc w" using keepsD [OF grant_accounts 1(1)] .
  then show ?case using Cons.IH [OF 1(2)] Cons.prems(2) grant_known [OF 1(1)] g by auto
qed simp

lemma all_frame:
  assumes "\<And>e i s n a. (e, i, s) \<in> set gs \<Longrightarrow> n \<in> {e, i} \<Longrightarrow> acc w n = Some a \<Longrightarrow> Pub a \<noteq> p"
  shows "jwt (snd (grant_all grant gs w)) p = jwt w p"
  using assms
proof (induction gs arbitrary: w)
  case (Cons g gs)
  obtain e i s where g: "g = (e, i, s)" by (cases g) auto
  obtain r w1 where 1: "grant e i s w = (r, w1)" by (cases "grant e i s w")
  have "jwt (snd (grant e i s w)) p = jwt w p"
    by (rule grant_frame, rule Cons.prems [of e i s]) (simp_all add: g)
  then have j: "jwt w1 p = jwt w p" using 1 by simp
  have a: "acc w1 = acc w" using keepsD [OF grant_accounts 1] .
  have rest: "jwt (snd (grant_all grant gs w1)) p = jwt w1 p"
  proof (rule Cons.IH)
    fix e i s n b
    assume "(e, i, s) \<in> set gs" "n \<in> {e, i}" "acc w1 n = Some b"
    then show "Pub b \<noteq> p" using Cons.prems [of e i s n b] a by simp
  qed
  have "snd (grant_all grant (g # gs) w) =
      (case r of Inl _ \<Rightarrow> w1 | Inr _ \<Rightarrow> snd (grant_all grant gs w1))"
    using 1 by (cases r) (auto simp: grant_all_def g andthen_def split: prod.split sum.split)
  then show ?case using rest j by (cases r) simp_all
qed (simp add: grant_all_def)

end

lemma bridge_keeps:
  assumes "\<And>r w. f (w\<lparr>resolver := r\<rparr>) = f w"
  shows "keeps f bridge"
proof -
  have "keeps f (bridge_entry n)" for n
    unfolding bridge_entry_def
    by (auto intro!: keeps_andthen keeps_ret read_jwt_keeps simp: keeps_def [of f "\<lambda>w. (Inr (), _ w)"] assms)
  then have "keeps f (andthen (for_each ns bridge_entry) (\<lambda>_. ret ()))" for ns
    by (intro keeps_andthen keeps_for_each keeps_ret)
  then show ?thesis unfolding keeps_def bridge_def by (simp split: option.split)
qed

lemma refreshLoaded_keeps:
  assumes "\<And>r w. f (w\<lparr>loaded := r\<rparr>) = f w"
  shows "keeps f (refreshLoaded lib pub)"
proof -
  let ?body = "andthen (read_jwt (jwt_file pub) (\<lambda>e. Fatalf ''nats: read refreshed jwt for %s: %v'' [pub, e])) (\<lambda>raw.
         (case DecodeClaims lib raw of
            Inl e \<Rightarrow> abort (Fatalf ''nats: decode refreshed jwt for %s: %v'' [pub, e])
          | Inr c \<Rightarrow> (\<lambda>w. (Inr (), w\<lparr>loaded := (loaded w)(pub \<mapsto> c)\<rparr>))))"
  have l: "f (load_account lib pub w) = f w" for w
    by (simp add: load_account_def assms split: option.split sum.split)
  have "keeps f (\<lambda>w. (Inr (), w\<lparr>loaded := (loaded w)(pub \<mapsto> c)\<rparr>))" for c
    by (simp add: keeps_def assms)
  then have "keeps f ?body"
    by (auto intro!: keeps_andthen read_jwt_keeps keeps_abort split: sum.split)
  then show ?thesis
    unfolding keeps_def refreshLoaded_def Let_def by (simp add: l)
qed

lemma NATS_Grant_keeps: "keeps accounts (NATS_Grant lib e i s)"
  unfolding NATS_Grant_def
  by (auto intro!: keeps_andthen export_import_keeps(1) bridge_keeps refreshLoaded_keeps split: prod.split)

lemma NATS_Grant_jwts:
  "jwts (snd (NATS_Grant lib e i s w)) = jwts (snd (export_import lib ''nats'' e i s w))"
  unfolding NATS_Grant_def
  by (rule keeps_after) (auto intro!: keeps_andthen bridge_keeps refreshLoaded_keeps split: prod.split)

lemma NATS_Grant_known:
  "NATS_Grant lib e i s w = (Inr u, w') \<Longrightarrow> accounts w e \<noteq> None \<and> accounts w i \<noteq> None"
  unfolding NATS_Grant_def by (auto simp: andthen_eq_Inr_iff dest: export_import_known)

interpretation live: registry "NATS_Grant lib" accounts "\<lambda>w p. map_of (jwts w) (jwt_file p)" for lib
proof (unfold_locales, goal_cases)
  case 1
  show ?case by (rule NATS_Grant_keeps)
next
  case (2 e i s w u w')
  then show ?case by (rule NATS_Grant_known)
next
  case (3 e i w p s)
  then show ?case unfolding NATS_Grant_jwts by (rule export_import_file)
qed

lemma Compose_Grant_eq:
  "Compose_Grant lib e i s w =
     (if brokerConfigWritten w then (fst (Compose_Grant lib e i s w), w)
      else (map_sum id (\<lambda>_. ()) (fst (export_import lib ''compose'' e i s w)),
            snd (export_import lib ''compose'' e i s w)))"
  by (auto simp: Compose_Grant_def andthen_def split: prod.split sum.split)

lemma Compose_Grant_keeps: "keeps accounts (Compose_Grant lib e i s)"
  unfolding keeps_def
  by (subst Compose_Grant_eq) (simp add: export_import_keeps(1) [unfolded keeps_def, rule_format])

lemma Compose_Grant_known:
  "Compose_Grant lib e i s w = (Inr u, w') \<Longrightarrow> accounts w e \<noteq> None \<and> accounts w i \<noteq> None"
  unfolding Compose_Grant_def
  by (auto simp: andthen_eq_Inr_iff dest: export_import_known split: if_splits)

interpretation preloaded: registry "Compose_Grant lib" accounts "\<lambda>w p. map_of (jwts w) (jwt_file p)" for lib
proof (unfold_locales, goal_cases)
  case 1
  show ?case by (rule Compose_Grant_keeps)
next
  case (2 e i s w u w')
  then show ?case by (rule Compose_Grant_known)
next
  case (3 e i w p s)
  then have "map_of (jwts (snd (export_import lib ''compose'' e i s w))) (jwt_file p) = map_of (jwts w) (jwt_file p)"
    by (rule export_import_file)
  then show ?case by (subst Compose_Grant_eq) simp
qed

section \<open>The preloaded configuration\<close>

lemma Compose_Grant_latched: "brokerConfigWritten w \<Longrightarrow> snd (Compose_Grant lib e i s w) = w"
  by (simp add: Compose_Grant_def)

lemma grant_all_latched:
  "brokerConfigWritten w \<Longrightarrow> snd (grant_all (Compose_Grant lib) gs w) = w"
proof (cases gs)
  case (Cons g gs')
  assume "brokerConfigWritten w"
  then show ?thesis using Cons by (cases g) (simp add: grant_all_def andthen_def Compose_Grant_def)
qed (simp add: grant_all_def)

lemma preload_line_ok:
  "preload_line pr a w = (Inr l, w') \<Longrightarrow>
     w' = w \<and> (\<exists>j. map_of (jwts w) (jwt_file (Pub a)) = Some j
                  \<and> l = ''  '' @ Pub a @ '': '' @ quote pr (trim_space j) @ [nl])"
  by (auto simp: preload_line_def andthen_eq_Inr_iff read_jwt_def split: option.splits)

lemma preload_lines_ok:
  "for_each names (\<lambda>name. andthen (account ''compose'' name) (preload_line pr)) w = (Inr ls, w') \<Longrightarrow>
     w' = w \<and> (\<forall>name \<in> set names. \<exists>a j. accounts w name = Some a
        \<and> map_of (jwts w) (jwt_file (Pub a)) = Some j
        \<and> sublist (''  '' @ Pub a @ '': '' @ quote pr (trim_space j) @ [nl]) (concat ls))"
proof (induction names arbitrary: ls)
  case (Cons n names)
  obtain a l ls' where 1: "accounts w n = Some a" "preload_line pr a w = (Inr l, w)"
    "for_each names (\<lambda>name. andthen (account ''compose'' name) (preload_line pr)) w = (Inr ls', w')"
    "ls = l # ls'"
    using Cons.prems by (auto simp: andthen_eq_Inr_iff account_Inr dest: preload_line_ok)
  obtain j where j: "map_of (jwts w) (jwt_file (Pub a)) = Some j"
    "l = ''  '' @ Pub a @ '': '' @ quote pr (trim_space j) @ [nl]"
    using preload_line_ok [OF 1(2)] by blast
  have head: "sublist l (concat ls)" by (simp add: 1(4))
  have tail: "sublist x (concat ls') \<Longrightarrow> sublist x (concat ls)" for x
    unfolding sublist_def by (metis 1(4) append_assoc concat.simps(2))
  show ?case
    using Cons.IH [OF 1(3)] 1(1) j head tail by (auto 4 4)
qed simp

text \<open>
  The broker will preload, for every account, the JWT its operator published last.
\<close>

definition preloads_current :: \<open>(nat \<Rightarrow> bool) \<Rightarrow> 'o ComposeProvision \<Rightarrow> bool\<close> where
  \<open>preloads_current pr w \<longleftrightarrow>
     (\<forall>name a. accounts w name = Some a \<longrightarrow>
        (\<exists>j conf. brokerConf w = Some conf \<and> map_of (jwts w) (jwt_file (Pub a)) = Some j
           \<and> sublist (''  '' @ Pub a @ '': '' @ quote pr (trim_space j) @ [nl]) conf))\<close>

text \<open>
  The containers' user can rewrite every JWT and add new ones, and finds each file's
  current content there.
\<close>

definition handed_over :: "'o ComposeProvision \<Rightarrow> bool" where
  "handed_over w \<longleftrightarrow>
     (case jwtTree w of
        None \<Rightarrow> False
      | Some t \<Rightarrow> others_write t \<and> (\<forall>n. read_file t [n] = map_of (jwts w) n))"

lemma read_jwts_tree: "read_file (jwts_tree w) [n] = map_of (jwts w) n"
proof -
  have "map_of (foldr (\<lambda>(n, c). put n (File c (m n))) js []) n = map_option (\<lambda>c. File c (m n)) (map_of js n)"
    for m and js :: "(string \<times> string) list"
    by (induction js) (auto split: prod.split)
  then show ?thesis by (simp add: jwts_tree_def split: option.split)
qed

lemma open_jwts_ok:
  assumes "open_jwts dir w = (Inr u, w')"
  shows "\<exists>t. w' = w\<lparr>jwtTree := t\<rparr> \<and> handed_over w'"
proof -
  obtain t where t: "makeContainerWritable (chmodErr w) (readdirErr w) (path_join [dir, ''jwts'']) (Some (jwts_tree w))
      = (Inr u, t)" "w' = w\<lparr>jwtTree := t\<rparr>"
    using assms by (auto simp: open_jwts_def split: prod.splits)
  obtain t' where t': "t = Some t'" "others_write t'" "bare t' = bare (jwts_tree w)"
    using makeContainerWritable_ok [OF t(1)] by blast
  show ?thesis
    using t(2) t'(1,2) bare_read [OF t'(3)] read_jwts_tree [of w]
    by (intro exI [of _ t]) (simp add: handed_over_def)
qed

lemma WriteBrokerConfig_ok:
  assumes "WriteBrokerConfig pr dir names w = (Inr u, w')" and "set names = dom (accounts w)"
  shows "brokerConfigWritten w' \<and> preloads_current pr w' \<and> handed_over w'"
proof -
  let ?w1 = "w\<lparr>brokerConfigWritten := True\<rparr>"
  obtain ls w2 where 1: "for_each names (\<lambda>name. andthen (account ''compose'' name) (preload_line pr)) ?w1
      = (Inr ls, w2)" "open_jwts dir (w2\<lparr>brokerConf := Some (conf_head @ concat ls @ ''}\<newline>'')\<rparr>) = (Inr u, w')"
    using assms(1) by (auto simp: WriteBrokerConfig_def andthen_eq_Inr_iff split: option.splits)
  obtain t where t: "w' = w2\<lparr>brokerConf := Some (conf_head @ concat ls @ ''}\<newline>''), jwtTree := t\<rparr>" "handed_over w'"
    using open_jwts_ok [OF 1(2)] by auto
  have 2: "w2 = ?w1" "\<forall>name \<in> set names. \<exists>a j. accounts w name = Some a
        \<and> map_of (jwts w) (jwt_file (Pub a)) = Some j
        \<and> sublist (''  '' @ Pub a @ '': '' @ quote pr (trim_space j) @ [nl]) (concat ls)"
    using preload_lines_ok [OF 1(1)] by simp_all
  have pad: "sublist x (concat ls) \<Longrightarrow> sublist x (conf_head @ concat ls @ ''}\<newline>'')" for x
    unfolding sublist_def by (metis append_assoc)
  have "preloads_current pr w'"
    unfolding preloads_current_def
  proof (intro allI impI)
    fix name a
    assume a: "accounts w' name = Some a"
    then have "accounts w name = Some a" by (simp add: t(1) 2(1))
    moreover from this have "name \<in> set names" using assms(2) by auto
    ultimately obtain j where j: "map_of (jwts w) (jwt_file (Pub a)) = Some j"
      "sublist (''  '' @ Pub a @ '': '' @ quote pr (trim_space j) @ [nl]) (concat ls)"
      using 2(2) by fastforce
    show "\<exists>j conf. brokerConf w' = Some conf \<and> map_of (jwts w') (jwt_file (Pub a)) = Some j
           \<and> sublist (''  '' @ Pub a @ '': '' @ quote pr (trim_space j) @ [nl]) conf"
      using j(1) pad [OF j(2)]
      by (intro exI [of _ j] exI [of _ "conf_head @ concat ls @ ''}\<newline>''"] conjI) (simp_all add: t(1) 2(1))
  qed
  then show ?thesis using t(2) by (simp add: t(1) 2(1))
qed

section \<open>The two runtimes provision alike\<close>

definition same_trust :: "('o, 'y) provision_scheme \<Rightarrow> ('o, 'z) provision_scheme \<Rightarrow> bool" where
  "same_trust w v \<longleftrightarrow> accounts w = accounts v \<and> ops w = ops v \<and> jwts w = jwts v"

definition sim :: "('v \<Rightarrow> 'w \<Rightarrow> bool) \<Rightarrow> ('v, 'a) prog \<Rightarrow> ('w, 'b) prog \<Rightarrow> ('a \<Rightarrow> 'b \<Rightarrow> bool) \<Rightarrow> bool" where
  "sim R m n Q \<longleftrightarrow> (\<forall>v w x y v' w'. R v w \<longrightarrow> m v = (Inr x, v') \<longrightarrow> n w = (Inr y, w') \<longrightarrow> R v' w' \<and> Q x y)"

named_theorems sim_rules "closure rules of simulations between runtimes"

lemma simD: "sim R m n Q \<Longrightarrow> R v w \<Longrightarrow> m v = (Inr x, v') \<Longrightarrow> n w = (Inr y, w') \<Longrightarrow> R v' w' \<and> Q x y"
  unfolding sim_def by blast

lemma sim_ret [sim_rules]: "Q x y \<Longrightarrow> sim R (ret x) (ret y) Q"
  by (simp add: sim_def)

lemma sim_abort [sim_rules]: "sim R (abort e) n Q" "sim R m (abort e) Q"
  by (simp_all add: sim_def)

lemma sim_andthen [sim_rules]:
  "sim R m n P \<Longrightarrow> (\<And>x y. P x y \<Longrightarrow> sim R (f x) (g y) Q) \<Longrightarrow> sim R (andthen m f) (andthen n g) Q"
  unfolding sim_def andthen_eq_Inr_iff by blast

lemma sim_for_each [sim_rules]:
  "(\<And>x. x \<in> set xs \<Longrightarrow> sim R (f x) (g x) (\<lambda>_ _. True)) \<Longrightarrow>
     sim R (for_each xs f) (for_each xs g) (\<lambda>_ _. True)"
  by (induction xs) (auto intro!: sim_rules simp: sim_ret)

lemma sim_account [sim_rules]: "sim same_trust (account r1 name) (account r2 name) (=)"
  by (auto simp: sim_def account_Inr same_trust_def)

lemma sim_operate [sim_rules]: "sim same_trust (operate f a e1) (operate f a e2) (\<lambda>_ _. True)"
  by (auto simp: sim_def same_trust_def operate_def split: option.splits sum.splits prod.splits)

lemma sim_write_seed [sim_rules]:
  "sim same_trust (write_seed n c m1 e1) (write_seed n c m2 e2) (\<lambda>_ _. True)"
  by (auto simp: sim_def same_trust_def write_seed_def Let_def split: option.splits)

lemma sim_export_import [sim_rules]:
  "sim same_trust (export_import lib r1 e i s) (export_import lib r2 e i s) (\<lambda>_ _. True)"
proof -
  have "sim same_trust (export_then_import lib r1 e i s x y) (export_then_import lib r2 e i s x y) (\<lambda>_ _. True)"
    for x y
    unfolding export_then_import_def by (rule sim_rules TrueI)+
  then show ?thesis
    unfolding export_import_def by (auto intro!: sim_andthen sim_account)
qed

lemma sim_ops [sim_rules]:
  "sim same_trust (\<lambda>w. (Inr (), w\<lparr>ops := (ops w)(p \<mapsto> x)\<rparr>)) (\<lambda>w. (Inr (), w\<lparr>ops := (ops w)(p \<mapsto> x)\<rparr>)) (\<lambda>_ _. True)"
  "sim same_trust (\<lambda>w. (Inr (), w\<lparr>accounts := (accounts w)(n \<mapsto> a)\<rparr>))
     (\<lambda>w. (Inr (), w\<lparr>accounts := (accounts w)(n \<mapsto> a)\<rparr>)) (\<lambda>_ _. True)"
  by (simp_all add: sim_def same_trust_def)

lemma sim_provision_account [sim_rules]:
  "sim same_trust (provision_account lib r1 dir m1 se name keys)
     (provision_account lib r2 dir m2 se name keys) (\<lambda>_ _. True)"
proof (cases keys)
  case (Inr sp)
  show ?thesis
    unfolding provision_account_def Inr Let_def sum.case
    by (cases sp; cases "NewOp lib (fst sp) se") (auto intro!: sim_rules)
qed (simp add: provision_account_def sim_rules)

text \<open>A step one runtime takes alone, which leaves accounts, operators and JWTs as they are.\<close>

lemma sim_left:
  assumes "keeps accounts m" "keeps ops m" "keeps jwts m" and "\<And>x. sim same_trust (f x) n Q"
  shows "sim same_trust (andthen m f) n Q"
  unfolding sim_def andthen_eq_Inr_iff
proof (intro allI impI, elim exE conjE)
  fix v w x y v' w' x1 v1
  assume "same_trust v w" "m v = (Inr x1, v1)" "f x1 v1 = (Inr x, v')" "n w = (Inr y, w')"
  moreover from this have "same_trust v1 w"
    using assms(1-3) [THEN keepsD] by (fastforce simp: same_trust_def)
  ultimately show "same_trust v' w' \<and> Q x y" using simD [OF assms(4)] by blast
qed

lemma sim_right:
  assumes "keeps accounts n" "keeps ops n" "keeps jwts n" and "\<And>x. sim same_trust m (g x) Q"
  shows "sim same_trust m (andthen n g) Q"
  unfolding sim_def andthen_eq_Inr_iff
proof (intro allI impI, elim exE conjE)
  fix v w x y v' w' y1 w1
  assume "same_trust v w" "m v = (Inr x, v')" "n w = (Inr y1, w1)" "g y1 w1 = (Inr y, w')"
  moreover from this have "same_trust v w1"
    using assms(1-3) [THEN keepsD] by (fastforce simp: same_trust_def)
  ultimately show "same_trust v' w' \<and> Q x y" using simD [OF assms(4)] by blast
qed

lemma sim_silent:
  "keeps accounts m \<Longrightarrow> keeps ops m \<Longrightarrow> keeps jwts m \<Longrightarrow> sim same_trust m (ret ()) (\<lambda>_ _. True)"
  unfolding sim_def same_trust_def ret_def by (metis keepsD prod.inject)

lemma sim_Grant [sim_rules]: "sim same_trust (NATS_Grant lib e i s) (Compose_Grant lib e i s) (\<lambda>_ _. True)"
proof -
  let ?core = "andthen (export_import lib ''compose'' e i s) (\<lambda>_. ret ())"
  have "sim same_trust (NATS_Grant lib e i s) ?core (\<lambda>_ _. True)"
    unfolding NATS_Grant_def
    by (rule sim_andthen [OF sim_export_import])
       (auto intro!: sim_silent keeps_andthen bridge_keeps refreshLoaded_keeps split: prod.split)
  then show ?thesis
    unfolding sim_def Compose_Grant_def by (auto split: if_splits)
qed

lemma mkdir_keeps: "keeps f (\<lambda>w. case fault w d of Some e \<Rightarrow> (Inl (m e), w) | None \<Rightarrow> (Inr (), w))"
  by (simp add: keeps_def split: option.split)

lemma write_seed_keeps_trust:
  "keeps accounts (write_seed n c m er)" "keeps ops (write_seed n c m er)" "keeps jwts (write_seed n c m er)"
  by (simp_all add: keeps_def write_seed_def Let_def split: option.split)

lemma sim_prepare:
  "sim same_trust (StartNATS lib dir op keys) (ProvisionCompose lib dir op opJWT keys) (\<lambda>_ _. True)"
proof (cases op)
  case (Inr opSeed)
  let ?names = "\<lambda>rt m. for_each keys (\<lambda>(name, k). provision_account lib rt dir m opSeed name k)"
  have "sim same_trust (andthen (?names ''nats'' 0x180) (\<lambda>_. bridge))
      (andthen (?names ''compose'' 0x1A4) (\<lambda>_. ret ())) (\<lambda>_ _. True)"
    by (rule sim_andthen [OF sim_for_each])
       (auto intro!: sim_provision_account sim_silent bridge_keeps split: prod.split)
  note core = this
  have nats: "keeps f (\<lambda>w. case fault w ''jwts'' of
                  Some e \<Rightarrow> (Inl (Fatalf ''nats: mkdir resolver dir: %v'' [e]), w)
                | None \<Rightarrow> (Inr (), w))" for f :: "('a, 'b) NATS \<Rightarrow> 'p" by (rule mkdir_keeps)
  have dirs: "keeps f (for_each [''jwts'', ''nats''] (\<lambda>d w. case fault w d of
                       Some e \<Rightarrow> (Inl (Fatalf ''compose: mkdir: %v'' [e]), w)
                     | None \<Rightarrow> (Inr (), w)))" for f :: "'a ComposeProvision \<Rightarrow> 'p"
    by (intro keeps_for_each mkdir_keeps)
  show ?thesis
    unfolding StartNATS_def ProvisionCompose_def nats_prepare_def Inr sum.case andthen_assoc
    by (cases opJWT; simp only: sum.case)
       (intro sim_left [OF nats nats nats] sim_left [OF write_seed_keeps_trust]
          sim_right [OF dirs dirs dirs] sim_right [OF write_seed_keeps_trust] sim_abort core)+
qed (simp add: StartNATS_def ProvisionCompose_def sim_abort)

definition empty_compose :: "(string \<Rightarrow> string option) \<Rightarrow> 'o ComposeProvision" where
  "empty_compose f = \<lparr>accounts = Map.empty, ops = Map.empty, jwts = [], seeds = [], fault = f,
     brokerConfigWritten = False, brokerConf = None, jwtMode = (\<lambda>_. 0x180), chmodErr = (\<lambda>_. None),
     readdirErr = (\<lambda>_. None), jwtTree = None\<rparr>"

section \<open>Correctness of the broker's provisioning\<close>

text \<open>A codec whose JWT is the text of the claims, for the concrete runs below.\<close>

definition demo_lib :: "(string, string) natsop" where
  "demo_lib = \<lparr>NewOp = (\<lambda>seed opSeed. Inr seed), PublishClaims = (\<lambda>x. Inr (x, x)),
     AddExport = (\<lambda>x s. Inr (x @ ''+'' @ s, x @ ''+'' @ s)),
     AddImport = (\<lambda>x s e s'. Inr (x @ ''-'' @ e @ s, x @ ''-'' @ e @ s)),
     DecodeClaims = Inr, LookupFetches = True\<rparr>"

definition demo_keys :: "(string \<times> (string + string \<times> string)) list" where
  "demo_keys = [(''acme'', Inr (''S1'', ''A'')), (''beta'', Inr (''S2'', ''B'')), (''ceti'', Inr (''S3'', ''C''))]"

definition demo_nats :: "(string, string) NATS" where
  "demo_nats = snd (StartNATS demo_lib ''/t'' (Inr ''OP'') demo_keys (empty_NATS (\<lambda>_. None)))"

definition demo_compose :: "string ComposeProvision" where
  "demo_compose = snd (ProvisionCompose demo_lib ''/t'' (Inr ''OP'') (Inr ''J'') demo_keys (empty_compose (\<lambda>_. None)))"

lemmas demo_run = demo_compose_def demo_keys_def demo_lib_def empty_compose_def ProvisionCompose_def
  provision_account_def andthen_def write_seed_def operate_def Let_def

text \<open>C23: In a broker that was started and has since served clients, while nodes rewrote JWTs
  in its directory and grants were added or failed, the claims held for an account are those
  of its current JWT file, unless a node or a failed grant has touched the account since the
  last grant that refreshed it; and a grant that comes back leaves the claims of its two
  accounts current whatever happened before.\<close>

theorem broker_never_stale:
  assumes "StartNATS lib dir op keys (empty_NATS f) = (Inr u, w0)" and "broker_run lib w0 S w"
  shows "(pub \<notin> S \<longrightarrow> live_ok lib w pub)
    \<and> (\<forall>e i s v w'. NATS_Grant lib e i s w = (Inr v, w') \<and> pub \<in> grant_keys w e i \<longrightarrow> live_ok lib w' pub)"
proof -
  have "coherent lib S w" by (rule broker_run_coherent [OF assms(2) StartNATS_coherent [OF assms(1)]])
  then show ?thesis using NATS_Grant_coherent [of lib S w] by (auto simp: coherent_def good_def)
qed

lemma demo_nats_started:
  "StartNATS demo_lib ''/t'' (Inr ''OP'') demo_keys (empty_NATS (\<lambda>_. None)) = (Inr (), demo_nats)"
proof -
  have "fst (StartNATS demo_lib ''/t'' (Inr ''OP'') demo_keys (empty_NATS (\<lambda>_. None))) = Inr ()" by code_simp
  then show ?thesis unfolding demo_nats_def by (metis prod.collapse)
qed

text \<open>A client of an account connects, a node rewrites the account's JWT, a grant follows.\<close>

definition demo_rewritten :: "(string, string) NATS" where
  "demo_rewritten = rewrite_jwt ''A'' ''S1+node'' (connect demo_lib ''A'' demo_nats)"

definition demo_granted :: "(string, string) NATS" where
  "demo_granted = snd (NATS_Grant demo_lib ''acme'' ''beta'' ''orders'' demo_rewritten)"

lemma demo_grant: "NATS_Grant demo_lib ''acme'' ''beta'' ''orders'' demo_rewritten = (Inr (), demo_granted)"
proof -
  have "fst (NATS_Grant demo_lib ''acme'' ''beta'' ''orders'' demo_rewritten) = Inr ()" by code_simp
  then show ?thesis unfolding demo_granted_def by (metis prod.collapse)
qed

lemma demo_rewritten_run: "broker_run demo_lib demo_nats {''A''} demo_rewritten"
  unfolding demo_rewritten_def
  by (rule broker_run.node_writes [OF broker_run.connects [OF broker_run.started]])

lemma broker_never_stale_witness:
  "live_ok demo_lib demo_rewritten ''B'' \<and> live_ok demo_lib demo_granted ''A''
   \<and> loaded demo_rewritten ''A'' = Some ''S1'' \<and> loaded demo_granted ''A'' = Some ''S1+orders''"
proof (intro conjI)
  note run = broker_never_stale [OF demo_nats_started demo_rewritten_run]
  show "live_ok demo_lib demo_rewritten ''B''" using run [of "''B''"] by simp
  have "''A'' \<in> grant_keys demo_rewritten ''acme'' ''beta''" by code_simp
  then show "live_ok demo_lib demo_granted ''A''" using run [of "''A''"] demo_grant by blast
  show "loaded demo_rewritten ''A'' = Some ''S1''" "loaded demo_granted ''A'' = Some ''S1+orders''"
    by (code_simp, code_simp)
qed

definition names_key :: "(string \<rightharpoonup> NATSAccount) \<Rightarrow> (string \<times> string \<times> string) list \<Rightarrow> string \<Rightarrow> bool" where
  "names_key acc gs p =
     list_ex (\<lambda>(e, i, s). list_ex (\<lambda>n. map_option Pub (acc n) = Some p) [e, i]) gs"

lemma not_names_key:
  "\<not> names_key acc gs p \<Longrightarrow> (e, i, s) \<in> set gs \<Longrightarrow> n \<in> {e, i} \<Longrightarrow> acc n = Some a \<Longrightarrow> Pub a \<noteq> p"
  by (auto simp: names_key_def list_ex_iff)

lemma grants_frame:
  "\<not> names_key (accounts w) gs p \<Longrightarrow>
     map_of (jwts (snd (grant_all (NATS_Grant lib) gs w))) (jwt_file p) = map_of (jwts w) (jwt_file p)"
  "\<not> names_key (accounts v) gs p \<Longrightarrow>
     map_of (jwts (snd (grant_all (Compose_Grant lib) gs v))) (jwt_file p) = map_of (jwts v) (jwt_file p)"
  by (rule live.all_frame preloaded.all_frame, erule (3) not_names_key)+

text \<open>C26: Grants change no account, and leave the JWT of an account that none of them names
  as it was, in either runtime and however they end.\<close>

theorem grants_leave_others:
  assumes "\<not> names_key (accounts w) gs p" and "\<not> names_key (accounts v) gs p"
  shows "accounts (snd (grant_all (NATS_Grant lib) gs w)) = accounts w
      \<and> map_of (jwts (snd (grant_all (NATS_Grant lib) gs w))) (jwt_file p) = map_of (jwts w) (jwt_file p)
      \<and> accounts (snd (grant_all (Compose_Grant lib) gs v)) = accounts v
      \<and> map_of (jwts (snd (grant_all (Compose_Grant lib) gs v))) (jwt_file p) = map_of (jwts v) (jwt_file p)"
  using live.all_accounts [of lib gs] preloaded.all_accounts [of lib gs]
    grants_frame(1) [OF assms(1), of lib] grants_frame(2) [OF assms(2), of lib]
  by (simp add: keeps_def)

lemma grants_leave_others_witness:
  "map_of (jwts (snd (grant_all (NATS_Grant demo_lib) [(''acme'', ''beta'', ''orders'')] demo_nats))) (jwt_file ''C'')
     = map_of (jwts demo_nats) (jwt_file ''C'')"
proof -
  have "\<not> names_key (accounts demo_nats) [(''acme'', ''beta'', ''orders'')] ''C''"
    "\<not> names_key (accounts demo_compose) [(''acme'', ''beta'', ''orders'')] ''C''" by code_simp+
  from grants_leave_others [OF this, of demo_lib] show ?thesis by simp
qed

text \<open>A grant that names an account which was not provisioned ends the test with a message
  naming that account, before anything has changed, in either runtime.\<close>

theorem grant_unknown_account:
  assumes "accounts w e = None \<or> accounts w i = None" and "accounts v = accounts w" "\<not> brokerConfigWritten v"
  shows "\<exists>n \<in> {e, i}. accounts w n = None
    \<and> NATS_Grant lib e i s w = (Inl (Fatalf ''nats: unknown account %q'' [n]), w)
    \<and> Compose_Grant lib e i s v = (Inl (Fatalf ''compose: unknown account %q'' [n]), v)"
  using assms unfolding NATS_Grant_def Compose_Grant_def export_import_def
  by (cases "accounts w e") (auto simp: account_def andthen_def)

lemma grant_unknown_account_witness:
  "Compose_Grant demo_lib ''acme'' ''delta'' ''orders'' demo_compose
     = (Inl (Fatalf ''compose: unknown account %q'' [''delta'']), demo_compose)"
proof -
  let ?w = "empty_NATS (\<lambda>_. None) \<lparr>accounts := accounts demo_compose\<rparr> :: (string, string) NATS"
  have a: "accounts demo_compose ''delta'' = None" "map_option Pub (accounts demo_compose ''acme'') = Some ''A''"
    "\<not> brokerConfigWritten demo_compose" by code_simp+
  have "accounts ?w ''acme'' = None \<or> accounts ?w ''delta'' = None" using a(1) by simp
  from grant_unknown_account [OF this, of demo_compose demo_lib "''orders''"] a show ?thesis by auto
qed

definition published :: "('o, 'z) provision_scheme \<Rightarrow> string \<Rightarrow> bool" where
  "published w name = (case accounts w name of None \<Rightarrow> False
      | Some a \<Rightarrow> fault w (jwt_file (Pub a)) = None \<and> map_of (jwts w) (jwt_file (Pub a)) \<noteq> None)"

lemma preload_lines_total:
  "list_all (published w) names \<Longrightarrow>
     \<exists>ls. for_each names (\<lambda>name. andthen (account ''compose'' name) (preload_line pr)) w = (Inr ls, w)"
  by (induction names)
    (auto simp: published_def account_def andthen_def preload_line_def read_jwt_def split: option.splits)

lemma WriteBrokerConfig_succeeds:
  assumes "list_all (published w) names" and "fault w ''nats-server.conf'' = None"
    and "chmodErr w = (\<lambda>_. None)" and "readdirErr w = (\<lambda>_. None)"
  shows "\<exists>w'. WriteBrokerConfig pr dir names w = (Inr (), w')"
proof -
  have "published (w\<lparr>brokerConfigWritten := True\<rparr>) = published w"
    by (auto simp: fun_eq_iff published_def split: option.split)
  then have "list_all (published (w\<lparr>brokerConfigWritten := True\<rparr>)) names" using assms(1) by simp
  from preload_lines_total [OF this, of pr] show ?thesis
    using assms(2-4)
    by (auto simp: WriteBrokerConfig_def andthen_def open_jwts_def
        dest!: makeContainerWritable_calm split: prod.split)
qed

text \<open>C24: Once the broker configuration is rendered, it preloads the current JWT of every
  account, and stays so: a later grant ends the test and changes nothing.\<close>

theorem preloads_stay_current:
  assumes "WriteBrokerConfig pr dir names w = (Inr u, w')" and "set names = dom (accounts w)"
  shows "handed_over w' \<and> preloads_current pr (snd (grant_all (Compose_Grant lib) gs w'))
    \<and> snd (grant_all (Compose_Grant lib) gs w') = w'
    \<and> (case gs of [] \<Rightarrow> True | g # _ \<Rightarrow> (\<exists>m. fst (grant_all (Compose_Grant lib) gs w') = Inl m))"
proof -
  have w': "brokerConfigWritten w'" "preloads_current pr w'" "handed_over w'" using WriteBrokerConfig_ok [OF assms] by simp_all
  then show ?thesis
    using grant_all_latched [OF w'(1), of lib gs]
    by (auto simp: grant_all_def andthen_def Compose_Grant_def split: list.split prod.split)
qed

lemma preloads_stay_current_witness:
  "preloads_current (\<lambda>_. True) (snd (grant_all (Compose_Grant demo_lib) [(''acme'', ''beta'', ''late'')]
     (snd (WriteBrokerConfig (\<lambda>_. True) ''/t'' [''beta'', ''acme'', ''ceti''] demo_compose))))"
proof -
  have d: "dom (accounts demo_compose) = {''acme'', ''beta'', ''ceti''}"
    by (auto simp: demo_run split: if_splits)
  have "list_all (published demo_compose) [''beta'', ''acme'', ''ceti'']" by code_simp
  moreover have "fault demo_compose ''nats-server.conf'' = None" "chmodErr demo_compose = (\<lambda>_. None)"
    "readdirErr demo_compose = (\<lambda>_. None)"
    by (auto simp: demo_run split: if_splits)
  ultimately obtain w' where
    "WriteBrokerConfig (\<lambda>_. True) ''/t'' [''beta'', ''acme'', ''ceti''] demo_compose = (Inr (), w')"
    using WriteBrokerConfig_succeeds by blast
  then have "WriteBrokerConfig (\<lambda>_. True) ''/t'' [''beta'', ''acme'', ''ceti''] demo_compose =
      (Inr (), snd (WriteBrokerConfig (\<lambda>_. True) ''/t'' [''beta'', ''acme'', ''ceti''] demo_compose))"
    by simp
  from preloads_stay_current [OF this, of demo_lib] show ?thesis using d by auto
qed

text \<open>C25: The two runtimes provision the same trust: where both get through the same accounts
  and the same grants, they hold the same accounts and the same JWTs.\<close>

theorem runtimes_provision_alike:
  assumes "StartNATS lib dir op keys (empty_NATS f) = (Inr u, w0)"
    and "ProvisionCompose lib dir op opJWT keys (empty_compose g) = (Inr x, v0)"
    and "grant_all (NATS_Grant lib) gs w0 = (Inr us, w)"
    and "grant_all (Compose_Grant lib) gs v0 = (Inr xs, v)"
  shows "accounts w = accounts v \<and> jwts w = jwts v"
proof -
  have "same_trust (empty_NATS f) (empty_compose g)"
    by (simp add: same_trust_def empty_NATS_def empty_compose_def)
  then have s0: "same_trust w0 v0" using simD [OF sim_prepare _ assms(1,2)] by blast
  have "sim same_trust (grant_all (NATS_Grant lib) gs) (grant_all (Compose_Grant lib) gs) (\<lambda>_ _. True)"
    unfolding grant_all_def by (rule sim_for_each) (simp add: sim_Grant split: prod.split)
  from simD [OF this s0 assms(3,4)] show ?thesis by (simp add: same_trust_def)
qed

lemma runtimes_provision_alike_witness:
  "jwts (snd (grant_all (NATS_Grant demo_lib) [(''acme'', ''beta'', ''orders'')] demo_nats)) =
   jwts (snd (grant_all (Compose_Grant demo_lib) [(''acme'', ''beta'', ''orders'')] demo_compose))"
proof -
  have "fst (ProvisionCompose demo_lib ''/t'' (Inr ''OP'') (Inr ''J'') demo_keys (empty_compose (\<lambda>_. None))) = Inr ()"
    "fst (grant_all (NATS_Grant demo_lib) [(''acme'', ''beta'', ''orders'')] demo_nats) = Inr [()]"
    "fst (grant_all (Compose_Grant demo_lib) [(''acme'', ''beta'', ''orders'')] demo_compose) = Inr [()]"
    by (code_simp, code_simp, code_simp)
  then have "ProvisionCompose demo_lib ''/t'' (Inr ''OP'') (Inr ''J'') demo_keys (empty_compose (\<lambda>_. None))
      = (Inr (), demo_compose)"
    "\<exists>w v. grant_all (NATS_Grant demo_lib) [(''acme'', ''beta'', ''orders'')] demo_nats = (Inr [()], w)
      \<and> grant_all (Compose_Grant demo_lib) [(''acme'', ''beta'', ''orders'')] demo_compose = (Inr [()], v)"
    unfolding demo_compose_def by (metis prod.collapse)+
  then show ?thesis using runtimes_provision_alike [OF demo_nats_started] by (metis snd_conv)
qed

end
