(* ===== verification/Bootstrap.thy ===== *)
theory Bootstrap
  imports Config
begin

text \<open>
  Identities: \<^verbatim>\<open>bootstrap.go\<close> and the key provisioning of \<^verbatim>\<open>separated.go\<close>.  The key
  generator, the key store, the DID and credential libraries and the registry's replies are
  other code: what they give is part of the world or of the argument \<open>lib\<close>.  The world
  keeps what the harness does with them, the pairs it saved and the requests it sent.
\<close>

section \<open>The world\<close>

record key_pair =
  PublicKey :: string
  PrivateKey :: string

record ExternalKeys =
  AuthPublicKey :: string
  SigningPublicKey :: string

datatype request =
    RegisterOwner string
  | IssuePipeline string string ExternalKeys
  | IssueProcess string string ExternalKeys

text \<open>A call on the wire: the base URL, the \<^verbatim>\<open>Authorization\<close> header and the message.\<close>

type_synonym wire = "string \<times> string \<times> request"

type_synonym save = "string \<times> string \<times> (string \<times> key_pair) list"

record registry_world =
  keygen :: "nat \<Rightarrow> string + key_pair" \<comment> \<open>what the \<open>k\<close>-th generation gives\<close>
  drawn :: nat
  saveErr :: "string \<Rightarrow> string \<Rightarrow> string option" \<comment> \<open>by store directory and DID\<close>
  saved :: "save list" \<comment> \<open>the saves that succeeded\<close>
  reply :: "nat \<Rightarrow> (string \<times> string) option" \<comment> \<open>error and code of the \<open>k\<close>-th call, if it fails\<close>
  sent :: "wire list"

definition Generate :: "(string \<Rightarrow> fatal) \<Rightarrow> (registry_world, key_pair) prog" where
  "Generate err = (\<lambda>w.
     (map_sum err id (keygen w (drawn w)), w\<lparr>drawn := Suc (drawn w)\<rparr>))"

definition SaveKeyPair ::
  "string \<Rightarrow> string \<Rightarrow> (string \<times> key_pair) list \<Rightarrow> (string \<Rightarrow> fatal) \<Rightarrow> (registry_world, unit) prog" where
  "SaveKeyPair dir did ks err = (\<lambda>w.
     case saveErr w dir did of
       Some e \<Rightarrow> (Inl (err e), w)
     | None \<Rightarrow> (Inr (), w\<lparr>saved := saved w @ [(dir, did, ks)]\<rparr>))"

definition call_registry :: "wire \<Rightarrow> (string \<Rightarrow> string \<Rightarrow> fatal) \<Rightarrow> (registry_world, unit) prog" where
  "call_registry q err = (\<lambda>w.
     let w' = w\<lparr>sent := sent w @ [q]\<rparr> in
     case reply w (length (sent w)) of
       Some (e, c) \<Rightarrow> (Inl (err e c), w')
     | None \<Rightarrow> (Inr (), w'))"

section \<open>Key provisioning\<close>

definition key_auth :: string where "key_auth = ''auth''"
definition key_signing :: string where "key_signing = ''signing''"

definition ProvisionPipelineKey :: "string \<Rightarrow> string \<Rightarrow> (registry_world, string) prog" where
  "ProvisionPipelineKey dataDir subjectDID =
     andthen (Generate (\<lambda>e. Fatalf ''provision pipeline key %s: keygen: %v'' [subjectDID, e])) (\<lambda>kp.
     andthen (SaveKeyPair (path_join [dataDir, ''keys'']) subjectDID [(key_auth, kp)]
                (\<lambda>e. Fatalf ''provision pipeline key %s: save: %v'' [subjectDID, e])) (\<lambda>_.
     ret (PublicKey kp)))"

definition ProvisionExternalIdentity :: "string \<Rightarrow> string \<Rightarrow> (registry_world, ExternalKeys) prog" where
  "ProvisionExternalIdentity dataDir subjectDID =
     andthen (Generate (\<lambda>e. Fatalf ''provision external identity %s: auth keygen: %v'' [subjectDID, e])) (\<lambda>authKP.
     andthen (Generate (\<lambda>e. Fatalf ''provision external identity %s: signing keygen: %v'' [subjectDID, e])) (\<lambda>signKP.
     andthen (SaveKeyPair (path_join [dataDir, ''keys'']) subjectDID
                [(key_auth, authKP), (key_signing, signKP)]
                (\<lambda>e. Fatalf ''provision external identity %s: save: %v'' [subjectDID, e])) (\<lambda>_.
     ret \<lparr>AuthPublicKey = PublicKey authKP, SigningPublicKey = PublicKey signKP\<rparr>)))"

text \<open>The loops of both topologies that fill \<^verbatim>\<open>extKeys\<close>: a DID in both lists is provisioned
  twice, the later keys replace the earlier ones in the map.\<close>

primrec provision_all ::
  "string \<Rightarrow> string list \<Rightarrow> (string \<rightharpoonup> ExternalKeys) \<Rightarrow> (registry_world, string \<rightharpoonup> ExternalKeys) prog" where
  "provision_all dataDir [] m = ret m"
| "provision_all dataDir (d # ds) m =
     andthen (ProvisionExternalIdentity dataDir d) (\<lambda>k. provision_all dataDir ds (m(d \<mapsto> k)))"

section \<open>The owner and its document\<close>

text \<open>The owner signs with the key store at \<open>Signer\<close>.\<close>

record Owner =
  DID :: string
  Signer :: string
  Pub :: string

definition NewOwner :: "string \<Rightarrow> string \<Rightarrow> (registry_world, Owner) prog" where
  "NewOwner tmp ownerDID =
     andthen (Generate (\<lambda>e. Fatalf ''owner keygen: %v'' [e])) (\<lambda>kp.
     andthen (SaveKeyPair tmp ownerDID [(key_signing, kp)] (\<lambda>e. Fatalf ''owner key save: %v'' [e])) (\<lambda>_.
     ret \<lparr>DID = ownerDID, Signer = tmp, Pub = PublicKey kp\<rparr>))"

text \<open>
  The DID, credential and delegation libraries, over bodies that map names to values
  \<^typ>\<open>'v\<close>, proofs \<^typ>\<open>'p\<close>, verification methods \<^typ>\<open>'m\<close> and delegations \<^typ>\<open>'d\<close>.
  What signs reads the saved keys.
\<close>

record ('m, 'v, 'p, 'd) identity_lib =
  NewMultikey :: "string \<Rightarrow> string \<Rightarrow> string \<Rightarrow> string + 'm"
  DocBody :: "string \<Rightarrow> string \<Rightarrow> 'm \<Rightarrow> string list \<Rightarrow> string \<rightharpoonup> 'v"
  CreateProof :: "save list \<Rightarrow> string \<Rightarrow> string \<Rightarrow> string \<Rightarrow> string \<Rightarrow> (string \<rightharpoonup> 'v) \<Rightarrow> string + 'p"
  MarshalProof :: "'p \<Rightarrow> string + string"
  UnmarshalMap :: "string \<Rightarrow> string + 'v"
  MarshalBody :: "(string \<rightharpoonup> 'v) \<Rightarrow> string + string"
  Build :: "save list \<Rightarrow> string \<Rightarrow> string \<Rightarrow> string \<Rightarrow> string \<Rightarrow> string + 'd"
  MarshalDelegation :: "'d \<Rightarrow> string + string"

definition bind_err :: "string + 'a \<Rightarrow> (string \<Rightarrow> fatal) \<Rightarrow> ('a \<Rightarrow> fatal + 'b) \<Rightarrow> fatal + 'b" where
  "bind_err r err f = (case r of Inl e \<Rightarrow> Inl (err e) | Inr x \<Rightarrow> f x)"

definition signedOwnerDoc ::
  "('m, 'v, 'p, 'd) identity_lib \<Rightarrow> save list \<Rightarrow> Owner \<Rightarrow> string outcome" where
  "signedOwnerDoc lib store ow =
     (let vmid = DID ow @ ''#signing'' in
      bind_err (NewMultikey lib vmid (DID ow) (Pub ow)) (\<lambda>e. Fatalf ''encode owner signing key: %v'' [e]) (\<lambda>vm.
      let body = DocBody lib (DID ow) (DID ow) vm [vmid] in
      bind_err (CreateProof lib store (Signer ow) (DID ow) key_signing vmid body)
        (\<lambda>e. Fatalf ''owner doc proof: %v'' [e]) (\<lambda>proof.
      bind_err (MarshalProof lib proof) (\<lambda>e. Fatalf ''marshal proof: %v'' [e]) (\<lambda>pb.
      bind_err (UnmarshalMap lib pb) (\<lambda>e. Fatalf ''unmarshal proof: %v'' [e]) (\<lambda>pm.
      bind_err (MarshalBody lib (body(''proof'' \<mapsto> pm))) (\<lambda>e. Fatalf ''marshal owner doc: %v'' [e])
        Inr)))))"

section \<open>Registering and issuing\<close>

definition Bearer :: "string \<Rightarrow> request \<Rightarrow> wire" where
  "Bearer base q = (base, ''Bearer '' @ BearerToken, q)"

definition delegation_for ::
  "('m, 'v, 'p, 'd) identity_lib \<Rightarrow> save list \<Rightarrow> Owner \<Rightarrow> string \<Rightarrow> string outcome" where
  "delegation_for lib store ow p =
     bind_err (Build lib store (Signer ow) (DID ow) p (DID ow))
       (\<lambda>e. Fatalf ''delegation.Build(%s): %v'' [p, e]) (\<lambda>dlg.
     bind_err (MarshalDelegation lib dlg) (\<lambda>e. Fatalf ''marshal delegation: %v'' [e]) Inr)"

definition externalKeysFor :: "(string \<rightharpoonup> ExternalKeys) \<Rightarrow> string \<Rightarrow> ExternalKeys outcome" where
  "externalKeysFor keys subject =
     (case keys subject of
        None \<Rightarrow> Inl (Fatalf (''BootstrapExternal(%s): no ExternalKeys provisioned '' @ [CHR 0xE2, CHR 0x80, CHR 0x94]
                   @ '' every pipeline/process DID needs ProvisionExternalIdentity called first'') [subject])
      | Some ext \<Rightarrow> Inr ext)"

text \<open>What a DID's issue request says; \<open>mk\<close> is the message, IssuePipeline or IssueProcess.\<close>

definition issue_request ::
  "('m, 'v, 'p, 'd) identity_lib \<Rightarrow> save list \<Rightarrow> Owner \<Rightarrow> (string \<rightharpoonup> ExternalKeys) \<Rightarrow>
     (string \<Rightarrow> string \<Rightarrow> ExternalKeys \<Rightarrow> request) \<Rightarrow> string \<Rightarrow> request outcome" where
  "issue_request lib store ow keys mk p =
     (case delegation_for lib store ow p of
        Inl e \<Rightarrow> Inl e
      | Inr dlg \<Rightarrow> (case externalKeysFor keys p of Inl e \<Rightarrow> Inl e | Inr ext \<Rightarrow> Inr (mk p dlg ext)))"

definition lift_outcome :: "('w \<Rightarrow> 'a outcome) \<Rightarrow> ('w, 'a) prog" where
  "lift_outcome f = (\<lambda>w. (f w, w))"

definition issue ::
  "('m, 'v, 'p, 'd) identity_lib \<Rightarrow> string \<Rightarrow> Owner \<Rightarrow> (string \<rightharpoonup> ExternalKeys) \<Rightarrow>
     (string \<Rightarrow> string \<Rightarrow> ExternalKeys \<Rightarrow> request) \<Rightarrow> string \<Rightarrow> string \<Rightarrow> (registry_world, unit) prog" where
  "issue lib base ow keys mk what p =
     andthen (lift_outcome (\<lambda>w. issue_request lib (saved w) ow keys mk p)) (\<lambda>q.
     call_registry (Bearer base q) (\<lambda>e c. Fatalf (what @ ''(%s): %v (code %v)'') [p, e, c]))"

definition BootstrapExternal ::
  "('m, 'v, 'p, 'd) identity_lib \<Rightarrow> string \<Rightarrow> Owner \<Rightarrow> string list \<Rightarrow> string list \<Rightarrow>
     (string \<rightharpoonup> ExternalKeys) \<Rightarrow> (registry_world, unit) prog" where
  "BootstrapExternal lib base ow pipelineDIDs processDIDs keys =
     andthen (lift_outcome (\<lambda>w. signedOwnerDoc lib (saved w) ow)) (\<lambda>doc.
     andthen (call_registry (Bearer base (RegisterOwner doc))
                (\<lambda>e c. Fatalf ''RegisterOwner(%s): %v (code %v)'' [DID ow, e, c])) (\<lambda>_.
     andthen (for_each pipelineDIDs (issue lib base ow keys IssuePipeline ''IssuePipeline'')) (\<lambda>_.
     andthen (for_each processDIDs (issue lib base ow keys IssueProcess ''IssueProcess'')) (\<lambda>_.
     ret ()))))"

section \<open>The requests of a bootstrap\<close>

text \<open>
  The specification: the requests in order, or at its place the error that keeps one from
  being made.
\<close>

definition step_request ::
  "('m, 'v, 'p, 'd) identity_lib \<Rightarrow> save list \<Rightarrow> string \<Rightarrow> Owner \<Rightarrow> (string \<rightharpoonup> ExternalKeys) \<Rightarrow>
     (string \<Rightarrow> string \<Rightarrow> ExternalKeys \<Rightarrow> request) \<Rightarrow> string \<Rightarrow> wire outcome" where
  "step_request lib store base ow keys mk p = map_sum id (Bearer base) (issue_request lib store ow keys mk p)"

definition plan ::
  "('m, 'v, 'p, 'd) identity_lib \<Rightarrow> save list \<Rightarrow> string \<Rightarrow> Owner \<Rightarrow> string list \<Rightarrow> string list \<Rightarrow>
     (string \<rightharpoonup> ExternalKeys) \<Rightarrow> wire outcome list" where
  "plan lib store base ow ps qs keys =
     map_sum id (\<lambda>doc. Bearer base (RegisterOwner doc)) (signedOwnerDoc lib store ow)
       # map (step_request lib store base ow keys IssuePipeline) ps
       @ map (step_request lib store base ow keys IssueProcess) qs"

text \<open>A program that sends some of a plan: all of it if it succeeds.\<close>

definition sends :: "(save list \<Rightarrow> wire outcome list) \<Rightarrow> (registry_world, 'a) prog \<Rightarrow> bool" where
  "sends pl m \<longleftrightarrow> (\<forall>w r w'. m w = (r, w') \<longrightarrow>
     saved w' = saved w \<and> (\<exists>qs. sent w' = sent w @ qs \<and> prefix (map Inr qs) (pl (saved w))
       \<and> (\<not> isl r \<longrightarrow> map Inr qs = pl (saved w))))"

lemma sendsD:
  assumes "sends pl m" and "m w = (r, w')"
  obtains qs where "saved w' = saved w" "sent w' = sent w @ qs" "prefix (map Inr qs) (pl (saved w))"
    "\<not> isl r \<longrightarrow> map Inr qs = pl (saved w)"
  using assms unfolding sends_def by meson

lemma sends_ret: "sends (\<lambda>s. []) (ret x)"
  by (auto simp: sends_def)

lemma sends_andthen:
  assumes m: "sends p m" and f: "\<And>x. sends q (f x)"
  shows "sends (\<lambda>s. p s @ q s) (andthen m f)"
  unfolding sends_def
proof (intro allI impI)
  fix w r w'
  assume a: "andthen m f w = (r, w')"
  obtain r1 w1 where 1: "m w = (r1, w1)" by (cases "m w")
  obtain qs where qs: "saved w1 = saved w" "sent w1 = sent w @ qs" "prefix (map Inr qs) (p (saved w))"
    "\<not> isl r1 \<longrightarrow> map Inr qs = p (saved w)"
    using sendsD [OF m 1] by metis
  show "saved w' = saved w \<and> (\<exists>qs. sent w' = sent w @ qs
      \<and> prefix (map Inr qs) (p (saved w) @ q (saved w)) \<and> (\<not> isl r \<longrightarrow> map Inr qs = p (saved w) @ q (saved w)))"
  proof (cases r1)
    case (Inl e)
    then have "w' = w1" "r = Inl e" using a 1 by (simp_all add: andthen_def)
    then show ?thesis using qs(1-3) by (intro conjI exI [of _ qs]) (simp_all add: prefix_prefix)
  next
    case (Inr x)
    then have "f x w1 = (r, w')" using a 1 by (simp add: andthen_def)
    then obtain qs' where "saved w' = saved w1" "sent w' = sent w1 @ qs'"
      "prefix (map Inr qs') (q (saved w1))" "\<not> isl r \<longrightarrow> map Inr qs' = q (saved w1)"
      using sendsD [OF f] by metis
    then show ?thesis using qs Inr by (intro conjI exI [of _ "qs @ qs'"]) auto
  qed
qed

lemma sends_for_each:
  "(\<And>x. x \<in> set xs \<Longrightarrow> sends (\<lambda>s. [p s x]) (f x)) \<Longrightarrow> sends (\<lambda>s. map (p s) xs) (for_each xs f)"
proof (induction xs)
  case (Cons x xs)
  have "sends (\<lambda>s. map (p s) xs @ []) (andthen (for_each xs f) (\<lambda>ys. ret (y # ys)))" for y
    by (rule sends_andthen) (simp_all add: Cons sends_ret)
  then have "sends (\<lambda>s. [p s x] @ map (p s) xs) (andthen (f x) (\<lambda>y. andthen (for_each xs f) (\<lambda>ys. ret (y # ys))))"
    by (intro sends_andthen) (simp_all add: Cons.prems)
  then show ?case by simp
qed (simp add: sends_ret)

lemma sends_request:
  "sends (\<lambda>s. [map_sum id (Bearer base) (g s)])
     (andthen (lift_outcome (\<lambda>w. g (saved w))) (\<lambda>q. call_registry (Bearer base q) (err q)))"
  unfolding sends_def
proof (intro allI impI)
  fix w r w'
  assume a: "andthen (lift_outcome (\<lambda>w. g (saved w))) (\<lambda>q. call_registry (Bearer base q) (err q)) w = (r, w')"
  show "saved w' = saved w \<and> (\<exists>qs. sent w' = sent w @ qs \<and> prefix (map Inr qs) [map_sum id (Bearer base) (g (saved w))]
      \<and> (\<not> isl r \<longrightarrow> map Inr qs = [map_sum id (Bearer base) (g (saved w))]))"
  proof (cases "g (saved w)")
    case (Inl e)
    then show ?thesis using a by (auto simp: lift_outcome_def andthen_def)
  next
    case (Inr q)
    then have "saved w' = saved w \<and> sent w' = sent w @ [Bearer base q]"
      using a by (auto simp: lift_outcome_def andthen_def call_registry_def Let_def split: option.splits)
    then show ?thesis using Inr by (intro conjI exI [of _ "[Bearer base q]"]) simp_all
  qed
qed

lemma issue_eq:
  "issue lib base ow keys mk what p =
     andthen (lift_outcome (\<lambda>w. issue_request lib (saved w) ow keys mk p)) (\<lambda>q.
     call_registry (Bearer base q) ((\<lambda>_ e c. Fatalf (what @ ''(%s): %v (code %v)'') [p, e, c]) q))"
  by (simp add: issue_def)

lemma sends_issues:
  "sends (\<lambda>s. map (step_request lib s base ow keys mk) ds) (for_each ds (issue lib base ow keys mk what))"
  unfolding step_request_def [abs_def] issue_eq [abs_def]
  by (rule sends_for_each) (rule sends_request)

lemma bootstrap_eq:
  "BootstrapExternal lib base ow ps qs keys =
    andthen (andthen (lift_outcome (\<lambda>w. map_sum id RegisterOwner (signedOwnerDoc lib (saved w) ow))) (\<lambda>q.
      call_registry (Bearer base q) ((\<lambda>_ e c. Fatalf ''RegisterOwner(%s): %v (code %v)'' [DID ow, e, c]) q))) (\<lambda>_.
    andthen (for_each ps (issue lib base ow keys IssuePipeline ''IssuePipeline'')) (\<lambda>_.
    andthen (for_each qs (issue lib base ow keys IssueProcess ''IssueProcess'')) (\<lambda>_. ret ())))"
  by (auto simp: BootstrapExternal_def lift_outcome_def andthen_def fun_eq_iff split: sum.split prod.split)

lemma sends_bootstrap:
  "sends (\<lambda>s. plan lib s base ow ps qs keys) (BootstrapExternal lib base ow ps qs keys)"
proof -
  have "plan lib s base ow ps qs keys = [map_sum id (Bearer base) (map_sum id RegisterOwner (signedOwnerDoc lib s ow))]
      @ map (step_request lib s base ow keys IssuePipeline) ps
      @ map (step_request lib s base ow keys IssueProcess) qs @ []" for s
    by (simp add: plan_def sum.map_comp comp_def id_def)
  then show ?thesis
    unfolding bootstrap_eq by (simp only:) (intro sends_andthen sends_request sends_issues sends_ret)
qed

section \<open>Where the keys are\<close>

definition last_saved :: "save list \<Rightarrow> string \<Rightarrow> string \<Rightarrow> (string \<times> key_pair) list option" where
  "last_saved log dir did = map_option (\<lambda>(_, _, ks). ks) (find (\<lambda>(a, b, _). a = dir \<and> b = did) (rev log))"

lemma last_saved_snoc [simp]:
  "last_saved (log @ [(dir', did', ks)]) dir did =
     (if dir' = dir \<and> did' = did then Some ks else last_saved log dir did)"
  by (simp add: last_saved_def)

definition keys_match :: "string \<Rightarrow> save list \<Rightarrow> string \<Rightarrow> ExternalKeys \<Rightarrow> bool" where
  "keys_match dir log d ext =
     (case last_saved log dir d of
        Some [(i, a), (j, s)] \<Rightarrow> i = key_auth \<and> j = key_signing
          \<and> ext = \<lparr>AuthPublicKey = PublicKey a, SigningPublicKey = PublicKey s\<rparr>
      | _ \<Rightarrow> False)"

lemma keys_match_cong:
  "last_saved log dir d = last_saved log' dir d \<Longrightarrow> keys_match dir log d ext = keys_match dir log' d ext"
  by (simp add: keys_match_def)

lemma keys_match_snoc [simp]:
  "keys_match dir (log @ [(dir, d, [(key_auth, a), (key_signing, s)])]) d
     \<lparr>AuthPublicKey = PublicKey a, SigningPublicKey = PublicKey s\<rparr>"
  by (simp add: keys_match_def)

lemma ProvisionExternalIdentity_ok:
  assumes "ProvisionExternalIdentity dataDir d w = (Inr ext, w')"
  shows "\<exists>a s. saved w' = saved w @ [(path_join [dataDir, ''keys''], d, [(key_auth, a), (key_signing, s)])]
    \<and> ext = \<lparr>AuthPublicKey = PublicKey a, SigningPublicKey = PublicKey s\<rparr> \<and> sent w' = sent w"
proof -
  obtain w1 w2 a s where g: "keygen w (drawn w) = Inr a" "w1 = w\<lparr>drawn := Suc (drawn w)\<rparr>"
    "keygen w1 (drawn w1) = Inr s" "w2 = w1\<lparr>drawn := Suc (drawn w1)\<rparr>"
    "SaveKeyPair (path_join [dataDir, ''keys'']) d [(key_auth, a), (key_signing, s)]
       (\<lambda>e. Fatalf ''provision external identity %s: save: %v'' [d, e]) w2 = (Inr (), w')"
    "ext = \<lparr>AuthPublicKey = PublicKey a, SigningPublicKey = PublicKey s\<rparr>"
    using assms unfolding ProvisionExternalIdentity_def
    by (auto simp: andthen_eq_Inr_iff Generate_def map_sum_def id_def split: sum.splits)
  from g(5) have "w' = w2\<lparr>saved := saved w2 @ [(path_join [dataDir, ''keys''], d, [(key_auth, a), (key_signing, s)])]\<rparr>"
    by (auto simp: SaveKeyPair_def split: option.splits)
  then show ?thesis using g by auto
qed

lemma provision_all_ok:
  "provision_all dataDir ds m w = (Inr keys, w') \<Longrightarrow>
     (\<forall>d ext. keys d = Some ext \<longrightarrow> d \<in> set ds \<and> keys_match (path_join [dataDir, ''keys'']) (saved w') d ext \<or>
        d \<notin> set ds \<and> m d = Some ext)
     \<and> (\<forall>d \<in> set ds. keys d \<noteq> None)
     \<and> (\<forall>d. d \<notin> set ds \<longrightarrow> last_saved (saved w') (path_join [dataDir, ''keys'']) d
          = last_saved (saved w) (path_join [dataDir, ''keys'']) d \<and> keys d = m d)"
proof (induction ds arbitrary: m w)
  case (Cons d ds)
  obtain ext w1 where 1: "ProvisionExternalIdentity dataDir d w = (Inr ext, w1)"
    "provision_all dataDir ds (m(d \<mapsto> ext)) w1 = (Inr keys, w')"
    using Cons.prems by (auto simp: andthen_eq_Inr_iff)
  let ?dir = "path_join [dataDir, ''keys'']"
  have d: "keys_match ?dir (saved w1) d ext"
    "\<And>d'. d' \<noteq> d \<Longrightarrow> last_saved (saved w1) ?dir d' = last_saved (saved w) ?dir d'"
    using ProvisionExternalIdentity_ok [OF 1(1)] by auto
  have own: "keys d = Some ext \<and> keys_match ?dir (saved w') d ext" if "d \<notin> set ds"
    using Cons.IH [OF 1(2)] that d(1) keys_match_cong [of "saved w'" ?dir d "saved w1" ext] by simp
  show ?case using Cons.IH [OF 1(2)] d(2) own by (auto split: if_splits)
qed simp

lemma NewOwner_ok:
  "NewOwner tmp od w = (Inr ow, w') \<Longrightarrow>
     \<exists>k. saved w' = saved w @ [(tmp, od, [(key_signing, k)])] \<and> DID ow = od \<and> Signer ow = tmp \<and> Pub ow = PublicKey k"
  by (auto simp: NewOwner_def andthen_eq_Inr_iff Generate_def map_sum_def id_def SaveKeyPair_def
      split: sum.splits option.splits)

fun request_keys :: "request \<Rightarrow> (string \<times> ExternalKeys) option" where
  "request_keys (RegisterOwner doc) = None"
| "request_keys (IssuePipeline d dlg ext) = Some (d, ext)"
| "request_keys (IssueProcess d dlg ext) = Some (d, ext)"

lemma plan_keys:
  assumes "Inr (b, h, q) \<in> set (plan lib store base ow ps qs keys)" and "request_keys q = Some (d, ext)"
  shows "keys d = Some ext \<and> d \<in> set (ps @ qs)"
proof -
  have step: "keys d = Some ext \<and> d \<in> set ds"
    if "Inr (b, h, q) \<in> set (map (step_request lib store base ow keys mk) ds)"
      "mk = IssuePipeline \<or> mk = IssueProcess" for mk ds
    using that assms(2)
    by (auto simp: step_request_def issue_request_def externalKeysFor_def Bearer_def map_sum_def id_def
        split: sum.splits option.splits)
  have "Inr (b, h, q) = map_sum id (\<lambda>doc. Bearer base (RegisterOwner doc)) (signedOwnerDoc lib store ow)
      \<Longrightarrow> request_keys q = None"
    by (auto simp: Bearer_def map_sum_def split: sum.splits)
  then show ?thesis
    using assms step [of IssuePipeline ps] step [of IssueProcess qs] by (auto simp: plan_def)
qed

section \<open>Correctness of the bootstrap\<close>

text \<open>C29: A bootstrap registers the owner, then issues every pipeline DID and then every process
  DID, in the order of the lists, each call with the bearer token, the owner's delegation and
  the DID's external keys; a bootstrap that ends early has sent the first of these calls and
  nothing else.\<close>

theorem bootstrap_requests:
  assumes "BootstrapExternal lib base ow ps qs keys w = (r, w')"
  shows "\<exists>ws. sent w' = sent w @ ws \<and> prefix (map Inr ws) (plan lib (saved w) base ow ps qs keys)
    \<and> (\<not> isl r \<longrightarrow> map Inr ws = plan lib (saved w) base ow ps qs keys)"
  using sendsD [OF sends_bootstrap assms] by metis

lemma prefix_before_error:
  assumes "prefix (map Inr ws) pl" and "n < length pl" and "isl (pl ! n)"
  shows "length ws \<le> n \<and> map Inr ws \<noteq> pl"
proof -
  obtain zs where zs: "pl = map Inr ws @ zs" using assms(1) by (auto simp: prefix_def)
  have "length ws \<le> n"
  proof (rule ccontr)
    assume "\<not> length ws \<le> n"
    then have "pl ! n = Inr (ws ! n)" by (simp add: zs nth_append)
    then show False using assms(3) by simp
  qed
  then show ?thesis using assms(2) by auto
qed

lemma nth_at_split:
  assumes "map f xs = as @ p # bs"
  shows "length as < length xs \<and> f (xs ! length as) = p"
proof -
  have "length xs = length as + Suc (length bs)" using arg_cong [OF assms, of length] by simp
  moreover from this have "f (xs ! length as) = (as @ p # bs) ! length as" by (simp flip: assms)
  ultimately show ?thesis by simp
qed

text \<open>C30: A DID without provisioned keys ends the bootstrap: it fails, and at most the owner and
  the DIDs before it have been sent to the registry.\<close>

theorem bootstrap_missing_key:
  assumes "ps @ qs = ds @ p # ds'" and "keys p = None"
  shows "isl (fst (BootstrapExternal lib base ow ps qs keys w))
    \<and> length (sent (snd (BootstrapExternal lib base ow ps qs keys w))) \<le> length (sent w) + 1 + length ds"
proof -
  obtain r w' where b: "BootstrapExternal lib base ow ps qs keys w = (r, w')"
    by (cases "BootstrapExternal lib base ow ps qs keys w")
  obtain ws where ws: "sent w' = sent w @ ws" "prefix (map Inr ws) (plan lib (saved w) base ow ps qs keys)"
    "\<not> isl r \<longrightarrow> map Inr ws = plan lib (saved w) base ow ps qs keys"
    using sendsD [OF sends_bootstrap b] by metis
  let ?step = "\<lambda>(mk, d). step_request lib (saved w) base ow keys mk d"
  let ?tagged = "map (Pair IssuePipeline) ps @ map (Pair IssueProcess) qs"
  let ?plan = "plan lib (saved w) base ow ps qs keys"
  have plan: "?plan = hd ?plan # map ?step ?tagged" by (simp add: plan_def)
  have "map snd ?tagged = ds @ p # ds'" using assms(1) by (simp add: comp_def)
  from nth_at_split [OF this] have t: "length ds < length ?tagged" "snd (?tagged ! length ds) = p" by simp_all
  have "isl (?step (mk, p))" for mk
    using assms(2)
    by (auto simp: step_request_def issue_request_def externalKeysFor_def map_sum_def split: sum.split)
  then have "isl (?plan ! Suc (length ds))"
    using t by (subst plan) (simp del: map_append add: case_prod_beta)
  moreover have "Suc (length ds) < length ?plan" using t(1) by (simp add: plan_def)
  ultimately have "length ws \<le> Suc (length ds) \<and> map Inr ws \<noteq> ?plan"
    by (intro prefix_before_error [OF ws(2)])
  then show ?thesis using b ws(1,3) by (cases r) simp_all
qed

text \<open>C31: The registry is only ever told public halves of pairs that the pipeline's own key
  store holds for that DID, the ones saved last, and every DID has some; also when a DID is
  in both lists.\<close>

theorem wire_keys_local:
  assumes "provision_all dataDir (ps @ qs) Map.empty w = (Inr keys, w1)"
    and "NewOwner tmp od w1 = (Inr ow, w2)" and "tmp \<noteq> path_join [dataDir, ''keys'']"
    and "BootstrapExternal lib base ow ps qs keys w2 = (r, w3)"
    and "(b, h, q) \<in> set (drop (length (sent w2)) (sent w3))" and "request_keys q = Some (d, ext)"
  shows "keys_match (path_join [dataDir, ''keys'']) (saved w3) d ext
    \<and> list_all (\<lambda>d. keys d \<noteq> None) (ps @ qs)"
proof -
  let ?dir = "path_join [dataDir, ''keys'']"
  obtain ws where ws: "saved w3 = saved w2" "sent w3 = sent w2 @ ws"
    "prefix (map Inr ws) (plan lib (saved w2) base ow ps qs keys)"
    using sendsD [OF sends_bootstrap assms(4)] by metis
  have "Inr (b, h, q) \<in> set (map Inr ws)" using assms(5) ws(2) by simp
  then have "Inr (b, h, q) \<in> set (plan lib (saved w2) base ow ps qs keys)"
    using set_mono_prefix [OF ws(3)] by blast
  then have "keys d = Some ext" using plan_keys assms(6) by blast
  then have "keys_match ?dir (saved w1) d ext" using provision_all_ok [OF assms(1)] by auto
  moreover have "last_saved (saved w2) ?dir d = last_saved (saved w1) ?dir d"
    using NewOwner_ok [OF assms(2)] assms(3) by auto
  ultimately have "keys_match ?dir (saved w3) d ext"
    using keys_match_cong [of "saved w2" ?dir d "saved w1" ext] by (simp add: ws(1))
  moreover have "list_all (\<lambda>d. keys d \<noteq> None) (ps @ qs)"
    unfolding list_all_iff using provision_all_ok [OF assms(1)] by blast
  ultimately show ?thesis by blast
qed

text \<open>A concrete bootstrap: keys numbered in the order of their generation, texts for documents.\<close>

definition demo_identity :: "(string, string, string, string) identity_lib" where
  "demo_identity = \<lparr>NewMultikey = (\<lambda>i c p. Inr (i @ p)), DocBody = (\<lambda>i c m a. [''id'' \<mapsto> i]),
     CreateProof = (\<lambda>s dir did k vm body. Inr (did @ k)), MarshalProof = Inr, UnmarshalMap = Inr,
     MarshalBody = (\<lambda>body. case body ''proof'' of None \<Rightarrow> Inl [] | Some p \<Rightarrow> Inr p),
     Build = (\<lambda>s dir ow i by'. Inr (i @ by')), MarshalDelegation = Inr\<rparr>"

definition demo_registry :: registry_world where
  "demo_registry = \<lparr>keygen = (\<lambda>k. Inr \<lparr>PublicKey = ''P'' @ nat_str k, PrivateKey = ''S'' @ nat_str k\<rparr>),
     drawn = 0, saveErr = (\<lambda>_ _. None), saved = [], reply = (\<lambda>_. None), sent = []\<rparr>"

definition demo_owner :: Owner where
  "demo_owner = \<lparr>DID = ''o'', Signer = ''/tmp/1'', Pub = ''P9''\<rparr>"

lemma bootstrap_requests_witness:
  "\<exists>ws. map Inr ws = plan demo_identity [] ''http://r'' demo_owner [''p''] [''q'']
      [''p'' \<mapsto> \<lparr>AuthPublicKey = ''a'', SigningPublicKey = ''b''\<rparr>, ''q'' \<mapsto> \<lparr>AuthPublicKey = ''c'', SigningPublicKey = ''d''\<rparr>]"
proof -
  let ?keys = "[''p'' \<mapsto> \<lparr>AuthPublicKey = ''a'', SigningPublicKey = ''b''\<rparr>,
     ''q'' \<mapsto> \<lparr>AuthPublicKey = ''c'', SigningPublicKey = ''d''\<rparr>]"
  let ?run = "BootstrapExternal demo_identity ''http://r'' demo_owner [''p''] [''q''] ?keys demo_registry"
  have ok: "\<not> isl (fst ?run)" by code_simp
  have "saved demo_registry = []" by (simp add: demo_registry_def)
  with bootstrap_requests [of demo_identity "''http://r''" demo_owner "[''p'']" "[''q'']" ?keys demo_registry
      "fst ?run" "snd ?run"] ok
  show ?thesis by (auto simp del: fun_upd_apply)
qed

lemma bootstrap_missing_key_witness:
  "isl (fst (BootstrapExternal demo_identity ''http://r'' demo_owner [''p''] [''q'']
     [''p'' \<mapsto> \<lparr>AuthPublicKey = ''a'', SigningPublicKey = ''b''\<rparr>] demo_registry))"
proof -
  have "[''p''] @ [''q''] = [''p''] @ ''q'' # []" by simp
  moreover have "[''p'' \<mapsto> \<lparr>AuthPublicKey = ''a'', SigningPublicKey = ''b''\<rparr>] ''q'' = None" by simp
  ultimately show ?thesis by (rule bootstrap_missing_key [THEN conjunct1])
qed

lemma wire_keys_local_witness:
  "keys_match ''/d/keys'' [(''/d/keys'', ''p'', [(key_auth, \<lparr>PublicKey = ''P0'', PrivateKey = ''S0''\<rparr>),
        (key_signing, \<lparr>PublicKey = ''P1'', PrivateKey = ''S1''\<rparr>)]),
      (''/d/keys'', ''p'', [(key_auth, \<lparr>PublicKey = ''P2'', PrivateKey = ''S2''\<rparr>),
        (key_signing, \<lparr>PublicKey = ''P3'', PrivateKey = ''S3''\<rparr>)]),
      (''/tmp/1'', ''o'', [(key_signing, \<lparr>PublicKey = ''P4'', PrivateKey = ''S4''\<rparr>)])]
     ''p'' \<lparr>AuthPublicKey = ''P2'', SigningPublicKey = ''P3''\<rparr>"
proof -
  define r1 where "r1 = provision_all ''/d'' ([''p''] @ [''p'']) Map.empty demo_registry"
  define r2 where "r2 = NewOwner ''/tmp/1'' ''o'' (snd r1)"
  define r3 where "r3 = BootstrapExternal demo_identity ''http://r'' (projr (fst r2)) [''p''] [''p'']
    (projr (fst r1)) (snd r2)"
  have ok: "\<not> isl (fst r1)" "\<not> isl (fst r2)" unfolding r1_def r2_def by (code_simp, code_simp)
  have 1: "provision_all ''/d'' ([''p''] @ [''p'']) Map.empty demo_registry = (Inr (projr (fst r1)), snd r1)"
    and 2: "NewOwner ''/tmp/1'' ''o'' (snd r1) = (Inr (projr (fst r2)), snd r2)"
    and 3: "BootstrapExternal demo_identity ''http://r'' (projr (fst r2)) [''p''] [''p'']
      (projr (fst r1)) (snd r2) = (fst r3, snd r3)"
    using ok unfolding r1_def [symmetric] r2_def [symmetric] r3_def [symmetric]
    by (metis prod.collapse sum.collapse(2))+
  have j: "path_join [''/d'', ''keys''] = ''/d/keys''" by code_simp
  have q: "(''http://r'', ''Bearer e2e-dummy'', IssuePipeline ''p'' ''po'' \<lparr>AuthPublicKey = ''P2'', SigningPublicKey = ''P3''\<rparr>)
      \<in> set (drop (length (sent (snd r2))) (sent (snd r3)))"
    unfolding r3_def r2_def r1_def by code_simp
  have s: "saved (snd r3) = [(''/d/keys'', ''p'', [(key_auth, \<lparr>PublicKey = ''P0'', PrivateKey = ''S0''\<rparr>),
        (key_signing, \<lparr>PublicKey = ''P1'', PrivateKey = ''S1''\<rparr>)]),
      (''/d/keys'', ''p'', [(key_auth, \<lparr>PublicKey = ''P2'', PrivateKey = ''S2''\<rparr>),
        (key_signing, \<lparr>PublicKey = ''P3'', PrivateKey = ''S3''\<rparr>)]),
      (''/tmp/1'', ''o'', [(key_signing, \<lparr>PublicKey = ''P4'', PrivateKey = ''S4''\<rparr>)])]"
    unfolding r3_def r2_def r1_def by code_simp
  have "keys_match (path_join [''/d'', ''keys'']) (saved (snd r3)) ''p'' \<lparr>AuthPublicKey = ''P2'', SigningPublicKey = ''P3''\<rparr>"
    using wire_keys_local [OF 1 2 _ 3 q] by (simp add: j)
  then show ?thesis unfolding j s .
qed
end
