(* ===== verification/Lifecycle.thy ===== *)
theory Lifecycle
  imports Prelude
begin

text \<open>
  The life of a separated node in events, as the harness knows it: servers of the test binary
  come and go, a node's two processes start, are found ready and are stopped.  A process is
  named by its node's name and the number of its launch.  That it was started is known when
  its launch returns, that it is gone when its Stop does, whether by Stop's signals or earlier
  by itself: a process that dies by itself may run, for the harness, until it is stopped (or
  is found dead while it boots, which ends the test).  \<open>advance\<close> is the order the harness promises:
  the network process is up and ready before the pipeline process starts, the pipeline
  process is gone before the network process stops, and both only run while the broker and
  the PDP do.  It is the specification the environments are proved to refine.
\<close>

section \<open>Stages\<close>

datatype stage = Down | Net_booting | Net_ready | Pipe_booting | Serving

fun rank :: "stage \<Rightarrow> nat" where
  "rank Down = 0" | "rank Net_booting = 1" | "rank Net_ready = 2" | "rank Pipe_booting = 3" | "rank Serving = 4"

lemma rank_inj: "rank s = rank t \<Longrightarrow> s = t"
  by (cases s; cases t) auto

instantiation stage :: linorder
begin

definition less_eq_stage :: "stage \<Rightarrow> stage \<Rightarrow> bool" where
  "s \<le> t \<longleftrightarrow> rank s \<le> rank t"

definition less_stage :: "stage \<Rightarrow> stage \<Rightarrow> bool" where
  "s < t \<longleftrightarrow> rank s < rank t"

instance
  by standard (auto simp: less_eq_stage_def less_stage_def intro: rank_inj)

end

lemma stage_simps [simp]:
  "Down \<le> s" "s \<le> Serving" "s \<le> Down \<longleftrightarrow> s = Down" "Serving \<le> s \<longleftrightarrow> s = Serving"
  "s \<le> Net_ready \<longleftrightarrow> s \<in> {Down, Net_booting, Net_ready}"
  by (cases s; simp add: less_eq_stage_def)+

section \<open>Events\<close>

datatype event =
    Served string \<comment> \<open>a server of the test binary listens\<close>
  | Closed string
  | Started string nat \<comment> \<open>a process, or a container's process, was launched: its name and number\<close>
  | Ready string nat \<comment> \<open>it was found healthy\<close>
  | Stopped string nat \<comment> \<open>a Stop of this process is back: it does not run any more\<close>

definition network_name :: "string \<Rightarrow> string" where
  "network_name account = account @ ''-network''"

definition pipeline_name :: "string \<Rightarrow> string" where
  "pipeline_name account = account @ ''-pipeline''"

lemma names_differ [simp]: "network_name a \<noteq> pipeline_name a" "pipeline_name a \<noteq> network_name a"
  by (simp_all add: network_name_def pipeline_name_def)

text \<open>
  A state: the servers that listen, the stage, and the numbers of the network and the pipeline
  process that run (0 while none does); \<open>deps\<close> are the servers a node needs.  A Stop of a
  process that was replaced by a newer one changes nothing.
\<close>

datatype topo = Topo "string list" stage nat nat

definition piped :: "stage \<Rightarrow> bool" where
  "piped s \<longleftrightarrow> s = Pipe_booting \<or> s = Serving"

fun advance :: "string list \<Rightarrow> string \<Rightarrow> topo \<Rightarrow> event \<Rightarrow> topo option" where
  "advance deps acct (Topo srv s i j) (Served x) =
     (if s = Down \<and> x \<notin> set srv then Some (Topo (x # srv) s i j) else None)"
| "advance deps acct (Topo srv s i j) (Closed x) =
     (if s = Down \<and> x \<in> set srv then Some (Topo (remove1 x srv) s i j) else None)"
| "advance deps acct (Topo srv s i j) (Started n k) =
     (if \<not> set deps \<subseteq> set srv then None
      else if n = network_name acct \<and> s = Down then Some (Topo srv Net_booting k 0)
      else if n = pipeline_name acct \<and> s = Net_ready then Some (Topo srv Pipe_booting i k)
      else None)"
| "advance deps acct (Topo srv s i j) (Ready n k) =
     (if n = network_name acct \<and> s = Net_booting \<and> k = i then Some (Topo srv Net_ready i j)
      else if n = pipeline_name acct \<and> s = Pipe_booting \<and> k = j then Some (Topo srv Serving i j)
      else None)"
| "advance deps acct (Topo srv s i j) (Stopped n k) =
     (if n = pipeline_name acct then
        Some (if piped s \<and> k = j then Topo srv Net_ready i 0 else Topo srv s i j)
      else if n = network_name acct then
        (if s = Down \<or> k \<noteq> i then Some (Topo srv s i j)
         else if piped s then None else Some (Topo srv Down 0 0))
      else None)"

primrec advances :: "string list \<Rightarrow> string \<Rightarrow> topo \<Rightarrow> event list \<Rightarrow> topo option" where
  "advances deps acct x [] = Some x"
| "advances deps acct x (e # es) =
     (case advance deps acct x e of None \<Rightarrow> None | Some y \<Rightarrow> advances deps acct y es)"

lemma advances_append [simp]:
  "advances deps acct x (es @ fs) =
     (case advances deps acct x es of None \<Rightarrow> None | Some y \<Rightarrow> advances deps acct y fs)"
  by (induction es arbitrary: x) (auto split: option.split)

text \<open>The same read off the events themselves, without stages.\<close>

fun live_after :: "string \<Rightarrow> nat list \<Rightarrow> event \<Rightarrow> nat list" where
  "live_after n ks (Started m k) = (if m = n then k # ks else ks)"
| "live_after n ks (Stopped m k) = (if m = n then removeAll k ks else ks)"
| "live_after n ks e = ks"

definition live :: "string \<Rightarrow> event list \<Rightarrow> nat list" where
  "live n es = foldl (live_after n) [] es"

definition running :: "string \<Rightarrow> event list \<Rightarrow> bool" where
  "running n es \<longleftrightarrow> live n es \<noteq> []"

fun listens_after :: "string \<Rightarrow> bool \<Rightarrow> event \<Rightarrow> bool" where
  "listens_after x b (Served y) = (x = y \<or> b)"
| "listens_after x b (Closed y) = (b \<and> x \<noteq> y)"
| "listens_after x b e = b"

definition listening :: "string \<Rightarrow> event list \<Rightarrow> bool" where
  "listening x es = foldl (listens_after x) False es"

fun matches :: "string list \<Rightarrow> string \<Rightarrow> topo \<Rightarrow> event list \<Rightarrow> bool" where
  "matches deps acct (Topo srv s i j) es \<longleftrightarrow>
     live (network_name acct) es = (if s = Down then [] else [i])
   \<and> live (pipeline_name acct) es = (if piped s then [j] else [])
   \<and> (\<forall>x. listening x es \<longleftrightarrow> x \<in> set srv) \<and> distinct srv \<and> (s = Down \<or> set deps \<subseteq> set srv)"

lemma live_snoc [simp]:
  "live n (es @ [e]) = live_after n (live n es) e" "listening x (es @ [e]) = listens_after x (listening x es) e"
  by (simp_all add: live_def listening_def)

lemma piped_simps [simp]: "\<not> piped Down" "\<not> piped Net_booting" "\<not> piped Net_ready" "piped Pipe_booting" "piped Serving"
  by (simp_all add: piped_def)

lemma matches_advance:
  assumes "matches deps acct (Topo srv s i j) es" and "advance deps acct (Topo srv s i j) e = Some y"
  shows "matches deps acct y (es @ [e])"
proof (cases e)
  case (Served x)
  then show ?thesis using assms by (clarsimp split: if_splits)
next
  case (Closed x)
  then show ?thesis using assms by (clarsimp split: if_splits)
next
  case (Started n k)
  then show ?thesis using assms by (clarsimp split: if_splits)
next
  case (Ready n k)
  then show ?thesis using assms by (clarsimp split: if_splits)
next
  case (Stopped n k)
  then show ?thesis using assms by (cases s) (clarsimp split: if_splits)+
qed

lemma advances_snoc:
  "advances deps acct x (es @ [e]) = Some z \<longleftrightarrow>
     (\<exists>y. advances deps acct x es = Some y \<and> advance deps acct y e = Some z)"
  by (auto split: option.splits)

lemma advances_matches:
  "advances deps acct (Topo [] Down 0 0) es = Some x \<Longrightarrow> matches deps acct x es"
proof (induction es arbitrary: x rule: rev_induct)
  case Nil
  then show ?case by (auto simp: live_def listening_def)
next
  case (snoc e es)
  then show ?case unfolding advances_snoc using matches_advance by (metis topo.exhaust)
qed

text \<open>A tidy history: at every moment the pipeline process runs only beside the network
  process, both only beside the servers they need, and at the end nothing runs or listens.\<close>

definition tidy_at :: "string list \<Rightarrow> string \<Rightarrow> event list \<Rightarrow> bool" where
  "tidy_at deps acct es \<longleftrightarrow>
     (running (pipeline_name acct) es \<longrightarrow> running (network_name acct) es)
   \<and> (running (network_name acct) es \<longrightarrow> list_all (\<lambda>x. listening x es) deps)"

definition tidy :: "string list \<Rightarrow> string \<Rightarrow> event list \<Rightarrow> bool" where
  "tidy deps acct es \<longleftrightarrow>
     list_all (tidy_at deps acct) (prefixes es)
   \<and> \<not> running (network_name acct) es \<and> \<not> running (pipeline_name acct) es
   \<and> list_all (\<lambda>x. \<not> listening x es) (List.map_filter (\<lambda>e. case e of Served x \<Rightarrow> Some x | _ \<Rightarrow> None) es)"

lemma advances_tidy:
  assumes "advances deps acct (Topo [] Down 0 0) es = Some (Topo [] Down 0 0)"
  shows "tidy deps acct es"
proof -
  have "tidy_at deps acct fs" if "fs \<in> set (prefixes es)" for fs
  proof -
    have "prefix fs es" using that by simp
    then obtain gs where "es = fs @ gs" by (rule prefixE)
    then obtain srv s i j where "advances deps acct (Topo [] Down 0 0) fs = Some (Topo srv s i j)"
      using assms by (auto split: option.splits) (metis topo.exhaust)
    from advances_matches [OF this] show ?thesis
      by (auto simp: tidy_at_def running_def list_all_iff split: if_splits)
  qed
  moreover have "matches deps acct (Topo [] Down 0 0) es" by (rule advances_matches [OF assms])
  ultimately show ?thesis by (auto simp: tidy_def running_def list_all_iff)
qed

section \<open>Winding down\<close>

text \<open>
  The cleanups of a test, the latest first, wind a node down from any stage it may have
  reached: those up to the stage's \<open>roof\<close>.
\<close>

fun roof :: "stage \<Rightarrow> stage" where
  "roof Down = Down"
| "roof Net_booting = Net_ready"
| "roof Net_ready = Net_ready"
| "roof Pipe_booting = Serving"
| "roof Serving = Serving"

definition at_stage :: "string list \<Rightarrow> nat \<Rightarrow> nat \<Rightarrow> stage \<Rightarrow> topo" where
  "at_stage srv i j s = Topo srv s (if s = Down then 0 else i) (if piped s then j else 0)"

fun winds_down :: "string list \<Rightarrow> string \<Rightarrow> topo \<Rightarrow> event list \<Rightarrow> bool" where
  "winds_down deps acct (Topo srv s i j) cs \<longleftrightarrow>
     Topo srv s i j = at_stage srv i j s \<and>
     list_all (\<lambda>s'. s' \<le> roof s \<longrightarrow> advances deps acct (at_stage srv i j s') cs = Some (Topo [] Down 0 0))
       [Down, Net_booting, Net_ready, Pipe_booting, Serving]"

declare winds_down.simps [simp del]

lemma winds_down_iff:
  "winds_down deps acct (Topo srv s i j) cs \<longleftrightarrow> Topo srv s i j = at_stage srv i j s \<and>
     (\<forall>s'. s' \<le> roof s \<longrightarrow> advances deps acct (at_stage srv i j s') cs = Some (Topo [] Down 0 0))"
proof -
  have "s' \<in> set [Down, Net_booting, Net_ready, Pipe_booting, Serving]" for s' by (cases s') simp_all
  then show ?thesis unfolding winds_down.simps list_all_iff by blast
qed

lemma below_roof: "s \<le> roof s"
  by (cases s) (simp_all add: less_eq_stage_def)

lemma winds_downD: "winds_down deps acct x cs \<Longrightarrow> advances deps acct x cs = Some (Topo [] Down 0 0)"
  by (cases x) (metis winds_down_iff below_roof)

lemma winds_down_ready:
  "winds_down deps acct (Topo srv Net_booting i 0) cs \<Longrightarrow> winds_down deps acct (Topo srv Net_ready i 0) cs"
  "winds_down deps acct (Topo srv Pipe_booting i j) cs \<Longrightarrow> winds_down deps acct (Topo srv Serving i j) cs"
  unfolding winds_down_iff by (simp_all add: at_stage_def)

lemma winds_down_net:
  "winds_down deps acct (Topo srv Down i j) cs \<Longrightarrow>
     winds_down deps acct (Topo srv Net_booting k 0) (Stopped (network_name acct) k # cs)"
  unfolding winds_down_iff by (auto simp: at_stage_def)

lemma stage_cases: "s = Down \<or> s = Net_booting \<or> s = Net_ready \<or> s = Pipe_booting \<or> s = Serving"
  by (cases s) simp_all

lemma winds_down_pipe:
  assumes "winds_down deps acct (Topo srv Net_ready i j) cs"
  shows "winds_down deps acct (Topo srv Pipe_booting i k) (Stopped (pipeline_name acct) k # cs)"
proof -
  have "advances deps acct (at_stage srv i k s') (Stopped (pipeline_name acct) k # cs) = Some (Topo [] Down 0 0)" for s'
    using assms unfolding winds_down_iff by (cases s') (simp_all add: at_stage_def)
  then show ?thesis unfolding winds_down_iff by (simp add: at_stage_def)
qed

lemma winds_down_stop:
  "winds_down deps acct (Topo srv s i j) cs \<Longrightarrow> piped s \<Longrightarrow> winds_down deps acct (Topo srv Net_ready i 0) cs"
  "winds_down deps acct (Topo srv s i j) cs \<Longrightarrow> winds_down deps acct (Topo srv Down 0 0) cs"
proof -
  assume w: "winds_down deps acct (Topo srv s i j) cs"
  show "winds_down deps acct (Topo srv Down 0 0) cs"
    using w unfolding winds_down_iff by (auto simp: at_stage_def dest: spec [of _ Down])
  show "winds_down deps acct (Topo srv Net_ready i 0) cs" if "piped s"
  proof -
    have "roof s = Serving" using that by (auto simp: piped_def)
    then have "advances deps acct (at_stage srv i j s') cs = Some (Topo [] Down 0 0)" for s'
      using w unfolding winds_down_iff by simp
    from this [of Down] this [of Net_booting] this [of Net_ready] show ?thesis
      unfolding winds_down_iff by (auto simp: at_stage_def)
  qed
qed

lemma winds_down_served:
  "winds_down deps acct (Topo srv Down i j) cs \<Longrightarrow> winds_down deps acct (Topo (x # srv) Down i j) (Closed x # cs)"
  unfolding winds_down_iff by (auto simp: at_stage_def)

section \<open>Histories\<close>

record history =
  events :: "event list"
  cleanups :: "event list"

text \<open>A history at a state: its events lead there, and its cleanups lead back.\<close>

definition at :: "string list \<Rightarrow> string \<Rightarrow> topo \<Rightarrow> 'z history_scheme \<Rightarrow> bool" where
  "at deps acct x w \<longleftrightarrow>
     advances deps acct (Topo [] Down 0 0) (events w) = Some x \<and> winds_down deps acct x (cleanups w)"

definition orderly :: "string list \<Rightarrow> string \<Rightarrow> 'z history_scheme \<Rightarrow> bool" where
  "orderly deps acct w \<longleftrightarrow> (\<exists>x. at deps acct x w)"

lemma orderlyI: "at deps acct x w \<Longrightarrow> orderly deps acct w"
  by (auto simp: orderly_def)

text \<open>The whole test: what happened, then its cleanups.\<close>

lemma orderly_ends:
  "orderly deps acct w \<Longrightarrow> advances deps acct (Topo [] Down 0 0) (events w @ cleanups w) = Some (Topo [] Down 0 0)"
  by (auto simp: orderly_def at_def dest: winds_downD)

lemma orderly_tidy: "orderly deps acct w \<Longrightarrow> tidy deps acct (events w @ cleanups w)"
  by (rule advances_tidy) (rule orderly_ends)

definition emit :: "event \<Rightarrow> ('z history_scheme, unit) prog" where
  "emit e = (\<lambda>w. (Inr (), w\<lparr>events := events w @ [e]\<rparr>))"

definition cleanup :: "event \<Rightarrow> ('z history_scheme, unit) prog" where
  "cleanup e = (\<lambda>w. (Inr (), w\<lparr>cleanups := e # cleanups w\<rparr>))"

definition history_of :: "'z history_scheme \<Rightarrow> event list \<times> event list" where
  "history_of w = (events w, cleanups w)"

lemma at_history: "history_of w = history_of v \<Longrightarrow> at deps acct x w = at deps acct x v"
  by (simp add: at_def history_of_def)

section \<open>Contracts of programs over histories\<close>

definition moves ::
  "string list \<Rightarrow> string \<Rightarrow> topo \<Rightarrow> ('z history_scheme, 'a) prog \<Rightarrow> ('a \<Rightarrow> topo \<Rightarrow> bool) \<Rightarrow> bool" where
  "moves deps acct x m Q \<longleftrightarrow>
     triple (at deps acct x) m (\<lambda>r w. \<exists>y. at deps acct y w \<and> Q r y) (\<lambda>_. orderly deps acct)"

lemma triple_ex: "(\<And>y. Q y \<Longrightarrow> triple (P y) m R E) \<Longrightarrow> triple (\<lambda>w. \<exists>y. P y w \<and> Q y) m R E"
  unfolding triple_def by (intro allI impI, elim exE conjE) (simp only:)

lemma moves_keeps: "keeps history_of m \<Longrightarrow> moves deps acct x m (\<lambda>_ y. y = x)"
proof -
  assume k: "keeps history_of m"
  have "at deps acct x w' = at deps acct x w" if "m w = (r, w')" for w r w'
    by (rule at_history) (rule keepsD [OF k that])
  then show ?thesis unfolding moves_def triple_def by (auto intro: orderlyI split: prod.split sum.split)
qed

lemma moves_andthen:
  assumes "moves deps acct x m P" and "\<And>r y. P r y \<Longrightarrow> moves deps acct y (f r) Q"
  shows "moves deps acct x (andthen m f) Q"
  unfolding moves_def
proof (rule triple_andthen [OF assms(1) [unfolded moves_def]])
  show "triple (\<lambda>w. \<exists>y. at deps acct y w \<and> P r y) (f r) (\<lambda>r w. \<exists>y. at deps acct y w \<and> Q r y)
      (\<lambda>_. orderly deps acct)" for r
    by (rule triple_ex) (rule assms(2) [unfolded moves_def])
qed

lemma moves_ret: "Q r x \<Longrightarrow> moves deps acct x (ret r) Q"
  unfolding moves_def by (auto intro: triple_ret)

lemma moves_abort: "moves deps acct x (abort e) Q"
  unfolding moves_def by (auto intro: triple_abort orderlyI)

lemma moves_weaken: "moves deps acct x m P \<Longrightarrow> (\<And>r y. P r y \<Longrightarrow> Q r y) \<Longrightarrow> moves deps acct x m Q"
  unfolding moves_def triple_def by (fastforce split: prod.splits sum.splits)
end
