(* ===== verification/Node_Env.thy ===== *)
theory Node_Env
  imports Lifecycle Polling Process Runtimes Bootstrap
begin

text \<open>
  The process runtime of a single-node scenario: \<^verbatim>\<open>runNodeProcess\<close> (\<^verbatim>\<open>node.go\<close>),
  \<^verbatim>\<open>StartSeparatedNode\<close> and \<^verbatim>\<open>SeparatedNode.Stop\<close> (\<^verbatim>\<open>separated.go\<close>),
  \<^verbatim>\<open>startSingleNodeProcess\<close> and the \<^verbatim>\<open>RestartNode\<close> and \<^verbatim>\<open>StopNode\<close> it returns
  (\<^verbatim>\<open>env.go\<close>), composed of the models of the parts they call.
\<close>

section \<open>The host\<close>

text \<open>
  The worlds of the parts, and what the outside does where the parts leave it open: the
  \<open>k\<close>-th wait of each kind runs against its own script, the \<open>k\<close>-th launch may fail.
\<close>

record ('o, 'c) host = history +
  build :: build_state
  portGiven :: "nat \<Rightarrow> nat outcome"
  portsDrawn :: nat
  stubWorld :: "(http_reply \<times> string) world"
  broker :: "('o, 'c) NATS"
  registry :: registry_world
  disk :: tree
  diskFaults :: disk_faults
  umask :: nat
  bootWorld :: "nat \<Rightarrow> boot_look world"
  subsWorld :: "nat \<Rightarrow> string list option world"
  waited :: nat
  startErr :: "nat \<Rightarrow> string option"
  launches :: "(string \<times> string \<times> string \<times> string list) list" \<comment> \<open>name, binary, directory, added environment\<close>
  streams :: "nat \<Rightarrow> string \<times> string" \<comment> \<open>what the \<open>k\<close>-th launch has written to stdout and stderr\<close>

definition on_part :: "('w \<Rightarrow> 'v) \<Rightarrow> ('v \<Rightarrow> 'w \<Rightarrow> 'w) \<Rightarrow> ('v, 'a) prog \<Rightarrow> ('w, 'a) prog" where
  "on_part part upd m = (\<lambda>w. case m (part w) of (r, v) \<Rightarrow> (r, upd v w))"

abbreviation on_build where "on_build \<equiv> on_part build (\<lambda>v. build_update (\<lambda>_. v))"
abbreviation on_broker where "on_broker \<equiv> on_part broker (\<lambda>v. broker_update (\<lambda>_. v))"
abbreviation on_registry where "on_registry \<equiv> on_part registry (\<lambda>v. registry_update (\<lambda>_. v))"

text \<open>
  The outcome of a wait.  The runs modelled here are those in which every call to the outside
  comes back (go build, the file system, the registry, and so the looks of a wait, which is
  what \<open>steady\<close> says): then every wait has an outcome, by \<open>waits_return\<close>.  A call that
  never comes back leaves the test where it is, and what had happened until then is a
  beginning of such a run; which waits can hang, and when, is stated in Polling.
\<close>

definition wait_outcome :: "('a outcome \<times> 'v) option \<Rightarrow> 'a outcome" where
  "wait_outcome r = (case r of Some (x, _) \<Rightarrow> x | None \<Rightarrow> Inl (Fatalf ''hangs'' []))"

definition free_port :: "(('o, 'c) host, string) prog" where
  "free_port = (\<lambda>w. (FreePort (portGiven w (portsDrawn w)), w\<lparr>portsDrawn := Suc (portsDrawn w)\<rparr>))"

text \<open>\<^verbatim>\<open>StartPDPStub\<close>: serve, register the shutdown, wait.\<close>

definition pdp_server :: string where "pdp_server = ''pdp''"
definition nats_server :: string where "nats_server = ''nats''"

definition start_stub :: "string \<Rightarrow> (('o, 'c) host, string) prog" where
  "start_stub addr =
     andthen (emit (Served pdp_server)) (\<lambda>_.
     andthen (cleanup (Closed pdp_server)) (\<lambda>_.
     (\<lambda>w. (wait_outcome (StartPDPStub addr (steady (stubWorld w))), w))))"

text \<open>\<^verbatim>\<open>StartNATS\<close> with its server: provisioned first, then run, its shutdown registered.\<close>

definition start_broker ::
  "('o, 'c) natsop \<Rightarrow> string \<Rightarrow> string + string \<Rightarrow> (string \<times> (string + string \<times> string)) list \<Rightarrow>
     (('o, 'c) host, unit) prog" where
  "start_broker lib dir op keys =
     andthen (on_broker (StartNATS lib dir op keys)) (\<lambda>_.
     andthen (emit (Served nats_server)) (\<lambda>_.
     cleanup (Closed nats_server)))"

section \<open>Processes\<close>

text \<open>A node's buffers are those of its launch.\<close>

record Node =
  nName :: string
  nDir :: string
  nBaseURL :: string
  nLaunch :: nat

definition runNodeProcess ::
  "string \<Rightarrow> string \<Rightarrow> string \<Rightarrow> string \<Rightarrow> string list \<Rightarrow> (('o, 'c) host, Node) prog" where
  "runNodeProcess name bin dir baseURL extraEnv = (\<lambda>w.
     let w1 = w\<lparr>launches := launches w @ [(name, bin, dir, extraEnv)]\<rparr> in
     case startErr w (length (launches w)) of
       Some e \<Rightarrow> (Inl (Fatalf ''node %s: start: %v'' [name, e]), w1)
     | None \<Rightarrow>
         andthen (emit (Started name (length (launches w)))) (\<lambda>_.
         andthen (cleanup (Stopped name (length (launches w)))) (\<lambda>_.
         ret \<lparr>nName = name, nDir = dir, nBaseURL = baseURL, nLaunch = length (launches w)\<rparr>)) w1)"

text \<open>
  Stop as one event: it comes back, with this process gone and reaped (\<open>stop_returns\<close>,
  \<open>stop_safe\<close>), whether it had to signal it or found it dead; on a process that was stopped
  before, it comes back at once, and says so again.
\<close>

definition Node_Stop :: "Node \<Rightarrow> (('o, 'c) host, unit) prog" where
  "Node_Stop n = emit (Stopped (nName n) (nLaunch n))"

definition Node_Stdout :: "Node \<Rightarrow> ('o, 'c) host \<Rightarrow> string" where
  "Node_Stdout n w = fst (streams w (nLaunch n))"

definition Node_Stderr :: "Node \<Rightarrow> ('o, 'c) host \<Rightarrow> string" where
  "Node_Stderr n w = snd (streams w (nLaunch n))"

definition await_node :: "Node \<Rightarrow> (('o, 'c) host, unit) prog" where
  "await_node n =
     andthen (\<lambda>w. (wait_outcome (waitHealthy (nName n) (nBaseURL n @ ''/readyz'') (steady (bootWorld w (waited w)))),
                   w\<lparr>waited := Suc (waited w)\<rparr>)) (\<lambda>_.
     emit (Ready (nName n) (nLaunch n)))"

section \<open>The separated node\<close>

record SeparatedNodeSpec =
  spName :: string
  spNetworkBin :: string
  spNetworkListenAddr :: string
  spNetworkDir :: string
  spNetworkConfig :: string
  spPipelineBin :: string
  spPipelineListenAddr :: string
  spPipelineDir :: string
  spPipelineConfig :: string

record SeparatedNode =
  snName :: string
  snNetwork :: Node
  snPipeline :: Node
  snBaseURL :: string

definition path_segs :: "string \<Rightarrow> string list" where
  "path_segs p = filter (\<lambda>s. s \<noteq> []) (split_char slash p)"

definition on_disk :: "(tree \<Rightarrow> (string + 'a) \<times> tree) \<Rightarrow> (string \<Rightarrow> fatal) \<Rightarrow> (('o, 'c) host, 'a) prog" where
  "on_disk f err = on_part disk (\<lambda>v. disk_update (\<lambda>_. v))
     (\<lambda>t. case f t of (Inl e, t') \<Rightarrow> (Inl (err e), t') | (Inr x, t') \<Rightarrow> (Inr x, t'))"

definition with_disk :: "(disk_faults \<Rightarrow> nat \<Rightarrow> (('o, 'c) host, 'a) prog) \<Rightarrow> (('o, 'c) host, 'a) prog" where
  "with_disk f = (\<lambda>w. f (diskFaults w) (umask w) w)"

definition StartSeparatedNode :: "SeparatedNodeSpec \<Rightarrow> (('o, 'c) host, SeparatedNode) prog" where
  "StartSeparatedNode spec =
     andthen (with_disk (\<lambda>ft um. on_disk (writeApplicationConf ft um (path_segs (spNetworkDir spec)) (spNetworkConfig spec))
                (\<lambda>e. Fatalf ''separated node %s: network config: %v'' [spName spec, e]))) (\<lambda>_.
     andthen (runNodeProcess (spName spec @ ''-network'') (spNetworkBin spec) (spNetworkDir spec)
                (''http://127.0.0.1'' @ spNetworkListenAddr spec) []) (\<lambda>network.
     andthen (await_node network) (\<lambda>_.
     andthen (with_disk (\<lambda>ft um. on_disk (writeConfigFile ft um (path_segs (spPipelineDir spec)) (spPipelineConfig spec))
                (\<lambda>e. Fatalf ''separated node %s: pipeline config: %v'' [spName spec, e]))) (\<lambda>_.
     andthen (runNodeProcess (spName spec @ ''-pipeline'') (spPipelineBin spec) (spPipelineDir spec)
                (''http://127.0.0.1'' @ spPipelineListenAddr spec)
                [''CONFIG_FILE='' @ path_join [spPipelineDir spec, ''pipeline.conf'']]) (\<lambda>pipeline.
     andthen (await_node pipeline) (\<lambda>_.
     ret \<lparr>snName = spName spec, snNetwork = network, snPipeline = pipeline, snBaseURL = nBaseURL network\<rparr>))))))"

definition SeparatedNode_Stop :: "SeparatedNode \<Rightarrow> (('o, 'c) host, unit) prog" where
  "SeparatedNode_Stop sn = andthen (Node_Stop (snPipeline sn)) (\<lambda>_. Node_Stop (snNetwork sn))"

definition SeparatedNode_Stdout :: "SeparatedNode \<Rightarrow> ('o, 'c) host \<Rightarrow> string" where
  "SeparatedNode_Stdout sn = Node_Stdout (snPipeline sn)"

definition SeparatedNode_Stderr :: "SeparatedNode \<Rightarrow> ('o, 'c) host \<Rightarrow> string" where
  "SeparatedNode_Stderr sn = Node_Stderr (snPipeline sn)"

definition SeparatedNode_SinkLines :: "SeparatedNode \<Rightarrow> (('o, 'c) host, string list) prog" where
  "SeparatedNode_SinkLines sn = (\<lambda>w. (Inr (Node_SinkLines (SeparatedNode_Stdout sn w)), w))"

section \<open>The environment of a scenario\<close>

record SingleNodeSpec =
  Account :: string
  specRegistryID :: string
  specNodeDID :: string
  PipelineDIDs :: "string list"
  ProcessDIDs :: "string list"
  Loops :: "string \<Rightarrow> string"
  Tunables :: string
  ChainTunables :: string
  IngressSubjects :: "string list"

definition ownerDIDFor :: "SingleNodeSpec \<Rightarrow> string" where
  "ownerDIDFor spec = ''did:dplaax:'' @ specRegistryID spec @ '':org:'' @ Account spec"

text \<open>What the outside hands to a start: directories, keys, tools, the server's address.\<close>

record ('o, 'c, 'm, 'v, 'p, 'd) outside =
  natsLib :: "('o, 'c) natsop"
  identityLib :: "('m, 'v, 'p, 'd) identity_lib"
  printable :: "nat \<Rightarrow> bool"
  root :: "string outcome"
  arg0 :: string
  mkdirTmp :: "string option"
  goBuild :: "string \<Rightarrow> string \<Rightarrow> string option"
  workDir :: string
  ownerDir :: string
  operatorKey :: "string + string"
  accountKeys :: "string + string \<times> string"
  clientURL :: string

definition process_config ::
  "SingleNodeSpec \<Rightarrow> string \<Rightarrow> string \<Rightarrow> string \<Rightarrow> string \<Rightarrow> string \<Rightarrow> string \<Rightarrow> SeparatedConfig" where
  "process_config spec networkListen pipelineListen pdpURL natsURL seedFile natsDir =
     (let networkBaseURL = ''http://127.0.0.1'' @ networkListen in
      \<lparr>sNetworkListenAddr = networkListen, sPipelineListenAddr = pipelineListen,
       sRegistryID = specRegistryID spec, sPDPBaseURL = pdpURL, sNATSURL = natsURL,
       sAccountSeedFile = seedFile, sTrustSeedFile = path_join [natsDir, ''operator.seed''],
       sResolverDir = path_join [natsDir, ''jwts''], sNodeDID = specNodeDID spec,
       sResolverBaseURL = networkBaseURL, sRegistryBaseURLs = Map.empty,
       sLoopsBlock = Loops spec networkBaseURL, sTunables = Tunables spec,
       sChainExtra = ChainTunables spec, sAllowLoopback = True, sAllowPrivateNetworks = False\<rparr>)"

definition check_node_did :: "string \<Rightarrow> SingleNodeSpec \<Rightarrow> (string \<rightharpoonup> ExternalKeys) \<Rightarrow> ('w, unit) prog" where
  "check_node_did fmt spec extKeys =
     (if extKeys (specNodeDID spec) = None
      then abort (Fatalf fmt [Account spec, specNodeDID spec])
      else ret ())"

definition node_did_text :: string where
  "node_did_text = ''SingleNodeSpec %s: NodeDID %s must be one of PipelineDIDs/ProcessDIDs''"

definition identity_text :: string where
  "identity_text = '' '' @ [CHR 0xE2, CHR 0x80, CHR 0x94]
     @ '' it is the identity cmd/pipeline'' @ [CHR 0x27] @ ''s own wireauth-signed calls (RegisterAuditHead, ResolvePayload)''
     @ '' sign as, and only those two lists get provisioned''"

text \<open>The configurations of a start, and the pair that boots from them.\<close>

definition separated_spec ::
  "('o, 'c, 'm, 'v, 'p, 'd) outside \<Rightarrow> SingleNodeSpec \<Rightarrow> string \<times> string \<Rightarrow> string \<Rightarrow> string \<Rightarrow>
     SeparatedConfig \<Rightarrow> SeparatedNodeSpec" where
  "separated_spec out spec bins networkListen pipelineListen cfg =
     (let (networkCfg, pipelineCfg) = SplitNodeConfig (printable out) [] [] cfg in
      \<lparr>spName = Account spec, spNetworkBin = fst bins, spNetworkListenAddr = networkListen,
       spNetworkDir = path_join [workDir out, Account spec @ ''-network''], spNetworkConfig = networkCfg,
       spPipelineBin = snd bins, spPipelineListenAddr = pipelineListen,
       spPipelineDir = path_join [workDir out, Account spec @ ''-pipeline''], spPipelineConfig = pipelineCfg\<rparr>)"

definition waitSubscribed :: "string list \<Rightarrow> (('o, 'c) host, unit) prog" where
  "waitSubscribed subjects =
     andthen (for_each subjects (\<lambda>subj w.
       (wait_outcome (WaitForSubscriber subj 30000 (steady (subsWorld w (waited w)))), w\<lparr>waited := Suc (waited w)\<rparr>)))
       (\<lambda>_. ret ())"

text \<open>The environment: the running pair, and what \<^verbatim>\<open>RestartNode\<close> starts again.\<close>

record node_env =
  eNodeBase :: string
  ePipelineBase :: string
  eNATSURL :: string
  eAcctSeed :: string
  eSeparated :: SeparatedNodeSpec
  eSubjects :: "string list"

definition startSingleNodeProcess ::
  "('o, 'c, 'm, 'v, 'p, 'd) outside \<Rightarrow> SingleNodeSpec \<Rightarrow> (('o, 'c) host, node_env \<times> SeparatedNode) prog" where
  "startSingleNodeProcess out spec =
     andthen (on_build (BuildBinaries (root out) (arg0 out) (mkdirTmp out) (goBuild out))) (\<lambda>bins.
     andthen free_port (\<lambda>networkListen.
     andthen free_port (\<lambda>pipelineListen.
     andthen free_port (\<lambda>pdpAddr.
     andthen (start_stub pdpAddr) (\<lambda>pdpURL.
     let natsDir = path_join [workDir out, ''nats''];
         pipelineDataDir = path_join [path_join [workDir out, Account spec @ ''-pipeline''], ''data''] in
     andthen (start_broker (natsLib out) natsDir (operatorKey out) [(Account spec, accountKeys out)]) (\<lambda>_.
     andthen (on_broker (account ''nats'' (Account spec))) (\<lambda>acct.
     andthen (on_registry (provision_all pipelineDataDir (PipelineDIDs spec @ ProcessDIDs spec) Map.empty)) (\<lambda>extKeys.
     andthen (check_node_did (node_did_text @ '' in the process (separated) runtime'' @ identity_text) spec extKeys) (\<lambda>_.
     let cfg = process_config spec networkListen pipelineListen pdpURL (clientURL out) (SeedFile acct) natsDir;
         sep = separated_spec out spec bins networkListen pipelineListen cfg in
     andthen (StartSeparatedNode sep) (\<lambda>sn.
     andthen (waitSubscribed (IngressSubjects spec)) (\<lambda>_.
     andthen (on_registry (NewOwner (ownerDir out) (ownerDIDFor spec))) (\<lambda>owner.
     andthen (on_registry (BootstrapExternal (identityLib out) (snBaseURL sn) owner (PipelineDIDs spec)
                (ProcessDIDs spec) extKeys)) (\<lambda>_.
     ret (\<lparr>eNodeBase = snBaseURL sn, ePipelineBase = ''http://127.0.0.1'' @ pipelineListen,
           eNATSURL = clientURL out, eAcctSeed = Seed acct, eSeparated = sep,
           eSubjects = IngressSubjects spec\<rparr>, sn))))))))))))))"

text \<open>\<^verbatim>\<open>RestartNode\<close>, \<^verbatim>\<open>StopNode\<close> and \<^verbatim>\<open>SinkLines\<close>; the closures' \<^verbatim>\<open>sn\<close> is passed along.\<close>

datatype env_call = RestartNode | StopNode | ReadSinks

fun env_run :: "node_env \<Rightarrow> SeparatedNode \<Rightarrow> env_call \<Rightarrow> (('o, 'c) host, SeparatedNode) prog" where
  "env_run env sn RestartNode =
     andthen (SeparatedNode_Stop sn) (\<lambda>_.
     andthen (StartSeparatedNode (eSeparated env)) (\<lambda>sn'.
     andthen (waitSubscribed (eSubjects env)) (\<lambda>_.
     ret sn')))"
| "env_run env sn StopNode = andthen (SeparatedNode_Stop sn) (\<lambda>_. ret sn)"
| "env_run env sn ReadSinks = andthen (SeparatedNode_SinkLines sn) (\<lambda>_. ret sn)"

primrec env_calls :: "node_env \<Rightarrow> env_call list \<Rightarrow> SeparatedNode \<Rightarrow> (('o, 'c) host, SeparatedNode) prog" where
  "env_calls env [] sn = ret sn"
| "env_calls env (c # cs) sn = andthen (env_run env sn c) (env_calls env cs)"

text \<open>A whole test: start, the scenario's calls, and however that ends the cleanups.\<close>

definition process_test ::
  "('o, 'c, 'm, 'v, 'p, 'd) outside \<Rightarrow> SingleNodeSpec \<Rightarrow> env_call list \<Rightarrow> (('o, 'c) host, SeparatedNode) prog" where
  "process_test out spec todo =
     andthen (startSingleNodeProcess out spec) (\<lambda>(env, sn). env_calls env todo sn)"

definition test_history :: "'z history_scheme \<Rightarrow> event list" where
  "test_history w = events w @ cleanups w"

definition fresh_history :: "'z history_scheme \<Rightarrow> 'z history_scheme" where
  "fresh_history w = w\<lparr>events := [], cleanups := []\<rparr>"

section \<open>Parts that leave the history alone\<close>

lemma keeps_on_part [prog_rules]: "(\<And>v w. f (upd v w) = f w) \<Longrightarrow> keeps f (on_part part upd m)"
  by (simp add: keeps_def on_part_def split: prod.split)

lemma history_updates [simp]:
  "history_of (w\<lparr>build := a\<rparr>) = history_of w" "history_of (w\<lparr>broker := b\<rparr>) = history_of w"
  "history_of (w\<lparr>registry := c\<rparr>) = history_of w" "history_of (w\<lparr>disk := d\<rparr>) = history_of w"
  "history_of (w\<lparr>waited := n\<rparr>) = history_of w" "history_of (w\<lparr>portsDrawn := n\<rparr>) = history_of w"
  "history_of (w\<lparr>launches := l\<rparr>) = history_of w"
  by (simp_all add: history_of_def)

lemma on_disk_keeps: "keeps history_of (with_disk (\<lambda>ft um. on_disk (f ft um) err))"
  by (simp add: keeps_def with_disk_def on_disk_def on_part_def split: prod.split sum.split)

lemma free_port_keeps: "keeps history_of free_port"
  by (simp add: keeps_def free_port_def)

lemma waitSubscribed_keeps: "keeps history_of (waitSubscribed subjects)"
  unfolding waitSubscribed_def
  by (intro prog_rules) (simp add: keeps_def)

lemma check_node_did_keeps: "keeps f (check_node_did fmt spec extKeys)"
  by (simp add: check_node_did_def prog_rules)

section \<open>The contracts of the parts\<close>

lemma moves_emit:
  assumes "advance deps acct x e = Some y" and "\<And>cs. winds_down deps acct x cs \<Longrightarrow> winds_down deps acct y cs"
  shows "moves deps acct x (emit e) (\<lambda>_ z. z = y)"
  using assms by (auto simp: moves_def triple_def emit_def at_def)

lemma moves_open:
  assumes "advance deps acct x e = Some y" and "\<And>cs. winds_down deps acct x cs \<Longrightarrow> winds_down deps acct y (c # cs)"
  shows "moves deps acct x (andthen (emit e) (\<lambda>_. cleanup c)) (\<lambda>_ z. z = y)"
  using assms by (auto simp: moves_def triple_def emit_def cleanup_def andthen_def at_def)

abbreviation node_deps :: "string list" where
  "node_deps \<equiv> [nats_server, pdp_server]"

lemma moves_start_stub:
  "pdp_server \<notin> set srv \<Longrightarrow>
     moves node_deps acct (Topo srv Down i j) (start_stub addr) (\<lambda>_ z. z = Topo (pdp_server # srv) Down i j)"
  unfolding start_stub_def andthen_assoc [symmetric]
  by (rule moves_andthen [OF moves_open [where y = "Topo (pdp_server # srv) Down i j"]])
     (auto intro: winds_down_served moves_keeps [THEN moves_weaken] simp: keeps_def)

lemma moves_start_broker:
  "nats_server \<notin> set srv \<Longrightarrow>
     moves node_deps acct (Topo srv Down i j) (start_broker lib dir op keys) (\<lambda>_ z. z = Topo (nats_server # srv) Down i j)"
  unfolding start_broker_def
  by (rule moves_andthen [OF moves_keeps])
     (auto intro!: keeps_on_part moves_open winds_down_served)

lemma moves_launch:
  assumes "\<And>k. advance deps acct x (Started name k) = Some (y k)"
    and "\<And>cs k. winds_down deps acct x cs \<Longrightarrow> winds_down deps acct (y k) (Stopped name k # cs)"
  shows "moves deps acct x (runNodeProcess name bin dir url env)
    (\<lambda>n z. z = y (nLaunch n) \<and> nName n = name \<and> nBaseURL n = url)"
  using assms
  by (auto simp: moves_def triple_def runNodeProcess_def Let_def emit_def cleanup_def andthen_def at_def orderly_def
      split: option.split)

lemma moves_await:
  assumes "advance deps acct x (Ready (nName n) (nLaunch n)) = Some y"
    and "\<And>cs. winds_down deps acct x cs \<Longrightarrow> winds_down deps acct y cs"
  shows "moves deps acct x (await_node n) (\<lambda>_ z. z = y)"
  unfolding await_node_def
  by (rule moves_andthen [OF moves_keeps]) (auto simp: keeps_def intro: moves_emit assms)

text \<open>A pair that is the node's, and whose processes are the ones that run, as far as any do.\<close>

fun pair_of :: "string \<Rightarrow> SeparatedNode \<Rightarrow> topo \<Rightarrow> bool" where
  "pair_of acct sn (Topo srv s i j) \<longleftrightarrow>
     nName (snNetwork sn) = network_name acct \<and> nName (snPipeline sn) = pipeline_name acct
   \<and> (s \<noteq> Down \<longrightarrow> i = nLaunch (snNetwork sn)) \<and> (piped s \<longrightarrow> j = nLaunch (snPipeline sn))"

definition serving_pair :: "string list \<Rightarrow> string \<Rightarrow> SeparatedNode \<Rightarrow> topo \<Rightarrow> bool" where
  "serving_pair srv acct sn x \<longleftrightarrow> (\<exists>s i j. x = Topo srv s i j) \<and> pair_of acct sn x"

lemma moves_StartSeparatedNode:
  assumes "spName spec = acct" and "set deps \<subseteq> set srv"
  shows "moves deps acct (Topo srv Down i j) (StartSeparatedNode spec) (serving_pair srv acct)"
proof -
  have names: "spName spec @ ''-network'' = network_name acct" "spName spec @ ''-pipeline'' = pipeline_name acct"
    by (simp_all add: assms(1) network_name_def pipeline_name_def)
  have conf: "moves deps acct x (with_disk (\<lambda>ft um. on_disk (f ft um) err)) (\<lambda>_ z. z = x)" for x f err
    by (rule moves_keeps) (rule on_disk_keeps)
  have net: "moves deps acct (Topo srv Down i j) (runNodeProcess (network_name acct) b d u v)
      (\<lambda>n z. z = Topo srv Net_booting (nLaunch n) 0 \<and> nName n = network_name acct \<and> nBaseURL n = u)" for b d u v
    by (rule moves_launch) (use assms(2) winds_down_net in auto)
  have net_up: "nName n = network_name acct \<Longrightarrow>
      moves deps acct (Topo srv Net_booting (nLaunch n) 0) (await_node n) (\<lambda>_ z. z = Topo srv Net_ready (nLaunch n) 0)" for n
    by (rule moves_await) (auto elim: winds_down_ready)
  have pipe: "moves deps acct (Topo srv Net_ready k 0) (runNodeProcess (pipeline_name acct) b d u v)
      (\<lambda>n z. z = Topo srv Pipe_booting k (nLaunch n) \<and> nName n = pipeline_name acct \<and> nBaseURL n = u)" for k b d u v
    by (rule moves_launch) (use assms(2) winds_down_pipe in auto)
  have pipe_up: "nName n = pipeline_name acct \<Longrightarrow>
      moves deps acct (Topo srv Pipe_booting k (nLaunch n)) (await_node n) (\<lambda>_ z. z = Topo srv Serving k (nLaunch n))" for k n
    by (rule moves_await) (auto elim: winds_down_ready)
  show ?thesis
    unfolding StartSeparatedNode_def names
    by (rule moves_andthen [OF conf], simp only:, rule moves_andthen [OF net], elim conjE, simp only:,
        rule moves_andthen [OF net_up], assumption, simp only:, rule moves_andthen [OF conf], simp only:,
        rule moves_andthen [OF pipe], elim conjE, simp only:, rule moves_andthen [OF pipe_up], assumption, simp only:,
        rule moves_ret, simp add: serving_pair_def)
qed

lemma moves_Stop:
  assumes "pair_of acct sn (Topo srv s i j)"
  shows "moves deps acct (Topo srv s i j) (SeparatedNode_Stop sn) (\<lambda>_ z. z = Topo srv Down 0 0)"
proof -
  let ?k = "nLaunch (snNetwork sn)"
  have names: "nName (snPipeline sn) = pipeline_name acct" "nName (snNetwork sn) = network_name acct"
    and run: "s \<noteq> Down \<Longrightarrow> i = ?k" "piped s \<Longrightarrow> j = nLaunch (snPipeline sn)"
    using assms by simp_all
  have low: "x = Topo srv Down 0 0 \<or> x = Topo srv Net_booting ?k 0 \<or> x = Topo srv Net_ready ?k 0 \<Longrightarrow>
      moves deps acct x (emit (Stopped (network_name acct) ?k)) (\<lambda>_ z. z = Topo srv Down 0 0)" for x
    by (rule moves_emit) (auto intro: winds_down_stop(2))
  have canon: "at deps acct (Topo srv s i j) w \<Longrightarrow> Topo srv s i j = at_stage srv i j s" for w :: "('o, 'c) host"
    by (simp add: at_def winds_down_iff)
  let ?y = "Topo srv (if piped s then Net_ready else s) (if s = Down then 0 else ?k) 0"
  have "moves deps acct (Topo srv s i j) (emit (Stopped (pipeline_name acct) (nLaunch (snPipeline sn)))) (\<lambda>_ z. z = ?y)"
  proof (cases "piped s")
    case True
    then have "s \<noteq> Down" by auto
    then show ?thesis using True run by (intro moves_emit) (auto intro: winds_down_stop(1))
  next
    case False
    then show ?thesis
      using run unfolding moves_def triple_def
      by (auto simp: emit_def at_def winds_down_iff at_stage_def split: if_splits)
  qed
  moreover have "moves deps acct y (emit (Stopped (network_name acct) ?k)) (\<lambda>_ z. z = Topo srv Down 0 0)" if "y = ?y" for y
    unfolding that by (rule low) (use stage_cases [of s] in auto)
  ultimately show ?thesis
    unfolding SeparatedNode_Stop_def Node_Stop_def names by (rule moves_andthen)
qed

section \<open>A whole test\<close>

lemma moves_env_run:
  assumes "serving_pair srv acct sn x" and "spName (eSeparated env) = acct" and "set deps \<subseteq> set srv"
  shows "moves deps acct x (env_run env sn c) (serving_pair srv acct)"
proof -
  obtain s i j where x: "x = Topo srv s i j" "pair_of acct sn (Topo srv s i j)"
    using assms(1) by (auto simp: serving_pair_def)
  show ?thesis
  proof (cases c)
    case RestartNode
    have wait: "moves deps acct y (andthen (waitSubscribed subjects) (\<lambda>_. ret sn')) (serving_pair srv acct)"
      if "serving_pair srv acct sn' y" for y subjects sn'
      by (rule moves_andthen [OF moves_keeps [OF waitSubscribed_keeps]]) (simp add: moves_ret that)
    show ?thesis
      unfolding RestartNode env_run.simps x(1)
      by (rule moves_andthen [OF moves_Stop [OF x(2)]], simp only:,
          rule moves_andthen [OF moves_StartSeparatedNode [OF assms(2,3)]], rule wait, assumption)
  next
    case StopNode
    show ?thesis
      unfolding StopNode env_run.simps x(1)
      by (rule moves_andthen [OF moves_Stop [OF x(2)]]) (use x(2) in \<open>simp add: moves_ret serving_pair_def\<close>)
  next
    case ReadSinks
    have "keeps history_of (SeparatedNode_SinkLines sn)" by (simp add: keeps_def SeparatedNode_SinkLines_def)
    then show ?thesis
      unfolding ReadSinks env_run.simps
      by (intro moves_andthen [OF moves_keeps]) (auto simp: moves_ret assms(1))
  qed
qed

lemma moves_env_calls:
  assumes "serving_pair srv acct sn x" and "spName (eSeparated env) = acct" and "set deps \<subseteq> set srv"
  shows "moves deps acct x (env_calls env cs sn) (\<lambda>_ z. True)"
  using assms(1)
proof (induction cs arbitrary: sn x)
  case (Cons c cs)
  show ?case
    unfolding env_calls.simps
    by (rule moves_andthen [OF moves_env_run [OF Cons.prems assms(2,3)]]) (rule Cons.IH)
qed (simp add: moves_ret)

lemma servers_differ [simp]: "nats_server \<noteq> pdp_server" "pdp_server \<noteq> nats_server"
  by (simp_all add: nats_server_def pdp_server_def)

lemma spName_separated [simp]: "spName (separated_spec out spec bins n p cfg) = Account spec"
  by (simp add: separated_spec_def split: prod.split)

lemma moves_seq:
  "moves deps acct x m (\<lambda>_ z. z = y) \<Longrightarrow> (\<And>r. moves deps acct y (f r) Q) \<Longrightarrow> moves deps acct x (andthen m f) Q"
  by (rule moves_andthen [where P = "\<lambda>_ z. z = y"]) simp_all

lemma moves_quiet:
  "(\<And>v w. history_of (upd v w) = history_of w) \<Longrightarrow> moves deps acct x (on_part part upd m) (\<lambda>_ z. z = x)"
  by (intro moves_keeps keeps_on_part)

lemma moves_start:
  "moves node_deps (Account spec) (Topo [] Down 0 0) (startSingleNodeProcess out spec)
     (\<lambda>(env, sn) z. serving_pair node_deps (Account spec) sn z \<and> spName (eSeparated env) = Account spec)"
  unfolding startSingleNodeProcess_def Let_def
  apply (rule moves_seq [OF moves_quiet], simp)
  apply (rule moves_seq [OF moves_keeps [OF free_port_keeps]])+
  apply (rule moves_seq [OF moves_start_stub], simp)
  apply (rule moves_seq [OF moves_start_broker], simp)
  apply (rule moves_seq [OF moves_quiet], simp)
  apply (rule moves_seq [OF moves_quiet], simp)
  apply (rule moves_seq [OF moves_keeps [OF check_node_did_keeps]])
  apply (rule moves_andthen [OF moves_StartSeparatedNode [OF spName_separated subset_refl]])
  apply (rule moves_seq [OF moves_keeps [OF waitSubscribed_keeps]])
  apply (rule moves_seq [OF moves_quiet], simp)
  apply (rule moves_seq [OF moves_quiet], simp)
  apply (rule moves_ret, simp)
  done

lemma moves_test: "moves node_deps (Account spec) (Topo [] Down 0 0) (process_test out spec todo) (\<lambda>_ z. True)"
  unfolding process_test_def
  by (rule moves_andthen [OF moves_start]) (auto intro: moves_env_calls)

text \<open>C32: However a scenario starts, restarts and stops its node, and wherever a start fails: at
  every moment of the test the pipeline process runs only beside the network process, and
  both only beside the broker and the PDP; once the cleanups have run, no process runs and no
  server listens.\<close>

theorem process_test_tidy:
  "tidy node_deps (Account spec) (test_history (snd (process_test out spec todo (fresh_history w))))"
proof -
  let ?w = "fresh_history w"
  have "at node_deps (Account spec) (Topo [] Down 0 0) ?w"
    by (simp add: at_def fresh_history_def winds_down_iff at_stage_def)
  then have "orderly node_deps (Account spec) (snd (process_test out spec todo ?w))"
    using moves_test [of spec out todo] unfolding moves_def triple_def
    by (fastforce simp: orderly_def split: prod.splits sum.splits)
  then show ?thesis unfolding test_history_def by (rule orderly_tidy)
qed

lemma quiet_launches:
  assumes "keeps launches m"
  shows "triple (\<lambda>w. launches w = l) m (\<lambda>_ w. launches w = l) (\<lambda>_ w. launches w = l)"
  using assms by (auto simp: triple_def keeps_def split: prod.split sum.split) (metis snd_conv)+

lemma quiet_part:
  assumes "\<And>v w. launches (upd v w) = launches w"
  shows "triple (\<lambda>w. launches w = l) (on_part part upd m) (\<lambda>_ w. launches w = l) (\<lambda>_ w. launches w = l)"
  by (intro quiet_launches keeps_on_part assms)

lemma provision_launches:
  assumes "d \<notin> set ds"
  shows "triple (\<lambda>w. launches w = l) (on_registry (provision_all dir ds Map.empty))
    (\<lambda>keys w. launches w = l \<and> keys d = None) (\<lambda>_ w. launches w = l)"
  using assms
  by (auto simp: triple_def on_part_def split: prod.split sum.split dest: provision_all_ok)

lemma launches_emit: "keeps launches (emit e)" "keeps launches (cleanup e)" "keeps launches free_port"
  by (simp_all add: keeps_def emit_def cleanup_def free_port_def)

lemma launches_stub: "keeps launches (start_stub addr)"
  unfolding start_stub_def by (intro prog_rules launches_emit) (simp add: keeps_def)

lemma launches_broker: "keeps launches (start_broker lib dir op keys)"
  unfolding start_broker_def by (intro prog_rules launches_emit) simp

lemma unlisted_start:
  assumes "specNodeDID spec \<notin> set (PipelineDIDs spec @ ProcessDIDs spec)"
  shows "triple (\<lambda>w. launches w = l) (startSingleNodeProcess out spec) (\<lambda>_ _. False) (\<lambda>_ w. launches w = l)"
  unfolding startSingleNodeProcess_def Let_def
  apply (rule triple_andthen [OF quiet_part], simp)
  apply (rule triple_andthen [OF quiet_launches [OF launches_emit(3)]])+
  apply (rule triple_andthen [OF quiet_launches [OF launches_stub]])
  apply (rule triple_andthen [OF quiet_launches [OF launches_broker]])
  apply (rule triple_andthen [OF quiet_part], simp)
  apply (rule triple_andthen [OF provision_launches [OF assms]])
  apply (rule triple_andthen [where R = "\<lambda>_ _. False"])
   apply (simp add: triple_def check_node_did_def)
  apply (simp add: triple_def)
  done

text \<open>A node identity that is in neither list of DIDs ends the test before any process is
  launched.\<close>

theorem unlisted_node_did:
  assumes "specNodeDID spec \<notin> set (PipelineDIDs spec @ ProcessDIDs spec)"
  shows "isl (fst (startSingleNodeProcess out spec w))
    \<and> launches (snd (startSingleNodeProcess out spec w)) = launches w"
proof -
  obtain r w' where r: "startSingleNodeProcess out spec w = (r, w')" by (cases "startSingleNodeProcess out spec w")
  then have "case r of Inl e \<Rightarrow> launches w' = launches w | Inr x \<Rightarrow> False"
    using unlisted_start [OF assms, of "launches w" out] unfolding triple_def by fastforce
  then show ?thesis using r by (cases r) simp_all
qed

lemma on_disk_Inr:
  "with_disk (\<lambda>ft um. on_disk (f ft um) err) w = (Inr x, w') \<Longrightarrow>
     \<exists>t. f (diskFaults w) (umask w) (disk w) = (Inr x, t) \<and> w' = w\<lparr>disk := t\<rparr>"
  by (auto simp: with_disk_def on_disk_def on_part_def split: prod.splits sum.splits)

lemma runNodeProcess_Inr:
  "runNodeProcess name bin dir url env w = (Inr n, w') \<Longrightarrow>
     n = \<lparr>nName = name, nDir = dir, nBaseURL = url, nLaunch = length (launches w)\<rparr> \<and> disk w' = disk w
     \<and> launches w' = launches w @ [(name, bin, dir, env)] \<and> events w' = events w @ [Started name (length (launches w))]"
  by (auto simp: runNodeProcess_def Let_def andthen_def emit_def cleanup_def split: option.splits)

lemma await_node_Inr:
  "await_node n w = (Inr u, w') \<Longrightarrow>
     disk w' = disk w \<and> launches w' = launches w \<and> events w' = events w @ [Ready (nName n) (nLaunch n)]"
  by (auto simp: await_node_def andthen_eq_Inr_iff emit_def)

lemma conf_paths_differ: "path_segs a @ [''config'', ''application.conf''] \<noteq> path_segs b @ [''pipeline.conf'']"
  by (auto dest: arg_cong [of _ _ last])

lemma StartSeparatedNode_ok:
  assumes "StartSeparatedNode spec w = (Inr sn, w')"
  shows "launches w' = launches w @
      [(spName spec @ ''-network'', spNetworkBin spec, spNetworkDir spec, []),
       (spName spec @ ''-pipeline'', spPipelineBin spec, spPipelineDir spec,
        [''CONFIG_FILE='' @ path_join [spPipelineDir spec, ''pipeline.conf'']])]"
    and "events w' = events w @
        [Started (spName spec @ ''-network'') (length (launches w)), Ready (spName spec @ ''-network'') (length (launches w)),
         Started (spName spec @ ''-pipeline'') (Suc (length (launches w))),
         Ready (spName spec @ ''-pipeline'') (Suc (length (launches w)))]"
    and "read_file (disk w') = (read_file (disk w))
        (path_segs (spNetworkDir spec) @ [''config'', ''application.conf''] \<mapsto> spNetworkConfig spec,
         path_segs (spPipelineDir spec) @ [''pipeline.conf''] \<mapsto> spPipelineConfig spec)"
    and "snBaseURL sn = ''http://127.0.0.1'' @ spNetworkListenAddr spec"
    and "nLaunch (snPipeline sn) = Suc (length (launches w))"
proof -
  let ?nname = "spName spec @ ''-network''"
  let ?pname = "spName spec @ ''-pipeline''"
  obtain u1 w1 n w2 u2 w3 p w4 m w5 u3 where s:
    "with_disk (\<lambda>ft um. on_disk (writeApplicationConf ft um (path_segs (spNetworkDir spec)) (spNetworkConfig spec))
        (\<lambda>e. Fatalf ''separated node %s: network config: %v'' [spName spec, e])) w = (Inr u1, w1)"
    "runNodeProcess ?nname (spNetworkBin spec) (spNetworkDir spec)
        (''http://127.0.0.1'' @ spNetworkListenAddr spec) [] w1 = (Inr n, w2)"
    "await_node n w2 = (Inr u2, w3)"
    "with_disk (\<lambda>ft um. on_disk (writeConfigFile ft um (path_segs (spPipelineDir spec)) (spPipelineConfig spec))
        (\<lambda>e. Fatalf ''separated node %s: pipeline config: %v'' [spName spec, e])) w3 = (Inr p, w4)"
    "runNodeProcess ?pname (spPipelineBin spec) (spPipelineDir spec)
        (''http://127.0.0.1'' @ spPipelineListenAddr spec)
        [''CONFIG_FILE='' @ path_join [spPipelineDir spec, ''pipeline.conf'']] w4 = (Inr m, w5)"
    "await_node m w5 = (Inr u3, w')" "snBaseURL sn = nBaseURL n" "snPipeline sn = m"
    using assms unfolding StartSeparatedNode_def by (auto simp: andthen_eq_Inr_iff)
  obtain t1 where t1: "writeApplicationConf (diskFaults w) (umask w) (path_segs (spNetworkDir spec))
      (spNetworkConfig spec) (disk w) = (Inr u1, t1)" "w1 = w\<lparr>disk := t1\<rparr>"
    using on_disk_Inr [OF s(1)] by auto
  obtain t4 where t4: "writeConfigFile (diskFaults w3) (umask w3) (path_segs (spPipelineDir spec))
      (spPipelineConfig spec) (disk w3) = (Inr p, t4)" "w4 = w3\<lparr>disk := t4\<rparr>"
    using on_disk_Inr [OF s(4)] by auto
  note r = runNodeProcess_Inr [OF s(2)] await_node_Inr [OF s(3)] runNodeProcess_Inr [OF s(5)] await_node_Inr [OF s(6)]
  show "launches w' = launches w @
      [(?nname, spNetworkBin spec, spNetworkDir spec, []),
       (?pname, spPipelineBin spec, spPipelineDir spec, [''CONFIG_FILE='' @ path_join [spPipelineDir spec, ''pipeline.conf'']])]"
    "events w' = events w @ [Started ?nname (length (launches w)), Ready ?nname (length (launches w)),
       Started ?pname (Suc (length (launches w))), Ready ?pname (Suc (length (launches w)))]"
    "snBaseURL sn = ''http://127.0.0.1'' @ spNetworkListenAddr spec"
    "nLaunch (snPipeline sn) = Suc (length (launches w))"
    using r t1(2) t4(2) s(7,8) by simp_all
  have "disk w3 = t1" "disk w' = t4" using r t1(2) t4(2) by simp_all
  then show "read_file (disk w') = (read_file (disk w))
        (path_segs (spNetworkDir spec) @ [''config'', ''application.conf''] \<mapsto> spNetworkConfig spec,
         path_segs (spPipelineDir spec) @ [''pipeline.conf''] \<mapsto> spPipelineConfig spec)"
    using writeApplicationConf_ok [OF t1(1)] writeConfigFile_ok [OF t4(1)] by simp
qed

text \<open>C33: A separated node that has started was launched network first, each process in its
  own directory, the pipeline with its configuration file in the environment; both were found
  ready; and the two rendered configurations are on disk where the processes read them.\<close>

theorem separated_boot:
  assumes "StartSeparatedNode spec w = (Inr sn, w')"
  shows "launches w' = launches w @
      [(spName spec @ ''-network'', spNetworkBin spec, spNetworkDir spec, []),
       (spName spec @ ''-pipeline'', spPipelineBin spec, spPipelineDir spec,
        [''CONFIG_FILE='' @ path_join [spPipelineDir spec, ''pipeline.conf'']])]
    \<and> events w' = events w @
        [Started (spName spec @ ''-network'') (length (launches w)), Ready (spName spec @ ''-network'') (length (launches w)),
         Started (spName spec @ ''-pipeline'') (Suc (length (launches w))),
         Ready (spName spec @ ''-pipeline'') (Suc (length (launches w)))]
    \<and> read_file (disk w') (path_segs (spNetworkDir spec) @ [''config'', ''application.conf''])
        = Some (spNetworkConfig spec)
    \<and> read_file (disk w') (path_segs (spPipelineDir spec) @ [''pipeline.conf'']) = Some (spPipelineConfig spec)
    \<and> snBaseURL sn = ''http://127.0.0.1'' @ spNetworkListenAddr spec"
  using StartSeparatedNode_ok(1-4) [OF assms] conf_paths_differ by simp

section \<open>A concrete host\<close>

text \<open>Every process answers the first look, nothing fails.\<close>

definition ready_world :: "boot_look world" where
  "ready_world = \<lparr>clock = 0, looks = 0,
     script = (\<lambda>_. (\<lparr>Exited = False, BootReply = Reply 200 (Some []), BootStderr = [], BootStdout = []\<rparr>, 3)),
     oversleep = (\<lambda>_. 0), stuck = (\<lambda>_. False)\<rparr>"

lemma steady_ready [simp]: "steady ready_world = ready_world" "boot_looks ready_world = ready_world"
  by (simp_all add: steady_id boot_looks_id ready_world_def)

lemma waitHealthy_ready: "waitHealthy name url ready_world = Some (Inr (), look ready_world)"
  unfolding waitHealthy_def
  by (subst steady_ready, subst poll.simps) (simp add: ready_world_def seen_def boot_check_def is_200_def)

definition stub_up :: "(http_reply \<times> string) world" where
  "stub_up = \<lparr>clock = 0, looks = 0, script = (\<lambda>_. ((Reply 200 None, []), 1)), oversleep = (\<lambda>_. 0), stuck = (\<lambda>_. False)\<rparr>"

definition subs_up :: "string list option world" where
  "subs_up = \<lparr>clock = 0, looks = 0, script = (\<lambda>_. (Some [''raw''], 1)), oversleep = (\<lambda>_. 0), stuck = (\<lambda>_. False)\<rparr>"

lemma steady_up [simp]: "steady stub_up = stub_up" "steady subs_up = subs_up"
  by (simp_all add: steady_id stub_up_def subs_up_def)

definition demo_host :: "(string, string) host" where
  "demo_host = \<lparr>events = [], cleanups = [], build = fresh_build, portGiven = (\<lambda>k. Inr (40000 + k)),
     portsDrawn = 0, stubWorld = stub_up,
     broker = empty_NATS (\<lambda>_. None), registry = demo_registry, disk = Dir 0x1ED [],
     diskFaults = \<lparr>mkdirFault = None, writeFault = None\<rparr>, umask = 0x12, bootWorld = (\<lambda>_. ready_world),
     subsWorld = (\<lambda>_. subs_up),
     waited = 0, startErr = (\<lambda>_. None), launches = [],
     streams = (\<lambda>_. ([], []))\<rparr>"

definition demo_pair :: SeparatedNodeSpec where
  "demo_pair = \<lparr>spName = ''acme'', spNetworkBin = ''/b/net'', spNetworkListenAddr = '':1'', spNetworkDir = ''/w/n'',
     spNetworkConfig = ''N'', spPipelineBin = ''/b/pipe'', spPipelineListenAddr = '':2'', spPipelineDir = ''/w/p'',
     spPipelineConfig = ''P''\<rparr>"

definition demo_out :: "(string, string, string, string, string, string) outside" where
  "demo_out = \<lparr>natsLib = demo_lib, identityLib = demo_identity, printable = (\<lambda>_. True), root = Inr ''/r'',
     arg0 = ''/t/simple.test'', mkdirTmp = None, goBuild = (\<lambda>_ _. None), workDir = ''/w'', ownerDir = ''/o'',
     operatorKey = Inr ''OP'', accountKeys = Inr (''S'', ''A''), clientURL = ''nats://127.0.0.1:4222''\<rparr>"

definition demo_spec :: SingleNodeSpec where
  "demo_spec = \<lparr>Account = ''acme'', specRegistryID = ''r1'', specNodeDID = ''did:o'', PipelineDIDs = [''did:p''],
     ProcessDIDs = [''did:q''], Loops = (\<lambda>b. ''loop '' @ b), Tunables = [], ChainTunables = [],
     IngressSubjects = [''raw'']\<rparr>"

lemma unlisted_node_did_witness:
  "isl (fst (startSingleNodeProcess demo_out demo_spec demo_host))
    \<and> launches (snd (startSingleNodeProcess demo_out demo_spec demo_host)) = launches demo_host"
  by (rule unlisted_node_did) (simp add: demo_spec_def)

lemma separated_boot_witness:
  "map fst (launches (snd (StartSeparatedNode demo_pair demo_host))) = [''acme-network'', ''acme-pipeline'']
   \<and> read_file (disk (snd (StartSeparatedNode demo_pair demo_host))) [''w'', ''n'', ''config'', ''application.conf''] = Some ''N''
   \<and> read_file (disk (snd (StartSeparatedNode demo_pair demo_host))) [''w'', ''p'', ''pipeline.conf''] = Some ''P''"
proof -
  have d: "path_segs ''/w/n'' = [''w'', ''n'']" "path_segs ''/w/p'' = [''w'', ''p'']" by (code_simp, code_simp)
  have "\<not> isl (fst (StartSeparatedNode demo_pair demo_host))"
    by (simp add: StartSeparatedNode_def andthen_def with_disk_def on_disk_def on_part_def d demo_pair_def demo_host_def
        writeApplicationConf_def writeConfigFile_def write_below_def runNodeProcess_def Let_def emit_def cleanup_def
        await_node_def wait_outcome_def waitHealthy_ready)
  then obtain sn where "StartSeparatedNode demo_pair demo_host = (Inr sn, snd (StartSeparatedNode demo_pair demo_host))"
    by (metis prod.collapse sum.collapse(2))
  from separated_boot [OF this] show ?thesis by (simp add: d demo_pair_def demo_host_def)
qed
end
