(* ===== verification/Compose_Env.thy ===== *)
theory Compose_Env
  imports Node_Env
begin

text \<open>
  The compose runtime of a single-node scenario: the docker commands of \<^verbatim>\<open>compose.go\<close> and
  \<^verbatim>\<open>startSingleNodeCompose\<close> of \<^verbatim>\<open>env.go\<close>, with the \<^verbatim>\<open>RestartNode\<close> and
  \<^verbatim>\<open>StopNode\<close> it returns.  What docker answers, what it publishes and what the containers
  serve is the world's; the commands are kept in the order they are given.
\<close>

section \<open>The host and docker\<close>

text \<open>
  \<open>commands\<close> are the arguments and the added environment of every docker command that acts
  on the stack (the queries of \<^verbatim>\<open>Port\<close> are in its own model); \<open>atEnd\<close> those the cleanups
  will give.  \<open>stack\<close> are the starts and stops of services that the commands amount to, and
  the services found healthy.  \<open>upServices\<close> are the services \<^verbatim>\<open>up -d\<close> starts: those of
  the scenario's compose file, or, when the command fails, those it got to.
\<close>

type_synonym docker = "string list \<times> string list"

record 'o compose_host =
  prov :: "'o ComposeProvision"
  cRegistry :: registry_world
  testdata :: tree
  keysTree :: "tree option" \<comment> \<open>what the key store left under the pipeline's \<^verbatim>\<open>data/keys\<close>\<close>
  keyChmodErr :: "string \<Rightarrow> string option"
  keyReaddirErr :: "string \<Rightarrow> string option"
  removeErr :: "string option"
  cDiskFaults :: disk_faults
  cUmask :: nat
  dockerErr :: "nat \<Rightarrow> (string \<times> string) option" \<comment> \<open>error and output of the \<open>k\<close>-th command, if it fails\<close>
  dockerOut :: "nat \<Rightarrow> string" \<comment> \<open>its output, if it does not\<close>
  commands :: "docker list"
  atEnd :: "docker list"
  upServices :: "string list"
  stack :: "event list"
  portWorld :: "nat \<Rightarrow> port_look world"
  httpWorld :: "nat \<Rightarrow> http_reply world"
  cWaited :: nat
  seedErr :: "string option"

record Compose =
  Project :: string
  cFile :: string
  cDir :: string

definition compose_args :: "Compose \<Rightarrow> string list \<Rightarrow> string list" where
  "compose_args c rest = [''compose'', ''-p'', Project c, ''-f'', cFile c] @ rest"

text \<open>One docker command: its error and output, if it fails.\<close>

definition docker :: "Compose \<Rightarrow> string list \<Rightarrow> string list \<Rightarrow> ('o compose_host, (string \<times> string) option) prog" where
  "docker c rest env = (\<lambda>w.
     (Inr (dockerErr w (length (commands w))), w\<lparr>commands := commands w @ [(compose_args c rest, env)]\<rparr>))"

definition act :: "event list \<Rightarrow> ('o compose_host, unit) prog" where
  "act es = (\<lambda>w. (Inr (), w\<lparr>stack := stack w @ es\<rparr>))"

text \<open>A service's container is started and stopped in place: its process has number 0.\<close>

abbreviation up_event :: "string \<Rightarrow> event" where "up_event s \<equiv> Started s 0"
abbreviation down_event :: "string \<Rightarrow> event" where "down_event s \<equiv> Stopped s 0"
abbreviation ready_event :: "string \<Rightarrow> event" where "ready_event s \<equiv> Ready s 0"

definition down_args :: "string list" where
  "down_args = [''down'', ''-v'', ''--remove-orphans'']"

text \<open>\<open>hexsum\<close> is the hex text of the first four bytes of the SHA-256 of a directory's name.\<close>

definition compose_of :: "(string \<Rightarrow> string) \<Rightarrow> string \<Rightarrow> Compose" where
  "compose_of hexsum scenarioDir =
     \<lparr>Project = ''e2e-'' @ path_base scenarioDir @ ''-'' @ hexsum scenarioDir,
      cFile = path_join [scenarioDir, ''docker-compose.yml''], cDir = scenarioDir\<rparr>"

definition int_str :: "int \<Rightarrow> string" where
  "int_str i = (if i < 0 then CHR ''-'' # nat_str (nat (- i)) else nat_str (nat i))"

definition up_env :: "int \<Rightarrow> int \<Rightarrow> string list" where
  "up_env uid gid =
     (if uid \<ge> 0 then [''E2E_UID='' @ int_str uid, ''E2E_GID='' @ int_str gid] else [])"

definition ComposeUp ::
  "(string \<Rightarrow> string) \<Rightarrow> int \<Rightarrow> int \<Rightarrow> string \<Rightarrow> ('o compose_host, Compose) prog" where
  "ComposeUp hexsum uid gid scenarioDir =
     (let c = compose_of hexsum scenarioDir in
      andthen (docker c down_args []) (\<lambda>_.
      andthen (\<lambda>w. (Inr (), w\<lparr>atEnd := (compose_args c down_args, []) # atEnd w\<rparr>)) (\<lambda>_.
      andthen (docker c [''up'', ''-d''] (up_env uid gid)) (\<lambda>r.
      andthen (\<lambda>w. act (map up_event (upServices w)) w) (\<lambda>_.
      (case r of
         None \<Rightarrow> ret c
       | Some (err, out) \<Rightarrow>
           andthen (\<lambda>w. (Inr (dockerOut w (length (commands w))), w)) (\<lambda>containerOut.
           andthen (docker c [''logs'', ''--no-color'', ''--tail'', ''50''] []) (\<lambda>logs.
           abort (Fatalf ''compose up: %v\<newline>--- compose output ---\<newline>%s\<newline>--- container logs ---\<newline>%s''
             [err, out, (case logs of None \<Rightarrow> containerOut
                         | Some (e, _) \<Rightarrow> ''(could not read container logs: '' @ e @ '')'')])))))))))"

definition service_command ::
  "string \<Rightarrow> Compose \<Rightarrow> string \<Rightarrow> event list \<Rightarrow> ('o compose_host, unit) prog" where
  "service_command verb c service es =
     andthen (docker c [verb, service] []) (\<lambda>r.
     (case r of
        Some (err, out) \<Rightarrow> abort (Fatalf (''compose '' @ verb @ '' %s: %v\<newline>%s'') [service, err, out])
      | None \<Rightarrow> act es))"

definition RestartService :: "Compose \<Rightarrow> string \<Rightarrow> ('o compose_host, unit) prog" where
  "RestartService c service = service_command ''restart'' c service [down_event service, up_event service]"

definition StopService :: "Compose \<Rightarrow> string \<Rightarrow> ('o compose_host, unit) prog" where
  "StopService c service = service_command ''stop'' c service [down_event service]"

definition StartService :: "Compose \<Rightarrow> string \<Rightarrow> ('o compose_host, unit) prog" where
  "StartService c service = service_command ''start'' c service [up_event service]"

text \<open>\<^verbatim>\<open>Compose.Logs\<close>, for the sink lines of the environment.\<close>

definition Logs :: "Compose \<Rightarrow> string \<Rightarrow> ('o compose_host, string) prog" where
  "Logs c service =
     andthen (\<lambda>w. (Inr (dockerOut w (length (commands w))), w)) (\<lambda>out.
     andthen (docker c [''logs'', ''--no-color'', ''--no-log-prefix'', service] []) (\<lambda>r.
     (case r of
        Some (err, o1) \<Rightarrow> abort (Fatalf ''compose logs %s: %v\<newline>%s'' [service, err, o1])
      | None \<Rightarrow> ret out)))"

definition service_port :: "string \<Rightarrow> nat \<Rightarrow> ('o compose_host, string) prog" where
  "service_port service p = (\<lambda>w.
     (wait_outcome (Port service p (steady (portWorld w (cWaited w)))), w\<lparr>cWaited := Suc (cWaited w)\<rparr>))"

definition wait_http :: "string \<Rightarrow> string \<Rightarrow> ('o compose_host, unit) prog" where
  "wait_http name url =
     andthen (\<lambda>w. (wait_outcome (WaitHTTPHealthy name url 60000 (steady (httpWorld w (cWaited w)))),
                   w\<lparr>cWaited := Suc (cWaited w)\<rparr>)) (\<lambda>_.
     act [ready_event name])"

definition wait_subscribers :: "string \<Rightarrow> string list \<Rightarrow> ('o compose_host, unit) prog" where
  "wait_subscribers natsMon subjects =
     andthen (for_each subjects (\<lambda>subj w.
       (wait_outcome (WaitForSubscriberHTTP (''http://'' @ natsMon) subj 60000 (steady (httpWorld w (cWaited w)))),
        w\<lparr>cWaited := Suc (cWaited w)\<rparr>))) (\<lambda>_. ret ())"

definition SinkLines :: "Compose \<Rightarrow> string \<Rightarrow> ('o compose_host, string list) prog" where
  "SinkLines c service = andthen (Logs c service) (\<lambda>out. ret (Compose_SinkLines out))"

section \<open>The environment of a scenario\<close>

record ('o, 'c, 'm, 'v, 'p, 'd) compose_outside =
  cNatsLib :: "('o, 'c) natsop"
  cIdentityLib :: "('m, 'v, 'p, 'd) identity_lib"
  cPrintable :: "nat \<Rightarrow> bool"
  cwd :: "string + string"
  cOwnerDir :: string
  cOperatorKey :: "string + string"
  cOperatorJWT :: "string + string"
  cAccountKeys :: "string + string \<times> string"
  hexSum :: "string \<Rightarrow> string"
  userId :: int
  groupId :: int

definition compose_config :: "SingleNodeSpec \<Rightarrow> SeparatedConfig" where
  "compose_config spec =
     (let networkSelfBase = ''http://'' @ Account spec @ ''-network:8443'' in
      \<lparr>sNetworkListenAddr = '':8443'', sPipelineListenAddr = '':8443'',
       sRegistryID = specRegistryID spec, sPDPBaseURL = ''http://pdpstub:9091'',
       sNATSURL = ''nats://nats:4222'', sAccountSeedFile = ''/app/secrets/'' @ Account spec @ ''-account.seed'',
       sTrustSeedFile = ''/app/secrets/operator.seed'', sResolverDir = ''/app/jwts'',
       sNodeDID = specNodeDID spec, sResolverBaseURL = networkSelfBase, sRegistryBaseURLs = Map.empty,
       sLoopsBlock = Loops spec networkSelfBase, sTunables = Tunables spec,
       sChainExtra = ChainTunables spec, sAllowLoopback = False, sAllowPrivateNetworks = True\<rparr>)"

text \<open>\<^verbatim>\<open>os.RemoveAll(testdata)\<close>: nothing an earlier run provisioned is left.\<close>

definition remove_testdata :: "('o compose_host, unit) prog" where
  "remove_testdata = (\<lambda>w.
     case removeErr w of
       Some e \<Rightarrow> (Inl (Fatalf ''%v'' [e]), w)
     | None \<Rightarrow>
         (Inr (), w\<lparr>testdata := Dir 0x1ED [],
            prov := (prov w)\<lparr>accounts := Map.empty, ops := Map.empty, jwts := [], seeds := [],
                             brokerConfigWritten := False, brokerConf := None, jwtTree := None\<rparr>\<rparr>))"

abbreviation on_prov where "on_prov \<equiv> on_part prov (\<lambda>v. prov_update (\<lambda>_. v))"
abbreviation on_cRegistry where "on_cRegistry \<equiv> on_part cRegistry (\<lambda>v. cRegistry_update (\<lambda>_. v))"
abbreviation on_testdata where "on_testdata \<equiv> on_part testdata (\<lambda>v. testdata_update (\<lambda>_. v))"

definition open_keys :: "string \<Rightarrow> ('o compose_host, unit) prog" where
  "open_keys dir = (\<lambda>w.
     on_part keysTree (\<lambda>v. keysTree_update (\<lambda>_. v)) (MakeContainerReadable (keyChmodErr w) (keyReaddirErr w) dir) w)"

definition write_conf :: "string \<Rightarrow> string \<Rightarrow> ('o compose_host, unit) prog" where
  "write_conf node cfg = (\<lambda>w. on_testdata (WriteNodeConfig (cDiskFaults w) (cUmask w) node cfg) w)"

definition read_seed :: "string \<Rightarrow> ('o compose_host, string) prog" where
  "read_seed file = (\<lambda>w.
     case seedErr w of
       Some e \<Rightarrow> (Inl (Fatalf ''%v'' [e]), w)
     | None \<Rightarrow>
         (case map_of (seeds (prov w)) file of
            None \<Rightarrow> (Inl (Fatalf ''%v'' [''open '' @ file @ '': no such file or directory'']), w)
          | Some (s, _) \<Rightarrow> (Inr s, w)))"

text \<open>\<open>prepare_stack\<close> is the part before the first docker command, \<open>boot_stack\<close> the rest.\<close>

definition prepare_stack ::
  "('o, 'c, 'm, 'v, 'p, 'd) compose_outside \<Rightarrow> SingleNodeSpec \<Rightarrow> string \<Rightarrow>
     ('o compose_host, string \<rightharpoonup> ExternalKeys) prog" where
  "prepare_stack out spec scenarioDir =
     (let td = path_join [scenarioDir, ''testdata''];
          networkService = Account spec @ ''-network'';
          pipelineService = Account spec @ ''-pipeline'';
          pipelineDataDir = path_join [path_join [td, pipelineService], ''data''] in
      andthen remove_testdata (\<lambda>_.
      andthen (on_prov (ProvisionCompose (cNatsLib out) td (cOperatorKey out) (cOperatorJWT out)
                          [(Account spec, cAccountKeys out)])) (\<lambda>_.
      andthen (on_prov (WriteBrokerConfig (cPrintable out) td [Account spec])) (\<lambda>_.
      andthen (on_cRegistry (provision_all pipelineDataDir (PipelineDIDs spec @ ProcessDIDs spec) Map.empty)) (\<lambda>extKeys.
      andthen (check_node_did (node_did_text @ identity_text) spec extKeys) (\<lambda>_.
      andthen (open_keys (path_join [pipelineDataDir, ''keys''])) (\<lambda>_.
      let (networkCfg, pipelineCfg) = SplitNodeConfig (cPrintable out) [] [] (compose_config spec) in
      andthen (write_conf networkService networkCfg) (\<lambda>_.
      andthen (write_conf pipelineService pipelineCfg) (\<lambda>_.
      ret extKeys)))))))))"

record compose_env =
  ceNodeBase :: string
  cePipelineBase :: string
  ceNATSURL :: string
  ceAcctSeed :: string
  ceCompose :: Compose
  ceNatsMon :: string
  ceNetwork :: string
  cePipeline :: string
  ceSubjects :: "string list"

definition boot_stack ::
  "('o, 'c, 'm, 'v, 'p, 'd) compose_outside \<Rightarrow> SingleNodeSpec \<Rightarrow> string \<Rightarrow> (string \<rightharpoonup> ExternalKeys) \<Rightarrow>
     ('o compose_host, compose_env) prog" where
  "boot_stack out spec scenarioDir extKeys =
     (let networkService = Account spec @ ''-network''; pipelineService = Account spec @ ''-pipeline'' in
      andthen (ComposeUp (hexSum out) (userId out) (groupId out) scenarioDir) (\<lambda>c.
      andthen (service_port ''nats'' 8222) (\<lambda>natsMon.
      andthen (wait_http ''nats'' (''http://'' @ natsMon @ ''/healthz'')) (\<lambda>_.
      andthen (service_port networkService 8443) (\<lambda>networkPort.
      andthen (wait_http networkService (''http://'' @ networkPort @ ''/readyz'')) (\<lambda>_.
      andthen (service_port pipelineService 8443) (\<lambda>pipelinePort.
      andthen (wait_http pipelineService (''http://'' @ pipelinePort @ ''/readyz'')) (\<lambda>_.
      andthen (wait_subscribers natsMon (IngressSubjects spec)) (\<lambda>_.
      andthen (on_cRegistry (NewOwner (cOwnerDir out) (ownerDIDFor spec))) (\<lambda>owner.
      andthen (on_cRegistry (BootstrapExternal (cIdentityLib out) (''http://'' @ networkPort) owner
                 (PipelineDIDs spec) (ProcessDIDs spec) extKeys)) (\<lambda>_.
      andthen (read_seed (Account spec @ ''-account.seed'')) (\<lambda>seed.
      andthen (service_port ''nats'' 4222) (\<lambda>natsPort.
      ret \<lparr>ceNodeBase = ''http://'' @ networkPort, cePipelineBase = ''http://'' @ pipelinePort,
           ceNATSURL = ''nats://'' @ natsPort, ceAcctSeed = trim_space seed, ceCompose = c,
           ceNatsMon = natsMon, ceNetwork = networkService, cePipeline = pipelineService,
           ceSubjects = IngressSubjects spec\<rparr>)))))))))))))"

definition startSingleNodeCompose ::
  "('o, 'c, 'm, 'v, 'p, 'd) compose_outside \<Rightarrow> SingleNodeSpec \<Rightarrow> ('o compose_host, compose_env) prog" where
  "startSingleNodeCompose out spec =
     (case cwd out of
        Inl e \<Rightarrow> abort (Fatalf ''%v'' [e])
      | Inr scenarioDir \<Rightarrow>
          andthen (prepare_stack out spec scenarioDir) (boot_stack out spec scenarioDir))"

definition restart_service :: "Compose \<Rightarrow> string \<Rightarrow> ('o compose_host, string) prog" where
  "restart_service c service =
     andthen (RestartService c service) (\<lambda>_.
     andthen (service_port service 8443) (\<lambda>p.
     andthen (wait_http service (''http://'' @ p @ ''/readyz'')) (\<lambda>_.
     ret (''http://'' @ p))))"

fun compose_run :: "compose_env \<Rightarrow> env_call \<Rightarrow> ('o compose_host, string) prog" where
  "compose_run env RestartNode =
     andthen (restart_service (ceCompose env) (ceNetwork env)) (\<lambda>newNetworkBase.
     andthen (restart_service (ceCompose env) (cePipeline env)) (\<lambda>_.
     andthen (wait_subscribers (ceNatsMon env) (ceSubjects env)) (\<lambda>_.
     ret newNetworkBase)))"
| "compose_run env StopNode =
     andthen (StopService (ceCompose env) (cePipeline env)) (\<lambda>_.
     andthen (StopService (ceCompose env) (ceNetwork env)) (\<lambda>_.
     ret []))"
| "compose_run env ReadSinks = andthen (SinkLines (ceCompose env) (cePipeline env)) (\<lambda>_. ret [])"

definition compose_test ::
  "('o, 'c, 'm, 'v, 'p, 'd) compose_outside \<Rightarrow> SingleNodeSpec \<Rightarrow> env_call list \<Rightarrow> ('o compose_host, unit) prog" where
  "compose_test out spec todo =
     andthen (startSingleNodeCompose out spec) (\<lambda>env.
     andthen (for_each todo (compose_run env)) (\<lambda>_. ret ()))"

definition docker_log :: "'o compose_host \<Rightarrow> docker list" where
  "docker_log w = commands w @ atEnd w"

section \<open>The stack is torn down\<close>

text \<open>
  The log of a test that got as far as docker: the stack of a killed run is reclaimed, this
  one is brought up, only commands on services of this very project follow, and the last
  command takes the stack down.
\<close>

definition service_verbs :: "string list" where
  "service_verbs = [''restart'', ''stop'', ''start'', ''logs'']"

definition tame :: "Compose \<Rightarrow> docker \<Rightarrow> bool" where
  "tame c d \<longleftrightarrow> (case drop 5 (fst d) of [] \<Rightarrow> False
     | v # rest \<Rightarrow> v \<in> set service_verbs \<and> fst d = compose_args c (v # rest)) \<and> snd d = []"

definition torn_down :: "Compose \<Rightarrow> docker list \<Rightarrow> bool" where
  "torn_down c log \<longleftrightarrow>
     (case log of
        d # u # rest \<Rightarrow> d = (compose_args c down_args, []) \<and> fst u = compose_args c [''up'', ''-d'']
          \<and> rest \<noteq> [] \<and> last rest = (compose_args c down_args, []) \<and> list_all (tame c) (butlast rest)
      | _ \<Rightarrow> False)"

definition ends :: "'o compose_host \<Rightarrow> docker list \<times> docker list" where
  "ends w = (commands w, atEnd w)"

definition idle :: "'o compose_host \<Rightarrow> bool" where
  "idle w \<longleftrightarrow> ends w = ([], [])"

definition is_up :: "Compose \<Rightarrow> 'o compose_host \<Rightarrow> bool" where
  "is_up c w \<longleftrightarrow> torn_down c (docker_log w) \<and> atEnd w = [(compose_args c down_args, [])]"

lemma is_up_docker:
  assumes "is_up c w" and "tame c d"
  shows "is_up c (w\<lparr>commands := commands w @ [d]\<rparr>)"
  using assms
  by (cases "commands w"; cases "tl (commands w)")
     (auto simp: is_up_def torn_down_def docker_log_def butlast_append)

lemma is_up_cong: "ends v = ends w \<Longrightarrow> is_up c v = is_up c w"
  by (simp add: ends_def is_up_def docker_log_def)

definition runs_up :: "Compose \<Rightarrow> ('o compose_host, 'a) prog \<Rightarrow> bool" where
  "runs_up c m \<longleftrightarrow> triple (is_up c) m (\<lambda>_. is_up c) (\<lambda>_. is_up c)"

named_theorems up_rules "programs that leave a running stack to its cleanup"

lemma runs_up_keeps: "keeps ends m \<Longrightarrow> runs_up c m"
proof -
  assume k: "keeps ends m"
  have "is_up c w' = is_up c w" if "m w = (r, w')" for w r w'
    by (rule is_up_cong) (rule keepsD [OF k that])
  then show ?thesis unfolding runs_up_def triple_def by (auto split: prod.split sum.split)
qed

lemma runs_up_andthen [up_rules]:
  "runs_up c m \<Longrightarrow> (\<And>x. runs_up c (f x)) \<Longrightarrow> runs_up c (andthen m f)"
  unfolding runs_up_def by (rule triple_andthen)

lemma runs_up_ret [up_rules]: "runs_up c (ret x)" "runs_up c (abort e)"
  by (simp_all add: runs_up_def triple_def)

lemma runs_up_for_each [up_rules]: "(\<And>x. runs_up c (f x)) \<Longrightarrow> runs_up c (for_each xs f)"
  unfolding runs_up_def by (rule triple_for_each)

lemma runs_up_docker: "v \<in> set service_verbs \<Longrightarrow> runs_up c (docker c (v # rest) [])"
proof -
  assume "v \<in> set service_verbs"
  then have "tame c (compose_args c (v # rest), [])" by (simp add: tame_def compose_args_def)
  then show ?thesis unfolding runs_up_def triple_def docker_def by (simp add: is_up_docker)
qed

lemma runs_up_quiet [up_rules]:
  "runs_up c (act es)" "runs_up c (service_port s p)" "runs_up c (wait_http s u)" "runs_up c (read_seed n)"
  by (rule runs_up_keeps; auto simp: keeps_def ends_def act_def service_port_def wait_http_def andthen_def
        read_seed_def split: option.split sum.split)+

lemma runs_up_waits [up_rules]: "runs_up c (wait_subscribers m subjects)"
  unfolding wait_subscribers_def
  by (intro up_rules) (rule runs_up_keeps, simp add: keeps_def ends_def)

lemma runs_up_registry [up_rules]: "runs_up c (on_cRegistry m)"
  by (rule runs_up_keeps, rule keeps_on_part) (simp add: ends_def)

lemma runs_up_service [up_rules]:
  "verb \<in> set service_verbs \<Longrightarrow> runs_up c (service_command verb c s es)"
  unfolding service_command_def
  by (auto intro!: runs_up_andthen runs_up_docker split: option.split intro: up_rules)

lemma runs_up_commands [up_rules]:
  "runs_up c (RestartService c s)" "runs_up c (StopService c s)" "runs_up c (StartService c s)"
  unfolding RestartService_def StopService_def StartService_def
  by (simp_all add: runs_up_service service_verbs_def)

lemma runs_up_Logs [up_rules]: "runs_up c (Logs c s)" "runs_up c (SinkLines c s)"
proof -
  show l: "runs_up c (Logs c s)"
    unfolding Logs_def
    by (rule runs_up_andthen, rule runs_up_keeps, simp add: keeps_def)
       (auto intro!: runs_up_andthen runs_up_docker up_rules split: option.split simp: service_verbs_def)
  show "runs_up c (SinkLines c s)" unfolding SinkLines_def by (intro up_rules l)
qed

lemma runs_up_env: "ceCompose env = c \<Longrightarrow> runs_up c (compose_run env call)"
  by (cases call) (auto simp: restart_service_def intro!: up_rules)

lemma up_first:
  assumes "idle w"
  shows "is_up c (w\<lparr>commands := [(compose_args c down_args, []), (compose_args c [''up'', ''-d''], env)],
    atEnd := [(compose_args c down_args, [])]\<rparr>)"
  by (simp add: is_up_def torn_down_def docker_log_def)

lemma ComposeUp_triple:
  "triple idle (ComposeUp hexsum uid gid dir)
     (\<lambda>c w. c = compose_of hexsum dir \<and> is_up c w) (\<lambda>_. is_up (compose_of hexsum dir))"
proof -
  let ?c = "compose_of hexsum dir"
  let ?rest = "\<lambda>r. case r of None \<Rightarrow> ret ?c | Some (err, out) \<Rightarrow>
           andthen (\<lambda>w. (Inr (dockerOut w (length (commands w))), w)) (\<lambda>containerOut.
           andthen (docker ?c [''logs'', ''--no-color'', ''--tail'', ''50''] []) (\<lambda>logs.
           abort (Fatalf ''compose up: %v\<newline>--- compose output ---\<newline>%s\<newline>--- container logs ---\<newline>%s''
             [err, out, (case logs of None \<Rightarrow> containerOut
                         | Some (e, _) \<Rightarrow> ''(could not read container logs: '' @ e @ '')'')])))"
  let ?up = "andthen (docker ?c down_args []) (\<lambda>_.
      andthen (\<lambda>w. (Inr (), w\<lparr>atEnd := (compose_args ?c down_args, []) # atEnd w\<rparr>)) (\<lambda>_.
      andthen (docker ?c [''up'', ''-d''] (up_env uid gid)) (\<lambda>r.
      andthen (\<lambda>w. act (map up_event (upServices w)) w) (\<lambda>_. ret r))))"
  have eq: "ComposeUp hexsum uid gid dir = andthen ?up ?rest"
    unfolding ComposeUp_def Let_def andthen_assoc andthen_ret ..
  have up: "triple idle ?up (\<lambda>_. is_up ?c) (\<lambda>_. is_up ?c)"
    by (auto simp: act_def triple_def docker_def andthen_def idle_def ends_def is_up_def torn_down_def docker_log_def)
  have rest: "triple (is_up ?c) (?rest r) (\<lambda>c w. c = ?c \<and> is_up c w) (\<lambda>_. is_up ?c)" for r
  proof (cases r)
    case (Some eo)
    have "runs_up ?c (docker ?c [''logs'', ''--no-color'', ''--tail'', ''50''] [])"
      by (rule runs_up_docker) (simp add: service_verbs_def)
    then show ?thesis
      using Some unfolding runs_up_def triple_def
      by (cases eo) (fastforce simp: andthen_def split: prod.splits sum.splits)
  qed (simp add: triple_def)
  show ?thesis unfolding eq by (rule triple_andthen [OF up rest])
qed

lemma ends_updates [simp]:
  "ends (w\<lparr>prov := a\<rparr>) = ends w" "ends (w\<lparr>cRegistry := b\<rparr>) = ends w" "ends (w\<lparr>testdata := t\<rparr>) = ends w"
  "ends (w\<lparr>keysTree := k\<rparr>) = ends w"
  by (simp_all add: ends_def)

lemma prepare_stack_keeps: "keeps ends (prepare_stack out spec dir)"
proof -
  have k: "keeps ends (open_keys d)" "keeps ends (write_conf n cfg)" "keeps ends remove_testdata" for d n cfg
    by (simp_all add: keeps_def open_keys_def write_conf_def on_part_def remove_testdata_def ends_def
        split: prod.split option.split)
  show ?thesis
    unfolding prepare_stack_def Let_def
    by (auto intro!: keeps_andthen keeps_on_part k check_node_did_keeps keeps_ret split: prod.split)
qed

lemma runs_up_then:
  "runs_up c m \<Longrightarrow> (\<And>x. triple (is_up c) (f x) Q (\<lambda>_. is_up c)) \<Longrightarrow>
     triple (is_up c) (andthen m f) Q (\<lambda>_. is_up c)"
  unfolding runs_up_def by (rule triple_andthen)

lemma boot_stack_triple:
  "triple idle (boot_stack out spec dir keys)
     (\<lambda>env w. ceCompose env = compose_of (hexSum out) dir \<and> is_up (compose_of (hexSum out) dir) w)
     (\<lambda>_. is_up (compose_of (hexSum out) dir))"
  unfolding boot_stack_def Let_def
proof (rule triple_andthen [OF ComposeUp_triple], goal_cases)
  case (1 c)
  let ?c = "compose_of (hexSum out) dir"
  show ?case
  proof (cases "c = ?c")
    case True
    show ?thesis
      unfolding True by simp ((rule runs_up_then, rule up_rules)+, rule triple_ret, simp)
  qed (simp add: triple_def)
qed

lemma compose_test_shape:
  assumes "idle w" and "compose_test out spec todo w = (r, w')"
  shows "idle w' \<or> (\<exists>dir. cwd out = Inr dir \<and> is_up (compose_of (hexSum out) dir) w')"
proof (cases "cwd out")
  case (Inl e)
  then show ?thesis using assms by (simp add: compose_test_def startSingleNodeCompose_def)
next
  case (Inr dir)
  let ?c = "compose_of (hexSum out) dir"
  obtain p w1 where 1: "prepare_stack out spec dir w = (p, w1)" by (cases "prepare_stack out spec dir w")
  have idle: "idle w1" using keepsD [OF prepare_stack_keeps 1] assms(1) by (simp add: idle_def)
  show ?thesis
  proof (cases p)
    case (Inl e)
    then show ?thesis using assms(2) Inr 1 idle
      by (simp add: compose_test_def startSingleNodeCompose_def andthen_def)
  next
    case keys: (Inr keys)
    have env: "runs_up ?c (andthen (for_each todo (compose_run env)) (\<lambda>_. ret ()))" if "ceCompose env = ?c" for env
      by (intro up_rules runs_up_env that)
    note boot = boot_stack_triple [of out spec dir keys]
    have "triple idle (andthen (boot_stack out spec dir keys) (\<lambda>env. andthen (for_each todo (compose_run env)) (\<lambda>_. ret ())))
        (\<lambda>_. is_up ?c) (\<lambda>_. is_up ?c)"
    proof (rule triple_andthen [OF boot])
      show "triple (\<lambda>w. ceCompose env = ?c \<and> is_up ?c w) (andthen (for_each todo (compose_run env)) (\<lambda>_. ret ()))
          (\<lambda>_. is_up ?c) (\<lambda>_. is_up ?c)" for env
        using env [of env] by (cases "ceCompose env = ?c") (simp_all add: runs_up_def triple_def del: for_each.simps)
    qed
    moreover have "compose_test out spec todo w =
        andthen (boot_stack out spec dir keys) (\<lambda>env. andthen (for_each todo (compose_run env)) (\<lambda>_. ret ())) w1"
      using Inr 1 keys by (simp add: compose_test_def startSingleNodeCompose_def andthen_assoc andthen_def)
    ultimately have "is_up ?c w'"
      using idle assms(2) unfolding triple_def by (cases r) (auto dest!: spec [of _ w1])
    then show ?thesis using Inr by blast
  qed
qed

definition fresh_docker :: "'o compose_host \<Rightarrow> 'o compose_host" where
  "fresh_docker w = w\<lparr>commands := [], atEnd := []\<rparr>"

text \<open>C34: A scenario on the compose runtime, however it ends, either never reached docker, or
  reclaimed its project's stack, brought it up, acted on services of that project only, and
  takes the stack down with its volumes as the last command.\<close>

theorem compose_torn_down:
  "docker_log (snd (compose_test out spec todo (fresh_docker w))) = []
   \<or> (\<exists>dir. cwd out = Inr dir
        \<and> torn_down (compose_of (hexSum out) dir) (docker_log (snd (compose_test out spec todo (fresh_docker w)))))"
proof -
  obtain r w' where r: "compose_test out spec todo (fresh_docker w) = (r, w')"
    by (cases "compose_test out spec todo (fresh_docker w)")
  have "idle (fresh_docker w)" by (simp add: idle_def ends_def fresh_docker_def)
  from compose_test_shape [OF this r] show ?thesis
    using r by (auto simp: idle_def ends_def docker_log_def is_up_def)
qed

lemma provision_missing:
  "d \<notin> set ds \<Longrightarrow> triple (\<lambda>_. True) (on_part part upd (provision_all dir ds Map.empty)) (\<lambda>keys _. keys d = None) (\<lambda>_ _. True)"
  by (auto simp: triple_def on_part_def split: prod.split sum.split dest: provision_all_ok)

lemma unlisted_stack:
  assumes "specNodeDID spec \<notin> set (PipelineDIDs spec @ ProcessDIDs spec)"
  shows "triple (\<lambda>_. True) (prepare_stack out spec dir) (\<lambda>_ _. False) (\<lambda>_ _. True)"
proof -
  have any: "triple (\<lambda>_. True) m (\<lambda>_ _. True) (\<lambda>_ _. True)" for m :: "('a compose_host, 'x) prog"
    by (auto simp: triple_def split: prod.split sum.split)
  show ?thesis
    unfolding prepare_stack_def Let_def
    apply (rule triple_andthen [OF any], rule triple_andthen [OF any], rule triple_andthen [OF any])
    apply (rule triple_andthen [OF provision_missing [OF assms]])
    apply (rule triple_andthen [where R = "\<lambda>_ _. False"])
     apply (simp add: triple_def check_node_did_def)
    apply (simp add: triple_def)
    done
qed

text \<open>C35: A node identity that is in neither list of DIDs ends the test on both runtimes before
  any process is launched and before any docker command.\<close>

theorem unlisted_node_did_ends:
  assumes "specNodeDID spec \<notin> set (PipelineDIDs spec @ ProcessDIDs spec)"
  shows "isl (fst (startSingleNodeProcess out spec w)) \<and> launches (snd (startSingleNodeProcess out spec w)) = launches w
    \<and> isl (fst (startSingleNodeCompose cout spec v)) \<and> commands (snd (startSingleNodeCompose cout spec v)) = commands v"
proof -
  have "isl (fst (startSingleNodeCompose cout spec v)) \<and> commands (snd (startSingleNodeCompose cout spec v)) = commands v"
  proof (cases "cwd cout")
    case (Inr dir)
    obtain p v1 where 1: "prepare_stack cout spec dir v = (p, v1)" by (cases "prepare_stack cout spec dir v")
    have "case prepare_stack cout spec dir v of (Inl e, w') \<Rightarrow> True | (Inr x, w') \<Rightarrow> False"
      using unlisted_stack [OF assms, of cout dir] unfolding triple_def by simp
    then obtain e where e: "p = Inl e" using 1 by (cases p) simp_all
    have "commands v1 = commands v" using keepsD [OF prepare_stack_keeps 1] by (simp add: ends_def)
    then show ?thesis using Inr 1 e by (simp add: startSingleNodeCompose_def andthen_def)
  qed (simp add: startSingleNodeCompose_def)
  then show ?thesis using unlisted_node_did [OF assms] by blast
qed

text \<open>What the parts of a boot and of a restart add to the stack.\<close>

lemma service_port_Inr:
  "service_port service p w = (Inr a, w') \<Longrightarrow>
     (\<exists>v. Port service p (steady (portWorld w (cWaited w))) = Some (Inr a, v)) \<and> w' = w\<lparr>cWaited := Suc (cWaited w)\<rparr>"
  by (auto simp: service_port_def wait_outcome_def split: option.splits)

lemma wait_http_Inr:
  "wait_http name url w = (Inr u, w') \<Longrightarrow>
     w' = w\<lparr>cWaited := Suc (cWaited w), stack := stack w @ [ready_event name]\<rparr>"
  by (auto simp: wait_http_def andthen_eq_Inr_iff act_def)

lemma service_command_Inr:
  "service_command verb c s es w = (Inr u, w') \<Longrightarrow>
     w' = w\<lparr>commands := commands w @ [(compose_args c [verb, s], [])], stack := stack w @ es\<rparr>"
  by (auto simp: service_command_def andthen_eq_Inr_iff docker_def act_def split: option.splits)

lemma restart_service_Inr:
  assumes "restart_service c s w = (Inr base, w')"
  shows "\<exists>a v. Port s 8443 (steady (portWorld w (cWaited w))) = Some (Inr a, v) \<and> base = ''http://'' @ a
    \<and> w' = w\<lparr>commands := commands w @ [(compose_args c [''restart'', s], [])],
              stack := stack w @ [down_event s, up_event s, ready_event s], cWaited := Suc (Suc (cWaited w))\<rparr>"
  using assms
  by (auto simp: restart_service_def RestartService_def andthen_eq_Inr_iff
      dest!: service_command_Inr service_port_Inr wait_http_Inr)

lemma wait_subscribers_keeps:
  "keeps stack (wait_subscribers m subjects)" "keeps commands (wait_subscribers m subjects)"
  unfolding wait_subscribers_def by (intro prog_rules; simp add: keeps_def)+

lemma compose_restart_steps:
  fixes w :: "'o compose_host"
  assumes "compose_run env RestartNode w = (Inr base, w')"
  shows "(\<exists>a v. Port (ceNetwork env) 8443 (steady (portWorld w (cWaited w))) = Some (Inr a, v) \<and> base = ''http://'' @ a)
    \<and> commands w' = commands w @ [(compose_args (ceCompose env) [''restart'', ceNetwork env], []),
                                  (compose_args (ceCompose env) [''restart'', cePipeline env], [])]
    \<and> stack w' = stack w @ [down_event (ceNetwork env), up_event (ceNetwork env), ready_event (ceNetwork env),
                            down_event (cePipeline env), up_event (cePipeline env), ready_event (cePipeline env)]"
proof -
  obtain b2 w1 w2 x where s: "restart_service (ceCompose env) (ceNetwork env) w = (Inr base, w1)"
    "restart_service (ceCompose env) (cePipeline env) w1 = (Inr b2, w2)"
    "wait_subscribers (ceNatsMon env) (ceSubjects env) w2 = (Inr x, w')"
    using assms by (auto simp: andthen_eq_Inr_iff)
  have e: "stack w' = stack w2" "commands w' = commands w2"
    using keepsD [OF wait_subscribers_keeps(1) s(3)] keepsD [OF wait_subscribers_keeps(2) s(3)] .
  from restart_service_Inr [OF s(1)] restart_service_Inr [OF s(2)] show ?thesis by (auto simp: e)
qed

lemma running_append_started: "n \<in> set ns \<Longrightarrow> running n (es @ map up_event ns)"
proof (induction ns rule: rev_induct)
  case (snoc m ns)
  then show ?case by (auto simp: running_def append_assoc [symmetric] simp del: append_assoc)
qed simp

text \<open>What no preparation of a stack touches.\<close>

definition docker_side :: "'o compose_host \<Rightarrow> event list \<times> string list \<times> (nat \<Rightarrow> port_look world)" where
  "docker_side w = (stack w, upServices w, portWorld w)"

lemma prepare_stack_docker: "keeps docker_side (prepare_stack out spec dir)"
proof -
  have k: "keeps docker_side (open_keys d)" "keeps docker_side (write_conf n cfg)" "keeps docker_side remove_testdata"
    for d n cfg
    by (simp_all add: keeps_def open_keys_def write_conf_def on_part_def remove_testdata_def docker_side_def
        split: prod.split option.split)
  show ?thesis
    unfolding prepare_stack_def Let_def
    by (auto intro!: keeps_andthen keeps_on_part k check_node_did_keeps keeps_ret simp: docker_side_def
        split: prod.split)
qed

lemma live_append_zero:
  "set (live n es) \<subseteq> {0} \<Longrightarrow> set (live n (es @ map up_event ns)) \<subseteq> {0}"
  "live n (es @ map ready_event ns) = live n es"
proof (induction ns rule: rev_induct)
  case (snoc m ns)
  { case 1 show ?case using snoc(1) [OF 1] by (auto simp: append_assoc [symmetric] simp del: append_assoc split: if_splits) }
  { case 2 show ?case using snoc(2) by (simp add: append_assoc [symmetric] del: append_assoc) }
qed simp_all

lemma ComposeUp_Inr:
  assumes "ComposeUp hexsum uid gid dir w = (Inr c, w')"
  shows "c = compose_of hexsum dir \<and> stack w' = stack w @ map up_event (upServices w)
    \<and> cWaited w' = cWaited w \<and> portWorld w' = portWorld w"
  using assms
  by (auto simp: ComposeUp_def Let_def andthen_eq_Inr_iff docker_def act_def split: option.splits)

lemma boot_quiet:
  "keeps (\<lambda>w. (stack w, portWorld w)) (wait_subscribers m subjects)"
  "keeps (\<lambda>w. (stack w, portWorld w)) (on_cRegistry f)" "keeps (\<lambda>w. (stack w, portWorld w)) (read_seed n)"
proof -
  show "keeps (\<lambda>w. (stack w, portWorld w)) (wait_subscribers m subjects)"
    unfolding wait_subscribers_def by (intro prog_rules) (simp add: keeps_def)
  show "keeps (\<lambda>w. (stack w, portWorld w)) (on_cRegistry f)" by (rule keeps_on_part) simp
  show "keeps (\<lambda>w. (stack w, portWorld w)) (read_seed n)" by (simp add: keeps_def read_seed_def split: option.split)
qed

text \<open>The \<open>k\<close>-th wait is \<^verbatim>\<open>Port\<close> for this port of this service, and gives the address.\<close>

definition publishes_at :: "'o compose_host \<Rightarrow> nat \<Rightarrow> string \<Rightarrow> nat \<Rightarrow> string \<Rightarrow> bool" where
  "publishes_at w k service port a \<longleftrightarrow> (\<exists>v. Port service port (steady (portWorld w k)) = Some (Inr a, v))"

lemma boot_stack_ok:
  fixes w :: "'o compose_host"
  assumes "boot_stack out spec dir keys w = (Inr env, w')"
  shows "ceNetwork env = Account spec @ ''-network'' \<and> cePipeline env = Account spec @ ''-pipeline''
    \<and> ceCompose env = compose_of (hexSum out) dir
    \<and> stack w' = stack w @ map up_event (upServices w)
        @ map ready_event [''nats'', Account spec @ ''-network'', Account spec @ ''-pipeline'']
    \<and> (\<exists>np pp q i j k. ceNodeBase env = ''http://'' @ np \<and> cePipelineBase env = ''http://'' @ pp
        \<and> ceNATSURL env = ''nats://'' @ q
        \<and> publishes_at w i (Account spec @ ''-network'') 8443 np
        \<and> publishes_at w j (Account spec @ ''-pipeline'') 8443 pp \<and> publishes_at w k ''nats'' 4222 q)"
proof -
  obtain c m np pp ow seed q u1 u2 u3 u4 u5 a1 a2 a3 a4 a5 a6 a7 a8 a9 a10 a11 where s:
    "ComposeUp (hexSum out) (userId out) (groupId out) dir w = (Inr c, a1)"
    "service_port ''nats'' 8222 a1 = (Inr m, a2)"
    "wait_http ''nats'' (''http://'' @ m @ ''/healthz'') a2 = (Inr u1, a3)"
    "service_port (Account spec @ ''-network'') 8443 a3 = (Inr np, a4)"
    "wait_http (Account spec @ ''-network'') (''http://'' @ np @ ''/readyz'') a4 = (Inr u2, a5)"
    "service_port (Account spec @ ''-pipeline'') 8443 a5 = (Inr pp, a6)"
    "wait_http (Account spec @ ''-pipeline'') (''http://'' @ pp @ ''/readyz'') a6 = (Inr u3, a7)"
    "wait_subscribers m (IngressSubjects spec) a7 = (Inr u4, a8)"
    "on_cRegistry (NewOwner (cOwnerDir out) (ownerDIDFor spec)) a8 = (Inr ow, a9)"
    "on_cRegistry (BootstrapExternal (cIdentityLib out) (''http://'' @ np) ow (PipelineDIDs spec) (ProcessDIDs spec) keys) a9
       = (Inr u5, a10)"
    "read_seed (Account spec @ ''-account.seed'') a10 = (Inr seed, a11)"
    "service_port ''nats'' 4222 a11 = (Inr q, w')"
    "ceNodeBase env = ''http://'' @ np" "cePipelineBase env = ''http://'' @ pp" "ceNATSURL env = ''nats://'' @ q"
    "ceNetwork env = Account spec @ ''-network''" "cePipeline env = Account spec @ ''-pipeline''" "ceCompose env = c"
    using assms unfolding boot_stack_def Let_def by (auto simp: andthen_eq_Inr_iff)
  have quiet: "stack a11 = stack a7" "portWorld a11 = portWorld a7"
    using keepsD [OF boot_quiet(1) s(8)] keepsD [OF boot_quiet(2) s(9)] keepsD [OF boot_quiet(2) s(10)]
      keepsD [OF boot_quiet(3) s(11)] by simp_all
  note up = ComposeUp_Inr [OF s(1)]
  note p = service_port_Inr [OF s(2)] service_port_Inr [OF s(4)] service_port_Inr [OF s(6)] service_port_Inr [OF s(12)]
  note h = wait_http_Inr [OF s(3)] wait_http_Inr [OF s(5)] wait_http_Inr [OF s(7)]
  have "stack w' = stack w @ map up_event (upServices w)
      @ map ready_event [''nats'', Account spec @ ''-network'', Account spec @ ''-pipeline'']"
    using up p h quiet by simp
  moreover have "publishes_at w (cWaited a3) (Account spec @ ''-network'') 8443 np"
    "publishes_at w (cWaited a5) (Account spec @ ''-pipeline'') 8443 pp" "publishes_at w (cWaited a11) ''nats'' 4222 q"
    using up p h quiet by (simp_all add: publishes_at_def)
  ultimately show ?thesis using s(13-18) up by blast
qed

section \<open>A concrete stack\<close>

definition ok_http :: "http_reply world" where
  "ok_http = \<lparr>clock = 0, looks = 0, script = (\<lambda>_. (Reply 200 (Some (dquote # ''raw'' @ [dquote])), 3)),
     oversleep = (\<lambda>_. 0), stuck = (\<lambda>_. False)\<rparr>"

lemma steady_demo [simp]: "steady ok_http = ok_http" "timed late ok_http = ok_http" "steady port_world = port_world"
  by (simp_all add: steady_id timed_id ok_http_def port_world_def)

lemma ok_http_ready: "WaitHTTPHealthy name url 60000 ok_http = Some (Inr (), look ok_http)"
  unfolding WaitHTTPHealthy_def steady_demo
  by (simp add: http_healthy.unfold probe_check_def ok_http_def seen_def is_200_def)

definition demo_stack :: "string compose_host" where
  "demo_stack = \<lparr>prov = empty_compose (\<lambda>_. None), cRegistry = demo_registry, testdata = Dir 0x1ED [],
     keysTree = Some (Dir 0x1C0 []), keyChmodErr = (\<lambda>_. None), keyReaddirErr = (\<lambda>_. None), removeErr = None,
     cDiskFaults = \<lparr>mkdirFault = None, writeFault = None\<rparr>, cUmask = 0x12, dockerErr = (\<lambda>_. None),
     dockerOut = (\<lambda>_. []), commands = [], atEnd = [], 
     upServices = [''nats'', ''pdpstub'', ''acme-network'', ''acme-pipeline''], stack = [],
     portWorld = (\<lambda>_. port_world), httpWorld = (\<lambda>_. ok_http), cWaited = 0, seedErr = None\<rparr>"

definition demo_cout :: "(string, string, string, string, string, string) compose_outside" where
  "demo_cout = \<lparr>cNatsLib = demo_lib, cIdentityLib = demo_identity, cPrintable = (\<lambda>_. True), cwd = Inr ''/s/simple'',
     cOwnerDir = ''/o'', cOperatorKey = Inr ''OP'', cOperatorJWT = Inr ''J'', cAccountKeys = Inr (''S'', ''A''),
     hexSum = (\<lambda>_. ''0a1b2c3d''), userId = 1000, groupId = 1000\<rparr>"

lemma unlisted_node_did_ends_witness:
  "isl (fst (startSingleNodeProcess demo_out demo_spec demo_host))
    \<and> launches (snd (startSingleNodeProcess demo_out demo_spec demo_host)) = launches demo_host
    \<and> isl (fst (startSingleNodeCompose demo_cout demo_spec demo_stack))
    \<and> commands (snd (startSingleNodeCompose demo_cout demo_spec demo_stack)) = commands demo_stack"
  by (rule unlisted_node_did_ends) (simp add: demo_spec_def)

end
