(* ===== verification/Single_Node.thy ===== *)
theory Single_Node
  imports Compose_Env Conf_Syntax
begin
(*START*)

text \<open>
  \<^verbatim>\<open>StartSingleNode\<close> (\<^verbatim>\<open>env.go\<close>): the runtime is chosen by the environment, and what a
  scenario may rely on is the same on both.
\<close>

section \<open>The choice of the runtime\<close>

definition ComposeRuntime :: "(string \<Rightarrow> string) \<Rightarrow> bool" where
  "ComposeRuntime getenv \<longleftrightarrow> getenv ''E2E_RUNTIME'' = ''compose''"

text \<open>The host of the subprocesses and the one of the containers, and a running scenario.\<close>

record ('o, 'c) test_world =
  tProcess :: "('o, 'c) host"
  tCompose :: "'o compose_host"

datatype single_node = On_process node_env SeparatedNode | On_compose compose_env

definition StartSingleNode ::
  "(string \<Rightarrow> string) \<Rightarrow> ('o, 'c, 'm, 'v, 'p, 'd) outside \<Rightarrow> ('o, 'c, 'm, 'v, 'p, 'd) compose_outside \<Rightarrow>
     SingleNodeSpec \<Rightarrow> (('o, 'c) test_world, single_node) prog" where
  "StartSingleNode getenv out cout spec =
     (if ComposeRuntime getenv
      then andthen (on_part tCompose (\<lambda>v. tCompose_update (\<lambda>_. v)) (startSingleNodeCompose cout spec))
             (\<lambda>env. ret (On_compose env))
      else andthen (on_part tProcess (\<lambda>v. tProcess_update (\<lambda>_. v)) (startSingleNodeProcess out spec))
             (\<lambda>(env, sn). ret (On_process env sn)))"

lemma StartSingleNode_cases:
  assumes "StartSingleNode getenv out cout spec w = (Inr n, w')"
  obtains (process) env sn where "\<not> ComposeRuntime getenv" "n = On_process env sn"
      "startSingleNodeProcess out spec (tProcess w) = (Inr (env, sn), tProcess w')"
    | (compose) env where "ComposeRuntime getenv" "n = On_compose env"
      "startSingleNodeCompose cout spec (tCompose w) = (Inr env, tCompose w')"
  using assms
  by (auto simp: StartSingleNode_def on_part_def andthen_eq_Inr_iff split: if_splits prod.splits)

section \<open>What the registry was told\<close>

text \<open>
  From \<open>r\<close> to \<open>r'\<close> the registry at \<open>base\<close> was told of the scenario's owner and its DIDs, all
  of them and in the order of the lists, with keys that the key store \<open>dir\<close> holds.
\<close>

definition issued ::
  "('m, 'v, 'p, 'd) identity_lib \<Rightarrow> string \<Rightarrow> string \<Rightarrow> SingleNodeSpec \<Rightarrow> registry_world \<Rightarrow> registry_world \<Rightarrow> bool" where
  "issued lib base dir spec r r' \<longleftrightarrow>
     (\<exists>ow keys ws. sent r' = sent r @ ws \<and> DID ow = ownerDIDFor spec
        \<and> map Inr ws = plan lib (saved r') base ow (PipelineDIDs spec) (ProcessDIDs spec) keys
        \<and> specNodeDID spec \<in> set (PipelineDIDs spec @ ProcessDIDs spec)
        \<and> list_all (\<lambda>d. case keys d of None \<Rightarrow> False | Some ext \<Rightarrow> keys_match dir (saved r') d ext)
            (PipelineDIDs spec @ ProcessDIDs spec))"

lemma keys_sent [prog_rules]:
  "keeps sent (Generate err)" "keeps sent (SaveKeyPair dir did ks err)"
  by (simp_all add: keeps_def Generate_def SaveKeyPair_def split: option.split)

lemma provision_all_sent: "keeps sent (provision_all dataDir ds m)"
proof (induction ds arbitrary: m)
  case (Cons d ds)
  have "keeps sent (ProvisionExternalIdentity dataDir d)"
    unfolding ProvisionExternalIdentity_def by (intro prog_rules)
  then show ?case unfolding provision_all.simps by (rule keeps_andthen) (rule Cons.IH)
qed (simp add: prog_rules)

lemma issued_steps:
  assumes "provision_all dataDir (PipelineDIDs spec @ ProcessDIDs spec) Map.empty r = (Inr keys, r1)"
    and "keys (specNodeDID spec) \<noteq> None"
    and "NewOwner tmp (ownerDIDFor spec) r1 = (Inr ow, r2)" and "tmp \<noteq> path_join [dataDir, ''keys'']"
    and "BootstrapExternal lib base ow (PipelineDIDs spec) (ProcessDIDs spec) keys r2 = (Inr u, r3)"
  shows "issued lib base (path_join [dataDir, ''keys'']) spec r r3"
proof -
  let ?dir = "path_join [dataDir, ''keys'']" and ?ds = "PipelineDIDs spec @ ProcessDIDs spec"
  obtain ws where ws: "saved r3 = saved r2" "sent r3 = sent r2 @ ws"
    "map Inr ws = plan lib (saved r2) base ow (PipelineDIDs spec) (ProcessDIDs spec) keys"
    using sendsD [OF sends_bootstrap assms(5)] by (metis sum.disc(2))
  note p = provision_all_ok [OF assms(1)]
  have match: "keys_match ?dir (saved r1) d ext \<and> d \<in> set ?ds" if "keys d = Some ext" for d ext
    using p [THEN conjunct1, THEN spec [of _ d], THEN spec [of _ ext]] that by simp
  have all: "\<exists>ext. keys d = Some ext" if "d \<in> set ?ds" for d
    using p [THEN conjunct2, THEN conjunct1] that by blast
  obtain k where k: "saved r2 = saved r1 @ [(tmp, ownerDIDFor spec, [(key_signing, k)])]" "DID ow = ownerDIDFor spec"
    using NewOwner_ok [OF assms(3)] by blast
  have "keeps sent (NewOwner tmp (ownerDIDFor spec))"
    unfolding NewOwner_def by (intro prog_rules)
  from keepsD [OF this assms(3)] have "sent r2 = sent r1" .
  then have sent: "sent r3 = sent r @ ws"
    using ws(2) keepsD [OF provision_all_sent assms(1)] by simp
  have "case keys d of None \<Rightarrow> False | Some ext \<Rightarrow> keys_match ?dir (saved r3) d ext" if "d \<in> set ?ds" for d
  proof -
    obtain ext where ext: "keys d = Some ext" using all [OF \<open>d \<in> set ?ds\<close>] by blast
    have "keys_match ?dir (saved r1) d ext" using match [OF ext] by blast
    moreover have "last_saved (saved r3) ?dir d = last_saved (saved r1) ?dir d" using k(1) ws(1) assms(4) by simp
    ultimately show ?thesis using ext keys_match_cong [of "saved r3" ?dir d "saved r1" ext] by simp
  qed
  moreover have "specNodeDID spec \<in> set ?ds" using match assms(2) by (cases "keys (specNodeDID spec)") simp_all
  ultimately show ?thesis
    unfolding issued_def using ws(1,3) sent k(2)
    by (intro exI [of _ ow] exI [of _ keys] exI [of _ ws]) (simp add: list_all_iff)
qed

section \<open>The process runtime\<close>

definition process_store :: "('o, 'c, 'm, 'v, 'p, 'd) outside \<Rightarrow> SingleNodeSpec \<Rightarrow> string" where
  "process_store out spec = path_join [path_join [workDir out, Account spec @ ''-pipeline''], ''data'']"

text \<open>What a restart of the processes does not touch.\<close>

definition assets :: "('o, 'c) host \<Rightarrow> build_state \<times> ('o, 'c) NATS \<times> registry_world \<times> nat" where
  "assets w = (build w, broker w, registry w, portsDrawn w)"

lemma assets_updates [simp]:
  "assets (w\<lparr>events := a\<rparr>) = assets w" "assets (w\<lparr>cleanups := b\<rparr>) = assets w" "assets (w\<lparr>disk := d\<rparr>) = assets w"
  "assets (w\<lparr>waited := n\<rparr>) = assets w" "assets (w\<lparr>launches := l\<rparr>) = assets w"
  by (simp_all add: assets_def)

named_theorems asset_rules

lemma assets_emit [asset_rules]: "keeps assets (emit e)" "keeps assets (cleanup e)"
  by (simp_all add: keeps_def emit_def cleanup_def)

lemma assets_disk [asset_rules]: "keeps assets (with_disk (\<lambda>ft um. on_disk (f ft um) err))"
  by (simp add: keeps_def with_disk_def on_disk_def on_part_def split: prod.split sum.split)

lemma assets_launch [asset_rules]: "keeps assets (runNodeProcess name bin dir url env)"
  by (simp add: keeps_def runNodeProcess_def Let_def andthen_def emit_def cleanup_def split: option.split)

lemma assets_await [asset_rules]: "keeps assets (await_node n)"
  unfolding await_node_def by (intro prog_rules asset_rules) (simp add: keeps_def)

lemma assets_wait [asset_rules]: "keeps assets (waitSubscribed subjects)"
  unfolding waitSubscribed_def by (intro prog_rules) (simp add: keeps_def)

lemma assets_start [asset_rules]: "keeps assets (StartSeparatedNode spec)"
  unfolding StartSeparatedNode_def by (intro prog_rules asset_rules)

lemma assets_stop [asset_rules]: "keeps assets (SeparatedNode_Stop sn)"
  unfolding SeparatedNode_Stop_def Node_Stop_def by (intro prog_rules asset_rules)

lemma assets_sinks [asset_rules]: "keeps assets (SeparatedNode_SinkLines sn)"
  by (simp add: keeps_def SeparatedNode_SinkLines_def)

lemma assets_env_run [asset_rules]: "keeps assets (env_run env sn c)"
  by (cases c) (auto intro!: prog_rules asset_rules)

lemma assets_env_calls: "keeps assets (env_calls env cs sn)"
  by (induction cs arbitrary: sn) (auto intro!: prog_rules asset_rules)

lemma on_part_iff: "on_part part upd m w = (r, w') \<longleftrightarrow> (\<exists>v. m (part w) = (r, v) \<and> w' = upd v w)"
  by (auto simp: on_part_def split: prod.splits)

lemma check_node_did_Inr:
  "check_node_did fmt spec keys w = (Inr u, w') \<longleftrightarrow> keys (specNodeDID spec) \<noteq> None \<and> w' = w"
  by (auto simp: check_node_did_def)

lemma keeps_registry:
  "keeps registry (on_build m)" "keeps registry free_port" "keeps registry (on_broker b)"
  by (simp_all add: keeps_def on_part_def free_port_def split: prod.split)

lemma keeps_registry_servers: "keeps registry (start_stub addr)" "keeps registry (start_broker lib dir op keys)"
  unfolding start_stub_def start_broker_def
  by (intro prog_rules keeps_registry; simp add: keeps_def emit_def cleanup_def)+

lemma assets_registry: "assets w = assets w' \<Longrightarrow> registry w = registry w'"
  by (simp add: assets_def)

lemma keeps_disk:
  "keeps disk (waitSubscribed subjects)" "keeps disk (on_registry m)"
  "keeps launches (waitSubscribed subjects)" "keeps launches (on_registry m)"
  unfolding waitSubscribed_def by (intro prog_rules; simp add: keeps_def)+

lemma process_start_steps:
  fixes w :: "('o, 'c) host"
  assumes "startSingleNodeProcess out spec w = (Inr (env, sn), w')"
  obtains bins n p pdp and acct :: NATSAccount and keys r1 ow r2 u sep and w1 w2 :: "('o, 'c) host" where
    "sep = separated_spec out spec bins n p (process_config spec n p pdp (clientURL out) (SeedFile acct)
       (path_join [workDir out, ''nats'']))"
    "env = \<lparr>eNodeBase = snBaseURL sn, ePipelineBase = ''http://127.0.0.1'' @ p, eNATSURL = clientURL out,
       eAcctSeed = Seed acct, eSeparated = sep, eSubjects = IngressSubjects spec\<rparr>"
    "provision_all (process_store out spec) (PipelineDIDs spec @ ProcessDIDs spec) Map.empty (registry w) = (Inr keys, r1)"
    "keys (specNodeDID spec) \<noteq> None" "StartSeparatedNode sep w1 = (Inr sn, w2)" "registry w2 = r1"
    "NewOwner (ownerDir out) (ownerDIDFor spec) r1 = (Inr ow, r2)"
    "BootstrapExternal (identityLib out) (snBaseURL sn) ow (PipelineDIDs spec) (ProcessDIDs spec) keys r2
       = (Inr u, registry w')"
    "disk w' = disk w2" "launches w' = launches w2"
proof -
  let ?nats = "path_join [workDir out, ''nats'']"
  let ?sep = "\<lambda>bins n p pdp acct. separated_spec out spec bins n p
      (process_config spec n p pdp (clientURL out) (SeedFile acct) ?nats)"
  obtain bins n p a pdp u1 acct keys u2 u3 ow u4 a1 a2 a3 a4 a5 a6 a7 a8 a9 a10 a11 a12 where s:
    "on_build (BuildBinaries (root out) (arg0 out) (mkdirTmp out) (goBuild out)) w = (Inr bins, a1)"
    "free_port a1 = (Inr n, a2)" "free_port a2 = (Inr p, a3)" "free_port a3 = (Inr a, a4)"
    "start_stub a a4 = (Inr pdp, a5)"
    "start_broker (natsLib out) ?nats (operatorKey out) [(Account spec, accountKeys out)] a5 = (Inr u1, a6)"
    "on_broker (account ''nats'' (Account spec)) a6 = (Inr acct, a7)"
    "on_registry (provision_all (process_store out spec) (PipelineDIDs spec @ ProcessDIDs spec) Map.empty) a7 = (Inr keys, a8)"
    "check_node_did (node_did_text @ '' in the process (separated) runtime'' @ identity_text) spec keys a8 = (Inr u2, a9)"
    "StartSeparatedNode (?sep bins n p pdp acct) a9 = (Inr sn, a10)"
    "waitSubscribed (IngressSubjects spec) a10 = (Inr u3, a11)"
    "on_registry (NewOwner (ownerDir out) (ownerDIDFor spec)) a11 = (Inr ow, a12)"
    "on_registry (BootstrapExternal (identityLib out) (snBaseURL sn) ow (PipelineDIDs spec) (ProcessDIDs spec) keys) a12
       = (Inr u4, w')"
    "env = \<lparr>eNodeBase = snBaseURL sn, ePipelineBase = ''http://127.0.0.1'' @ p, eNATSURL = clientURL out,
       eAcctSeed = Seed acct, eSeparated = ?sep bins n p pdp acct, eSubjects = IngressSubjects spec\<rparr>"
    using assms unfolding startSingleNodeProcess_def Let_def process_store_def
    by (auto simp only: andthen_eq_Inr_iff ret_apply prod.inject sum.inject)
  have "registry a7 = registry w"
    using keepsD [OF keeps_registry(1) s(1)] s(2-4) [THEN keepsD [OF keeps_registry(2)]]
      keepsD [OF keeps_registry_servers(1) s(5)] keepsD [OF keeps_registry_servers(2) s(6)]
      keepsD [OF keeps_registry(3) s(7)] by simp
  then obtain r1 where r1: "provision_all (process_store out spec) (PipelineDIDs spec @ ProcessDIDs spec) Map.empty (registry w) = (Inr keys, r1)"
    "registry a8 = r1" using s(8) by (auto simp: on_part_iff)
  have did: "keys (specNodeDID spec) \<noteq> None" "a9 = a8" using s(9) by (simp_all add: check_node_did_Inr)
  have up: "registry a10 = r1" "registry a11 = r1"
    using assets_registry [OF keepsD [OF assets_start s(10)]] assets_registry [OF keepsD [OF assets_wait s(11)]] did(2) r1(2)
    by simp_all
  obtain r2 where r2: "NewOwner (ownerDir out) (ownerDIDFor spec) r1 = (Inr ow, r2)" "registry a12 = r2"
    using s(12) up(2) by (auto simp: on_part_iff)
  have b: "BootstrapExternal (identityLib out) (snBaseURL sn) ow (PipelineDIDs spec) (ProcessDIDs spec) keys r2
       = (Inr u4, registry w')"
    using s(13) r2(2) by (auto simp: on_part_iff)
  have d: "disk w' = disk a10" "launches w' = launches a10"
    using keepsD [OF keeps_disk(1) s(11)] keepsD [OF keeps_disk(2) s(12)] keepsD [OF keeps_disk(2) s(13)]
      keepsD [OF keeps_disk(3) s(11)] keepsD [OF keeps_disk(4) s(12)] keepsD [OF keeps_disk(4) s(13)] by simp_all
  show ?thesis by (rule that [OF refl s(14) r1(1) did(1) s(10) up(1) r2(1) b d])
qed

section \<open>The compose runtime\<close>

definition compose_store :: "string \<Rightarrow> SingleNodeSpec \<Rightarrow> string" where
  "compose_store scenarioDir spec =
     path_join [path_join [path_join [scenarioDir, ''testdata''], Account spec @ ''-pipeline''], ''data'']"

definition cassets :: "'o compose_host \<Rightarrow> 'o ComposeProvision \<times> registry_world \<times> tree" where
  "cassets w = (prov w, cRegistry w, testdata w)"

lemma cassets_updates [simp]:
  "cassets (w\<lparr>commands := a\<rparr>) = cassets w" "cassets (w\<lparr>atEnd := a\<rparr>) = cassets w" "cassets (w\<lparr>stack := b\<rparr>) = cassets w"
  "cassets (w\<lparr>cWaited := n\<rparr>) = cassets w"
  by (simp_all add: cassets_def)

named_theorems casset_rules

lemma cassets_docker [casset_rules]: "keeps cassets (docker c args e)" "keeps cassets (act es)"
  by (simp_all add: keeps_def docker_def act_def)

lemma cassets_ports [casset_rules]: "keeps cassets (service_port s p)" "keeps cassets (wait_http n url)"
  by (auto simp: keeps_def service_port_def wait_http_def andthen_def act_def split: sum.split)

lemma cassets_subscribers [casset_rules]: "keeps cassets (wait_subscribers m subjects)"
  unfolding wait_subscribers_def by (intro prog_rules) (simp add: keeps_def)


lemma cassets_up [casset_rules]: "keeps cassets (ComposeUp hexsum uid gid dir)"
proof -
  have run: "keeps cassets (\<lambda>w. (Inr (f w), w))" "keeps cassets (\<lambda>w. (Inr (), w\<lparr>atEnd := g w\<rparr>))"
    "keeps cassets (\<lambda>w. act (h w) w)"
    for f :: "'a compose_host \<Rightarrow> 'x" and g h by (simp_all add: keeps_def act_def)
  show ?thesis
    unfolding ComposeUp_def Let_def
    by (intro prog_rules casset_rules run)
       (auto intro!: prog_rules casset_rules run split: option.split)
qed

lemma cassets_registry: "cassets w = cassets w' \<Longrightarrow> cRegistry w = cRegistry w' \<and> testdata w = testdata w'"
  by (simp add: cassets_def)

lemma keeps_testdata: "keeps testdata (on_cRegistry m)" "keeps testdata (read_seed f)" "keeps testdata (service_port s p)"
  by (simp_all add: keeps_def on_part_def read_seed_def service_port_def split: prod.split option.split)

lemma keeps_cRegistry:
  "keeps cRegistry remove_testdata" "keeps cRegistry (on_prov m)" "keeps cRegistry (open_keys d)"
  "keeps cRegistry (write_conf n cfg)" "keeps cRegistry (read_seed f)" "keeps cRegistry (service_port s p)"
  by (simp_all add: keeps_def on_part_def remove_testdata_def open_keys_def write_conf_def read_seed_def
      service_port_def split: prod.split option.split)

lemma write_conf_Inr:
  "write_conf node cfg w = (Inr u, w') \<Longrightarrow>
     read_file (testdata w') = (read_file (testdata w))(conf_path node \<mapsto> cfg)"
  by (auto simp: write_conf_def on_part_iff WriteNodeConfig_def conf_path_def dest!: write_below_ok)

lemma prepare_stack_steps:
  fixes w :: "'o compose_host"
  assumes "prepare_stack out spec dir w = (Inr keys, w')"
  shows "provision_all (compose_store dir spec) (PipelineDIDs spec @ ProcessDIDs spec) Map.empty (cRegistry w)
      = (Inr keys, cRegistry w')
    \<and> keys (specNodeDID spec) \<noteq> None
    \<and> read_file (testdata w') (conf_path (Account spec @ ''-network''))
        = Some (fst (SplitNodeConfig (cPrintable out) [] [] (compose_config spec)))
    \<and> read_file (testdata w') (conf_path (Account spec @ ''-pipeline''))
        = Some (snd (SplitNodeConfig (cPrintable out) [] [] (compose_config spec)))"
proof -
  obtain net pipe where split: "SplitNodeConfig (cPrintable out) [] [] (compose_config spec) = (net, pipe)"
    by (cases "SplitNodeConfig (cPrintable out) [] [] (compose_config spec)")
  let ?td = "path_join [dir, ''testdata'']"
  obtain u1 u2 u3 u4 u5 u6 u7 a1 a2 a3 a4 a5 a6 a7 where s:
    "remove_testdata w = (Inr u1, a1)"
    "on_prov (ProvisionCompose (cNatsLib out) ?td (cOperatorKey out) (cOperatorJWT out) [(Account spec, cAccountKeys out)]) a1
       = (Inr u2, a2)"
    "on_prov (WriteBrokerConfig (cPrintable out) ?td [Account spec]) a2 = (Inr u3, a3)"
    "on_cRegistry (provision_all (compose_store dir spec) (PipelineDIDs spec @ ProcessDIDs spec) Map.empty) a3 = (Inr keys, a4)"
    "check_node_did (node_did_text @ identity_text) spec keys a4 = (Inr u4, a5)"
    "open_keys (path_join [compose_store dir spec, ''keys'']) a5 = (Inr u5, a6)"
    "write_conf (Account spec @ ''-network'') net a6 = (Inr u6, a7)"
    "write_conf (Account spec @ ''-pipeline'') pipe a7 = (Inr u7, w')"
    using assms unfolding prepare_stack_def Let_def split compose_store_def
    by (auto simp only: andthen_eq_Inr_iff ret_apply prod.inject sum.inject prod.case)
  have "cRegistry a3 = cRegistry w"
    using keepsD [OF keeps_cRegistry(1) s(1)] keepsD [OF keeps_cRegistry(2) s(2)] keepsD [OF keeps_cRegistry(2) s(3)] by simp
  moreover have "cRegistry w' = cRegistry a5"
    using keepsD [OF keeps_cRegistry(3) s(6)] keepsD [OF keeps_cRegistry(4) s(7)] keepsD [OF keeps_cRegistry(4) s(8)] by simp
  moreover have "keys (specNodeDID spec) \<noteq> None" "a5 = a4" using s(5) by (simp_all add: check_node_did_Inr)
  moreover have "conf_path (Account spec @ ''-network'') \<noteq> conf_path (Account spec @ ''-pipeline'')"
    by (simp add: conf_path_def)
  ultimately show ?thesis
    using s(4) write_conf_Inr [OF s(7)] write_conf_Inr [OF s(8)] by (auto simp: on_part_iff split)
qed

lemma boot_stack_steps:
  fixes w :: "'o compose_host"
  assumes "boot_stack out spec dir keys w = (Inr env, w')"
  obtains ow r2 u where
    "NewOwner (cOwnerDir out) (ownerDIDFor spec) (cRegistry w) = (Inr ow, r2)"
    "BootstrapExternal (cIdentityLib out) (ceNodeBase env) ow (PipelineDIDs spec) (ProcessDIDs spec) keys r2
       = (Inr u, cRegistry w')"
    "testdata w' = testdata w"
proof -
  obtain c m np pp ow seed q u1 u2 u3 u4 u5 a1 a2 a3 a4 a5 a6 a7 a8 a9 a10 a11 where s:
    "ComposeUp (hexSum out) (userId out) (groupId out) dir w = (Inr c, a1)"
    "service_port ''nats'' 8222 a1 = (Inr m, a2)"
    "wait_http ''nats'' (''http://'' @ m @ ''/healthz'') a2 = (Inr u1, a3)"
    "service_port (Account spec @ ''-network'') 8443 a3 = (Inr np, a4)"
    "wait_http (Account spec @ ''-network'') (''http://'' @ np @ ''/readyz'') a4 = (Inr u2, a5)"
    "service_port (Account spec @ ''-pipeline'') 8443 a5 = (Inr pp, a6)"
    "wait_http (Account spec @ ''-pipeline'') (''http://'' @ pp @ ''/readyz'') a6 = (Inr u3, a7)"
    "wait_subscribers m (IngressSubjects spec) a7 = (Inr u4, a8)"
    "on_cRegistry (NewOwner (cOwnerDir out) (ownerDIDFor spec)) a8 = (Inr ow, a9)"
    "on_cRegistry (BootstrapExternal (cIdentityLib out) (''http://'' @ np) ow (PipelineDIDs spec) (ProcessDIDs spec) keys) a9
       = (Inr u5, a10)"
    "read_seed (Account spec @ ''-account.seed'') a10 = (Inr seed, a11)"
    "service_port ''nats'' 4222 a11 = (Inr q, w')" "ceNodeBase env = ''http://'' @ np"
    using assms unfolding boot_stack_def Let_def
    by (auto simp: andthen_eq_Inr_iff)
  have "cassets a8 = cassets w"
    using keepsD [OF cassets_up s(1)] keepsD [OF cassets_ports(1) s(2)] keepsD [OF cassets_ports(2) s(3)]
      keepsD [OF cassets_ports(1) s(4)] keepsD [OF cassets_ports(2) s(5)] keepsD [OF cassets_ports(1) s(6)]
      keepsD [OF cassets_ports(2) s(7)] keepsD [OF cassets_subscribers s(8)] by simp
  then have up: "cRegistry a8 = cRegistry w" "testdata a8 = testdata w" using cassets_registry by blast+
  obtain r2 where r2: "NewOwner (cOwnerDir out) (ownerDIDFor spec) (cRegistry w) = (Inr ow, r2)" "cRegistry a9 = r2"
    using s(9) up(1) by (auto simp: on_part_iff)
  have "cRegistry a10 = cRegistry w'"
    using keepsD [OF keeps_cRegistry(5) s(11)] keepsD [OF keeps_cRegistry(6) s(12)] by simp
  then have b: "BootstrapExternal (cIdentityLib out) (ceNodeBase env) ow (PipelineDIDs spec) (ProcessDIDs spec) keys r2
       = (Inr u5, cRegistry w')"
    using s(10) r2(2) s(13) by (auto simp: on_part_iff)
  have t: "testdata w' = testdata w"
    using keepsD [OF keeps_testdata(1) s(9)] keepsD [OF keeps_testdata(1) s(10)] keepsD [OF keeps_testdata(2) s(11)]
      keepsD [OF keeps_testdata(3) s(12)] up(2) by simp
  show ?thesis by (rule that [OF r2(1) b t])
qed

section \<open>What a started scenario may rely on\<close>

text \<open>C38: A scenario that has started, on either runtime, has registered its owner and issued all
  its DIDs to the node it returns, in the order of the lists, with public keys whose private
  halves are in the pipeline's own key store; the node's identity is one of these DIDs.\<close>

theorem started_issued:
  assumes "StartSingleNode getenv out cout spec w = (Inr n, w')"
    and "ownerDir out \<noteq> path_join [process_store out spec, ''keys'']"
    and "cwd cout = Inr dir" and "cOwnerDir cout \<noteq> path_join [compose_store dir spec, ''keys'']"
  shows "case n of
      On_process env sn \<Rightarrow> issued (identityLib out) (eNodeBase env) (path_join [process_store out spec, ''keys'']) spec
        (registry (tProcess w)) (registry (tProcess w'))
    | On_compose env \<Rightarrow> issued (cIdentityLib cout) (ceNodeBase env) (path_join [compose_store dir spec, ''keys'']) spec
        (cRegistry (tCompose w)) (cRegistry (tCompose w'))"
  using assms(1)
proof (cases rule: StartSingleNode_cases)
  case (process env sn)
  from process(3) obtain keys r1 ow r2 u where
    "provision_all (process_store out spec) (PipelineDIDs spec @ ProcessDIDs spec) Map.empty (registry (tProcess w)) = (Inr keys, r1)"
    "keys (specNodeDID spec) \<noteq> None" "NewOwner (ownerDir out) (ownerDIDFor spec) r1 = (Inr ow, r2)"
    "BootstrapExternal (identityLib out) (eNodeBase env) ow (PipelineDIDs spec) (ProcessDIDs spec) keys r2
       = (Inr u, registry (tProcess w'))"
    by (rule process_start_steps) simp
  from issued_steps [OF this(1-3) assms(2) this(4)] show ?thesis unfolding process(2) single_node.case .
next
  case (compose env)
  from compose(3) obtain keys v where
    s: "prepare_stack cout spec dir (tCompose w) = (Inr keys, v)" "boot_stack cout spec dir keys v = (Inr env, tCompose w')"
    by (auto simp: startSingleNodeCompose_def assms(3) andthen_eq_Inr_iff)
  from s(2) obtain ow r2 u where
    "NewOwner (cOwnerDir cout) (ownerDIDFor spec) (cRegistry v) = (Inr ow, r2)"
    "BootstrapExternal (cIdentityLib cout) (ceNodeBase env) ow (PipelineDIDs spec) (ProcessDIDs spec) keys r2
       = (Inr u, cRegistry (tCompose w'))"
    by (rule boot_stack_steps) simp
  with prepare_stack_steps [OF s(1)] issued_steps [OF _ _ _ assms(4)] show ?thesis
    unfolding compose(2) single_node.case by blast
qed





section \<open>Restarts\<close>

definition pair_launches :: "SeparatedNodeSpec \<Rightarrow> (string \<times> string \<times> string \<times> string list) list" where
  "pair_launches spec =
     [(spName spec @ ''-network'', spNetworkBin spec, spNetworkDir spec, []),
      (spName spec @ ''-pipeline'', spPipelineBin spec, spPipelineDir spec,
       [''CONFIG_FILE='' @ path_join [spPipelineDir spec, ''pipeline.conf'']])]"

text \<open>The files of a running pair are the ones its specification names.\<close>

definition on_file :: "SeparatedNodeSpec \<Rightarrow> tree \<Rightarrow> bool" where
  "on_file spec t \<longleftrightarrow>
     read_file t (path_segs (spNetworkDir spec) @ [''config'', ''application.conf'']) = Some (spNetworkConfig spec)
   \<and> read_file t (path_segs (spPipelineDir spec) @ [''pipeline.conf'']) = Some (spPipelineConfig spec)"

lemma on_file_start:
  assumes "StartSeparatedNode spec w = (Inr sn, w')"
  shows "on_file spec (disk w')"
  using StartSeparatedNode_ok(3) [OF assms] conf_paths_differ by (simp add: on_file_def)

lemma on_file_again:
  assumes "StartSeparatedNode spec w = (Inr sn, w')" and "on_file spec (disk w)"
  shows "read_file (disk w') = read_file (disk w)"
  using StartSeparatedNode_ok(3) [OF assms(1)] assms(2) conf_paths_differ by (auto simp: on_file_def fun_eq_iff)

lemma Stop_keeps: "keeps launches (SeparatedNode_Stop sn)" "keeps disk (SeparatedNode_Stop sn)"
  by (simp_all add: keeps_def SeparatedNode_Stop_def Node_Stop_def emit_def andthen_def)

text \<open>A running node whose pipeline is the process launched last.\<close>

definition newest :: "SeparatedNode \<Rightarrow> ('o, 'c) host \<Rightarrow> bool" where
  "newest sn w \<longleftrightarrow> Suc (nLaunch (snPipeline sn)) = length (launches w)"

lemma newest_start: "StartSeparatedNode spec w = (Inr sn, w') \<Longrightarrow> newest sn w'"
  using StartSeparatedNode_ok(1,5) [of spec w sn w'] by (simp add: newest_def)

lemma env_run_ok:
  assumes "env_run env sn c w = (Inr sn', w')" and "on_file (eSeparated env) (disk w)"
    and "snBaseURL sn = ''http://127.0.0.1'' @ spNetworkListenAddr (eSeparated env)" and "newest sn w"
  shows "snBaseURL sn' = snBaseURL sn \<and> newest sn' w' \<and> read_file (disk w') = read_file (disk w)
    \<and> launches w' = launches w @ (if c = RestartNode then pair_launches (eSeparated env) else [])"
proof (cases c)
  case RestartNode
  then obtain u w1 w2 x where s: "SeparatedNode_Stop sn w = (Inr u, w1)"
    "StartSeparatedNode (eSeparated env) w1 = (Inr sn', w2)" "waitSubscribed (eSubjects env) w2 = (Inr x, w')"
    using assms(1) by (auto simp: andthen_eq_Inr_iff)
  have 1: "launches w1 = launches w" "disk w1 = disk w" "launches w' = launches w2" "disk w' = disk w2"
    using keepsD [OF Stop_keeps(1) s(1)] keepsD [OF Stop_keeps(2) s(1)] keepsD [OF keeps_disk(3) s(3)]
      keepsD [OF keeps_disk(1) s(3)] by simp_all
  show ?thesis
    using StartSeparatedNode_ok(1,4) [OF s(2)] on_file_again [OF s(2)] newest_start [OF s(2)] assms(2,3) RestartNode
    by (simp add: 1 pair_launches_def newest_def)
next
  case StopNode
  have "andthen (SeparatedNode_Stop sn) (\<lambda>_. ret sn) w = (Inr sn', w')" using assms(1) StopNode by simp
  then obtain u where s: "SeparatedNode_Stop sn w = (Inr u, w')" "sn' = sn"
    unfolding andthen_eq_Inr_iff ret_apply prod.inject sum.inject by blast
  have "launches w' = launches w" "disk w' = disk w"
    using keepsD [OF Stop_keeps(1) s(1)] keepsD [OF Stop_keeps(2) s(1)] .
  then show ?thesis
    using assms(4) by (simp only: StopNode s(2) newest_def env_call.distinct if_False append_Nil2 simp_thms)
next
  case ReadSinks
  have "andthen (SeparatedNode_SinkLines sn) (\<lambda>_. ret sn) w = (Inr sn', w')" using assms(1) ReadSinks by simp
  then have "sn' = sn" "w' = w" by (simp_all add: andthen_def SeparatedNode_SinkLines_def)
  then show ?thesis using assms(4) by (simp only: ReadSinks env_call.distinct if_False append_Nil2 simp_thms)
qed

lemma env_calls_ok:
  assumes "env_calls env cs sn w = (Inr sn', w')" and "on_file (eSeparated env) (disk w)"
    and "snBaseURL sn = ''http://127.0.0.1'' @ spNetworkListenAddr (eSeparated env)" and "newest sn w"
  shows "snBaseURL sn' = snBaseURL sn \<and> newest sn' w' \<and> read_file (disk w') = read_file (disk w)
    \<and> launches w' = launches w @ concat (map (\<lambda>c. if c = RestartNode then pair_launches (eSeparated env) else []) cs)"
  using assms
proof (induction cs arbitrary: sn w)
  case (Cons c cs)
  obtain sn1 w1 where s: "env_run env sn c w = (Inr sn1, w1)" "env_calls env cs sn1 w1 = (Inr sn', w')"
    using Cons.prems(1) by (auto simp: andthen_eq_Inr_iff)
  note run = env_run_ok [OF s(1) Cons.prems(2-4)]
  have "on_file (eSeparated env) (disk w1)" using Cons.prems(2) run by (simp add: on_file_def)
  from Cons.IH [OF s(2) this] run Cons.prems(3) show ?case by simp
qed simp

text \<open>C40: On subprocesses, however often a started scenario restarts or stops its node: the network base URL stays
  the one it was given, the files stay what they were, the broker, the registry's record and
  the drawn ports are untouched, each restart launches the same pair, network first, from the
  same binaries in the same directories, and the sink lines are those of the pipeline process
  launched last, a fresh stream after every restart.\<close>

theorem restarts_keep_node:
  assumes "startSingleNodeProcess out spec w = (Inr (env, sn), w1)"
    and "env_calls env todo sn w1 = (Inr sn', w2)"
  shows "snBaseURL sn' = eNodeBase env \<and> read_file (disk w2) = read_file (disk w1)
    \<and> broker w2 = broker w1 \<and> registry w2 = registry w1 \<and> portsDrawn w2 = portsDrawn w1
    \<and> launches w2 = launches w1 @
        concat (map (\<lambda>c. if c = RestartNode then pair_launches (eSeparated env) else []) todo)
    \<and> SeparatedNode_SinkLines sn' w2 = (Inr (Node_SinkLines (fst (streams w2 (length (launches w2) - 1)))), w2)"
  using assms(1)
proof (rule process_start_steps, goal_cases)
  case (1 bins net pipe pdp acct keys r1 ow r2 u sep v1 v2)
  have env: "eSeparated env = sep" "eNodeBase env = snBaseURL sn" by (simp_all add: 1(2))
  have "on_file (eSeparated env) (disk w1)" using on_file_start [OF 1(5)] by (simp add: env 1(9))
  moreover have "snBaseURL sn = ''http://127.0.0.1'' @ spNetworkListenAddr (eSeparated env)"
    using StartSeparatedNode_ok(4) [OF 1(5)] by (simp add: env)
  moreover have "newest sn w1" using newest_start [OF 1(5)] by (simp add: newest_def 1(10))
  ultimately have ok: "snBaseURL sn' = snBaseURL sn" "newest sn' w2" "read_file (disk w2) = read_file (disk w1)"
    "launches w2 = launches w1 @ concat (map (\<lambda>c. if c = RestartNode then pair_launches (eSeparated env) else []) todo)"
    using env_calls_ok [OF assms(2)] by simp_all
  from ok(2) have "nLaunch (snPipeline sn') = length (launches w2) - 1" by (simp add: newest_def)
  then show ?case
    using ok(1,3,4) keepsD [OF assets_env_calls assms(2)]
    by (simp add: assets_def env SeparatedNode_SinkLines_def SeparatedNode_Stdout_def Node_Stdout_def)
qed


section \<open>A concrete scenario\<close>

definition live_spec :: SingleNodeSpec where
  "live_spec = demo_spec\<lparr>specNodeDID := ''did:p''\<rparr>"

lemma live_build:
  "isl (fst (BuildBinaries (root demo_out) (arg0 demo_out) (mkdirTmp demo_out) (goBuild demo_out) fresh_build)) = False"
  by code_simp

lemma live_broker:
  "isl (fst (StartNATS (natsLib demo_out) ''/w/nats'' (operatorKey demo_out) [(''acme'', accountKeys demo_out)] (empty_NATS (\<lambda>_. None)))) = False"
  "isl (fst (account ''nats'' ''acme'' (snd (StartNATS (natsLib demo_out) ''/w/nats'' (operatorKey demo_out) [(''acme'', accountKeys demo_out)] (empty_NATS (\<lambda>_. None)))))) = False"
  by (code_simp, code_simp)

lemma live_stub: "StartPDPStub addr stub_up
    = Some (Inr (''http://127.0.0.1'' @ addr),
        look stub_up)"
  unfolding StartPDPStub_def
  by (subst poll.simps) (simp add: stub_up_def seen_def stub_check_def stub_base_def is_200_def)

lemma live_subscriber: "WaitForSubscriber ''raw'' t subs_up
    = Some (Inr (), look subs_up)"
  if "0 < t"
  unfolding WaitForSubscriber_def
  by (subst poll.simps) (simp add: that subs_up_def seen_def probe_check_def has_subscriber_def)

lemma live_registry:
  "\<exists>keys r. provision_all d [''did:p'', ''did:q''] Map.empty demo_registry = (Inr keys, r)
     \<and> (\<exists>a b. keys ''did:p'' = Some a \<and> keys ''did:q'' = Some b) \<and> keygen r = keygen demo_registry \<and> saveErr r = (\<lambda>_ _. None) \<and> reply r = (\<lambda>_. None)"
  by (simp add: ProvisionExternalIdentity_def andthen_def Generate_def SaveKeyPair_def demo_registry_def)

lemma live_owner:
  "keygen r = keygen demo_registry \<Longrightarrow> saveErr r = (\<lambda>_ _. None) \<Longrightarrow> reply r = (\<lambda>_. None) \<Longrightarrow>
     \<exists>ow r'. NewOwner tmp od r = (Inr ow, r') \<and> reply r' = (\<lambda>_. None)"
  by (simp add: NewOwner_def andthen_def Generate_def SaveKeyPair_def demo_registry_def)

lemma live_bootstrap:
  assumes "reply r = (\<lambda>_. None)" and "keys ''did:p'' = Some a" and "keys ''did:q'' = Some b"
  shows "\<exists>r'. BootstrapExternal demo_identity base ow [''did:p''] [''did:q''] keys r = (Inr (), r')"
  using assms
  by (simp add: BootstrapExternal_def andthen_def lift_outcome_def signedOwnerDoc_def bind_err_def demo_identity_def
      call_registry_def Let_def issue_def issue_request_def delegation_for_def externalKeysFor_def)

definition live_tree :: "string \<Rightarrow> string \<Rightarrow> tree" where
  "live_tree a b = Dir 0x1ED [(''w'', Dir (masked 0x12 0x1ED)
     [(''acme-network'', Dir (masked 0x12 0x1ED) [(''config'', Dir (masked 0x12 0x1ED)
         [(''application.conf'', File a (masked 0x12 0x1A4))])]),
      (''acme-pipeline'', Dir (masked 0x12 0x1ED) [(''pipeline.conf'', File b (masked 0x12 0x1A4))])])]"

definition live_world :: "(string, string) host \<Rightarrow> bool" where
  "live_world w \<longleftrightarrow> (disk w = Dir 0x1ED [] \<or> (\<exists>a b. disk w = live_tree a b)) \<and> startErr w = (\<lambda>_. None)
     \<and> diskFaults w = \<lparr>mkdirFault = None, writeFault = None\<rparr> \<and> umask w = 0x12 \<and> bootWorld w = (\<lambda>_. ready_world)
     \<and> subsWorld w = (\<lambda>_. subs_up)"

lemma live_paths:
  "path_join [''/w'', ''nats''] = ''/w/nats''" "path_segs (path_join [''/w'', ''acme-network'']) = [''w'', ''acme-network'']"
  "path_segs (path_join [''/w'', ''acme-pipeline'']) = [''w'', ''acme-pipeline'']"
  by (code_simp, code_simp, code_simp)

lemma live_pair:
  assumes "live_world w" and "spNetworkDir sep = path_join [''/w'', ''acme-network'']"
    and "spPipelineDir sep = path_join [''/w'', ''acme-pipeline'']"
  shows "\<exists>sn w'. StartSeparatedNode sep w = (Inr sn, w') \<and> live_world w' \<and> registry w' = registry w"
proof -
  have "disk w = Dir 0x1ED [] \<or> (\<exists>a b. disk w = live_tree a b)" using assms(1) by (simp add: live_world_def)
  then show ?thesis
    using assms
    by (elim disjE exE;
        simp add: StartSeparatedNode_def andthen_def on_part_def with_disk_def on_disk_def emit_def cleanup_def Let_def
          live_paths writeApplicationConf_def writeConfigFile_def write_below_def runNodeProcess_def await_node_def
          wait_outcome_def waitHealthy_ready live_world_def live_tree_def)
qed

lemma live_wait: "live_world w \<Longrightarrow> \<exists>w'. waitSubscribed [''raw''] w = (Inr (), w') \<and> live_world w' \<and> registry w' = registry w"
  by (simp add: live_world_def waitSubscribed_def andthen_def live_subscriber [simplified] wait_outcome_def)

lemma live_stop: "live_world w \<Longrightarrow> \<exists>w'. SeparatedNode_Stop sn w = (Inr (), w') \<and> live_world w'"
  by (simp add: SeparatedNode_Stop_def Node_Stop_def emit_def andthen_def live_world_def)

lemma andthen_okI:
  "m w = (Inr x, w') \<Longrightarrow> \<exists>y v. f x w' = (Inr y, v) \<and> Q y v \<Longrightarrow> \<exists>y v. andthen m f w = (Inr y, v) \<and> Q y v"
  by (simp add: andthen_def)

lemma live_start:
  "\<exists>env sn w. startSingleNodeProcess demo_out live_spec demo_host = (Inr (env, sn), w) \<and> live_world w
     \<and> eSubjects env = [''raw''] \<and> spNetworkDir (eSeparated env) = path_join [''/w'', ''acme-network'']
     \<and> spPipelineDir (eSeparated env) = path_join [''/w'', ''acme-pipeline'']" (is "\<exists>env sn w. ?run = (Inr (env, sn), w) \<and> ?P env w")
proof -
  obtain bins b where bld: "BuildBinaries (root demo_out) (arg0 demo_out) (mkdirTmp demo_out) (goBuild demo_out) fresh_build = (Inr bins, b)"
    using live_build by (metis isl_def prod.collapse sum.exhaust)
  define br where "br = StartNATS (natsLib demo_out) ''/w/nats'' (operatorKey demo_out) [(''acme'', accountKeys demo_out)]
    (empty_NATS (\<lambda>_. None))"
  have nats: "StartNATS (natsLib demo_out) ''/w/nats'' (operatorKey demo_out) [(''acme'', accountKeys demo_out)]
    (empty_NATS (\<lambda>_. None)) = (Inr (), snd br)"
    using live_broker(1) unfolding br_def [symmetric] by (cases "fst br") (auto simp: br_def prod_eq_iff)
  obtain acct n' where acct: "account ''nats'' ''acme'' (snd br) = (Inr acct, n')"
    using live_broker(2) unfolding br_def [symmetric] by (metis isl_def prod.collapse sum.exhaust)
  obtain keys a b' r where keys: "provision_all (path_join [path_join [''/w'', ''acme-pipeline''], ''data'']) [''did:p'', ''did:q'']
      Map.empty demo_registry = (Inr keys, r)" "keys ''did:p'' = Some a" "keys ''did:q'' = Some b'"
    "keygen r = keygen demo_registry" "saveErr r = (\<lambda>_ _. None)" "reply r = (\<lambda>_. None)"
    using live_registry by blast
  obtain ow r' where ow: "NewOwner ''/o'' (ownerDIDFor live_spec) r = (Inr ow, r')" "reply r' = (\<lambda>_. None)"
    using live_owner [OF keys(4-6)] by blast
  have boot: "\<exists>r''. BootstrapExternal demo_identity base ow [''did:p''] [''did:q''] keys r' = (Inr (), r'')" for base
    by (rule live_bootstrap [OF ow(2) keys(2,3)])
  have out: "natsLib demo_out = demo_lib" "identityLib demo_out = demo_identity" "workDir demo_out = ''/w''"
    "ownerDir demo_out = ''/o''" by (simp_all add: demo_out_def)
  have spec: "PipelineDIDs live_spec = [''did:p'']" "ProcessDIDs live_spec = [''did:q'']" "specNodeDID live_spec = ''did:p''"
    "Account live_spec = ''acme''" "IngressSubjects live_spec = [''raw'']"
    by (simp_all add: live_spec_def demo_spec_def)
  have host: "build demo_host = fresh_build" "portGiven demo_host = (\<lambda>k. Inr (40000 + k))" "portsDrawn demo_host = 0"
    "stubWorld demo_host = stub_up"
    "broker demo_host = empty_NATS (\<lambda>_. None)" "registry demo_host = demo_registry" "disk demo_host = Dir 0x1ED []"
    "diskFaults demo_host = \<lparr>mkdirFault = None, writeFault = None\<rparr>" "umask demo_host = 0x12"
    "bootWorld demo_host = (\<lambda>_. ready_world)" "startErr demo_host = (\<lambda>_. None)"
    "subsWorld demo_host = (\<lambda>_. subs_up)"
    by (simp_all add: demo_host_def)
  let ?w1 = "demo_host\<lparr>build := b\<rparr>"
  have s1: "on_build (BuildBinaries (root demo_out) (arg0 demo_out) (mkdirTmp demo_out) (goBuild demo_out)) demo_host
      = (Inr bins, ?w1)"
    by (simp add: on_part_def host bld)
  have "free_port (?w1\<lparr>portsDrawn := k\<rparr>) = (Inr (CHR '':'' # nat_str (40000 + k)), ?w1\<lparr>portsDrawn := Suc k\<rparr>)" for k
    by (simp add: free_port_def FreePort_def host)
  then have s2: "free_port ?w1 = (Inr (CHR '':'' # nat_str (40000 + 0)), ?w1\<lparr>portsDrawn := Suc 0\<rparr>)"
    "free_port (?w1\<lparr>portsDrawn := Suc 0\<rparr>) = (Inr (CHR '':'' # nat_str (40000 + Suc 0)), ?w1\<lparr>portsDrawn := Suc (Suc 0)\<rparr>)"
    "free_port (?w1\<lparr>portsDrawn := Suc (Suc 0)\<rparr>)
      = (Inr (CHR '':'' # nat_str (40000 + Suc (Suc 0))), ?w1\<lparr>portsDrawn := Suc (Suc (Suc 0))\<rparr>)"
    by (simp_all add: free_port_def FreePort_def host)
  let ?w2 = "?w1\<lparr>portsDrawn := Suc (Suc (Suc 0))\<rparr>"
  let ?w3 = "?w2\<lparr>events := events ?w2 @ [Served pdp_server], cleanups := Closed pdp_server # cleanups ?w2\<rparr>"
  have s3: "start_stub a ?w2 = (Inr (''http://127.0.0.1'' @ a), ?w3)" for a
    by (simp add: start_stub_def andthen_def emit_def cleanup_def live_stub [simplified] wait_outcome_def host)
  have s3': "start_broker (natsLib demo_out) ''/w/nats'' (operatorKey demo_out) [(''acme'', accountKeys demo_out)] ?w3
      = (Inr (), ?w3\<lparr>broker := snd br, events := events ?w3 @ [Served nats_server],
          cleanups := Closed nats_server # cleanups ?w3\<rparr>)"
    by (simp add: start_broker_def andthen_def on_part_def emit_def cleanup_def host nats)
  let ?w4 = "?w3\<lparr>broker := snd br, events := events ?w3 @ [Served nats_server],
      cleanups := Closed nats_server # cleanups ?w3\<rparr>"
  have s4: "on_broker (account ''nats'' ''acme'') ?w4 = (Inr acct, ?w4\<lparr>broker := n'\<rparr>)"
    by (simp add: on_part_def acct)
  let ?w5 = "?w4\<lparr>broker := n', registry := r\<rparr>"
  have s5: "on_registry (provision_all (path_join [path_join [''/w'', ''acme-pipeline''], ''data'']) [''did:p'', ''did:q''] Map.empty)
      (?w4\<lparr>broker := n'\<rparr>) = (Inr keys, ?w5)"
    by (simp add: on_part_def host keys(1) del: provision_all.simps)
  have s6: "check_node_did t live_spec keys ?w5 = (Inr (), ?w5)" for t
    by (simp add: check_node_did_def spec keys(2))
  have w5: "live_world ?w5" "registry ?w5 = r" by (simp_all add: live_world_def host)
  have rest: "\<exists>x v. andthen (StartSeparatedNode (separated_spec demo_out live_spec bins n q c)) (\<lambda>sn.
        andthen (waitSubscribed [''raw'']) (\<lambda>_.
        andthen (on_registry (NewOwner ''/o'' (ownerDIDFor live_spec))) (\<lambda>ow.
        andthen (on_registry (BootstrapExternal demo_identity (snBaseURL sn) ow [''did:p''] [''did:q''] keys)) (\<lambda>_.
        ret (env sn, sn))))) ?w5 = (Inr x, v) \<and> ?P (fst x) v"
    if "\<And>sn. eSubjects (env sn) = [''raw'']"
      "\<And>sn. eSeparated (env sn) = separated_spec demo_out live_spec bins n q c"
    for n q c and env :: "SeparatedNode \<Rightarrow> node_env"
  proof -
    let ?sep = "separated_spec demo_out live_spec bins n q c"
    have dirs: "spNetworkDir ?sep = path_join [''/w'', ''acme-network'']" "spPipelineDir ?sep = path_join [''/w'', ''acme-pipeline'']"
      by (simp_all add: separated_spec_def case_prod_beta out spec)
    obtain sn w6 where 6: "StartSeparatedNode ?sep ?w5 = (Inr sn, w6)" "live_world w6" "registry w6 = r"
      using live_pair [OF w5(1) dirs] w5(2) by metis
    obtain w7 where 7: "waitSubscribed [''raw''] w6 = (Inr (), w7)" "live_world w7" "registry w7 = r"
      using live_wait [OF 6(2)] 6(3) by metis
    have 8: "on_registry (NewOwner ''/o'' (ownerDIDFor live_spec)) w7 = (Inr ow, w7\<lparr>registry := r'\<rparr>)"
      by (simp add: on_part_def 7(3) ow(1))
    obtain r'' where "BootstrapExternal demo_identity (snBaseURL sn) ow [''did:p''] [''did:q''] keys r' = (Inr (), r'')"
      using boot by blast
    then have 9: "on_registry (BootstrapExternal demo_identity (snBaseURL sn) ow [''did:p''] [''did:q''] keys)
        (w7\<lparr>registry := r'\<rparr>) = (Inr (), w7\<lparr>registry := r''\<rparr>)"
      by (simp add: on_part_def)
    show ?thesis
      by (rule andthen_okI, rule 6(1), rule andthen_okI, rule 7(1), rule andthen_okI, rule 8, rule andthen_okI, rule 9)
         (use 7(2) that dirs in \<open>simp add: live_world_def\<close>)
  qed
  have "\<exists>x v. ?run = (Inr x, v) \<and> ?P (fst x) v"
    unfolding startSingleNodeProcess_def Let_def spec out live_paths(1) append.simps
    by (rule andthen_okI, rule s1, rule andthen_okI, rule s2(1), rule andthen_okI, rule s2(2), rule andthen_okI, rule s2(3),
        rule andthen_okI, rule s3, rule andthen_okI, rule s3' [unfolded out], rule andthen_okI, rule s4, rule andthen_okI, rule s5,
        rule andthen_okI, rule s6, rule rest) simp_all
  then show ?thesis by (metis fst_conv surj_pair)
qed

lemma live_calls:
  assumes "live_world w" and "eSubjects env = [''raw'']" and "spNetworkDir (eSeparated env) = path_join [''/w'', ''acme-network'']"
    and "spPipelineDir (eSeparated env) = path_join [''/w'', ''acme-pipeline'']"
  shows "\<exists>sn' w'. env_calls env cs sn w = (Inr sn', w')"
  using assms(1)
proof (induction cs arbitrary: sn w)
  case (Cons c cs)
  obtain w1 where 1: "SeparatedNode_Stop sn w = (Inr (), w1)" "live_world w1" using live_stop [OF Cons.prems] by blast
  obtain sn2 w2 where 2: "StartSeparatedNode (eSeparated env) w1 = (Inr sn2, w2)" "live_world w2"
    using live_pair [OF 1(2) assms(3,4)] by blast
  obtain w3 where 3: "waitSubscribed [''raw''] w2 = (Inr (), w3)" "live_world w3" using live_wait [OF 2(2)] by blast
  have sinks: "\<exists>sn' w'. env_calls env cs sn w = (Inr sn', w')" using Cons.IH [OF Cons.prems] .
  show ?case
    using Cons.IH [OF 1(2)] Cons.IH [OF 3(2)]
    by (cases c) (simp_all add: andthen_def 1(1) 2(1) 3(1) assms(2) SeparatedNode_SinkLines_def sinks)
qed simp

lemma restarts_keep_node_witness:
  "\<exists>env sn w1 sn' w2. startSingleNodeProcess demo_out live_spec demo_host = (Inr (env, sn), w1)
     \<and> env_calls env [RestartNode, StopNode, ReadSinks, RestartNode] sn w1 = (Inr sn', w2)
     \<and> launches w2 = launches w1 @ pair_launches (eSeparated env) @ pair_launches (eSeparated env)"
proof -
  obtain env sn w1 where 1: "startSingleNodeProcess demo_out live_spec demo_host = (Inr (env, sn), w1)" "live_world w1"
    "eSubjects env = [''raw'']" "spNetworkDir (eSeparated env) = path_join [''/w'', ''acme-network'']"
    "spPipelineDir (eSeparated env) = path_join [''/w'', ''acme-pipeline'']"
    using live_start by blast
  obtain sn' w2 where 2: "env_calls env [RestartNode, StopNode, ReadSinks, RestartNode] sn w1 = (Inr sn', w2)"
    using live_calls [OF 1(2-5)] by blast
  from restarts_keep_node [OF 1(1) 2] show ?thesis using 1(1) 2 by (simp del: env_calls.simps env_run.simps)
qed

lemma live_subscriber_http:
  "WaitForSubscriberHTTP base ''raw'' 60000 ok_http = Some (Inr (), look ok_http)"
proof -
  have "lists_subject ''raw'' (seen ok_http)" by (simp add: ok_http_def seen_def lists_subject_def)
  then show ?thesis
    unfolding WaitForSubscriberHTTP_def steady_demo
    by (simp add: subscriber_http.unfold probe_check_def) (simp add: ok_http_def)
qed

definition live_prov :: "string ComposeProvision" where
  "live_prov = snd (ProvisionCompose demo_lib ''/s/simple/testdata'' (Inr ''OP'') (Inr ''J'') [(''acme'', Inr (''S'', ''A''))]
     (empty_compose (\<lambda>_. None)))"

lemma live_provision:
  "ProvisionCompose demo_lib ''/s/simple/testdata'' (Inr ''OP'') (Inr ''J'') [(''acme'', Inr (''S'', ''A''))]
     (empty_compose (\<lambda>_. None)) = (Inr (), live_prov)"
proof -
  have "fst (ProvisionCompose demo_lib ''/s/simple/testdata'' (Inr ''OP'') (Inr ''J'') [(''acme'', Inr (''S'', ''A''))]
     (empty_compose (\<lambda>_. None))) = Inr ()" by code_simp
  then show ?thesis unfolding live_prov_def by (metis prod.collapse)
qed

lemma live_prov_facts:
  "list_all (published live_prov) [''acme'']" "fault live_prov ''nats-server.conf'' = None"
  "map_of (seeds live_prov) ''acme-account.seed'' = Some (''S'', 0x1A4)"
  by (code_simp, code_simp, code_simp)

lemma live_prov_chmod: "chmodErr live_prov = (\<lambda>_. None)" "readdirErr live_prov = (\<lambda>_. None)"
  by (simp_all add: live_prov_def demo_run)

lemma WriteBrokerConfig_seeds: "keeps seeds (WriteBrokerConfig pr dir names)"
  unfolding WriteBrokerConfig_def preload_line_def open_jwts_def
  by (intro prog_rules) (auto simp: keeps_def split: option.split prod.split)

lemma live_stack:
  "\<exists>env w. startSingleNodeCompose demo_cout live_spec demo_stack = (Inr env, w)
     \<and> ceNodeBase env = ''http://127.0.0.1:32768'' \<and> ceAcctSeed env = trim_space ''S''
     \<and> portWorld w = (\<lambda>_. port_world) \<and> httpWorld w = (\<lambda>_. ok_http) \<and> dockerErr w = (\<lambda>_. None)
     \<and> ceSubjects env = [''raw'']"
proof -
  have out: "cNatsLib demo_cout = demo_lib" "cIdentityLib demo_cout = demo_identity" "cwd demo_cout = Inr ''/s/simple''"
    "cOwnerDir demo_cout = ''/o''" "cOperatorKey demo_cout = Inr ''OP''" "cOperatorJWT demo_cout = Inr ''J''"
    "cAccountKeys demo_cout = Inr (''S'', ''A'')" by (simp_all add: demo_cout_def)
  have spec: "PipelineDIDs live_spec = [''did:p'']" "ProcessDIDs live_spec = [''did:q'']" "specNodeDID live_spec = ''did:p''"
    "Account live_spec = ''acme''" "IngressSubjects live_spec = [''raw'']"
    by (simp_all add: live_spec_def demo_spec_def)
  have td: "path_join [''/s/simple'', ''testdata''] = ''/s/simple/testdata''" by code_simp
  have stack: "prov demo_stack = empty_compose (\<lambda>_. None)" "cRegistry demo_stack = demo_registry"
    "testdata demo_stack = Dir 0x1ED []" "keysTree demo_stack = Some (Dir 0x1C0 [])" "keyChmodErr demo_stack = (\<lambda>_. None)"
    "keyReaddirErr demo_stack = (\<lambda>_. None)" "cDiskFaults demo_stack = \<lparr>mkdirFault = None, writeFault = None\<rparr>"
    "cUmask demo_stack = 0x12" "dockerErr demo_stack = (\<lambda>_. None)" "portWorld demo_stack = (\<lambda>_. port_world)"
    "httpWorld demo_stack = (\<lambda>_. ok_http)" "seedErr demo_stack = None"
    by (simp_all add: demo_stack_def)
  obtain keys a b' r where keys: "provision_all (path_join [path_join [''/s/simple/testdata'', ''acme-pipeline''], ''data'']) [''did:p'', ''did:q'']
      Map.empty demo_registry = (Inr keys, r)" "keys ''did:p'' = Some a" "keys ''did:q'' = Some b'"
    "keygen r = keygen demo_registry" "saveErr r = (\<lambda>_ _. None)" "reply r = (\<lambda>_. None)"
    using live_registry by blast
  obtain ow r' where ow: "NewOwner ''/o'' (ownerDIDFor live_spec) r = (Inr ow, r')" "reply r' = (\<lambda>_. None)"
    using live_owner [OF keys(4-6)] by blast
  obtain r'' where boot: "BootstrapExternal demo_identity ''http://127.0.0.1:32768'' ow [''did:p''] [''did:q''] keys r' = (Inr (), r'')"
    using live_bootstrap [OF ow(2) keys(2,3)] by blast
  obtain p3 where p3: "WriteBrokerConfig (cPrintable demo_cout) ''/s/simple/testdata'' [''acme''] live_prov = (Inr (), p3)"
    using WriteBrokerConfig_succeeds [OF live_prov_facts(1,2) live_prov_chmod] by blast
  have seeds: "seeds p3 = seeds live_prov"
    using keepsD [OF WriteBrokerConfig_seeds p3] .
  have c1: "remove_testdata demo_stack = (Inr (), demo_stack)"
    by (simp add: remove_testdata_def demo_stack_def empty_compose_def)
  have c2: "on_prov (ProvisionCompose demo_lib ''/s/simple/testdata'' (Inr ''OP'') (Inr ''J'') [(''acme'', Inr (''S'', ''A''))]) demo_stack
      = (Inr (), demo_stack\<lparr>prov := live_prov\<rparr>)"
    by (simp add: on_part_def stack live_provision)
  have c3: "on_prov (WriteBrokerConfig (cPrintable demo_cout) ''/s/simple/testdata'' [''acme'']) (demo_stack\<lparr>prov := live_prov\<rparr>)
      = (Inr (), demo_stack\<lparr>prov := p3\<rparr>)"
    by (simp add: on_part_def p3)
  let ?v = "demo_stack\<lparr>prov := p3, cRegistry := r\<rparr>"
  have c4: "on_cRegistry (provision_all (path_join [path_join [''/s/simple/testdata'', ''acme-pipeline''], ''data'']) [''did:p'', ''did:q''] Map.empty)
      (demo_stack\<lparr>prov := p3\<rparr>) = (Inr keys, ?v)"
    by (simp add: on_part_def stack keys(1) del: provision_all.simps)
  have c5: "check_node_did t live_spec keys ?v = (Inr (), ?v)" for t
    by (simp add: check_node_did_def spec keys(2))
  have c6: "open_keys d ?v = (Inr (), ?v\<lparr>keysTree := Some (Dir 0x1ED [])\<rparr>)" for d
    by (simp add: open_keys_def on_part_def stack MakeContainerReadable_def walk_dir_def)
  have c7: "\<exists>t. andthen (write_conf ''acme-network'' x) (\<lambda>_. andthen (write_conf ''acme-pipeline'' y) (\<lambda>_. ret keys))
      (?v\<lparr>keysTree := k\<rparr>) = (Inr keys, ?v\<lparr>keysTree := k, testdata := t\<rparr>)" for x y k
    by (simp add: andthen_def write_conf_def on_part_def WriteNodeConfig_def write_below_def stack) (rule exI, rule refl)
  have "\<exists>x t. prepare_stack demo_cout live_spec ''/s/simple'' demo_stack = (Inr x, t)
      \<and> (x = keys \<and> (\<exists>d. t = ?v\<lparr>keysTree := Some (Dir 0x1ED []), testdata := d\<rparr>))"
    unfolding prepare_stack_def Let_def spec out td case_prod_beta append.simps
    by (rule andthen_okI, rule c1, rule andthen_okI, rule c2, rule andthen_okI, rule c3, rule andthen_okI, rule c4,
        rule andthen_okI, rule c5, rule andthen_okI, rule c6) (use c7 in fastforce)
  then obtain d where pre: "prepare_stack demo_cout live_spec ''/s/simple'' demo_stack
      = (Inr keys, ?v\<lparr>keysTree := Some (Dir 0x1ED []), testdata := d\<rparr>)"
    by blast
  have boot': "\<exists>env w'. boot_stack demo_cout live_spec ''/s/simple'' keys w = (Inr env, w')
      \<and> ceNodeBase env = ''http://127.0.0.1:32768'' \<and> ceAcctSeed env = trim_space ''S''
      \<and> portWorld w' = (\<lambda>_. port_world) \<and> httpWorld w' = (\<lambda>_. ok_http) \<and> dockerErr w' = (\<lambda>_. None)
      \<and> ceSubjects env = [''raw'']"
    if "portWorld w = (\<lambda>_. port_world)" "httpWorld w = (\<lambda>_. ok_http)" "dockerErr w = (\<lambda>_. None)"
      "cRegistry w = r" "prov w = p3" "seedErr w = None" for w :: "string compose_host"
    using that
    by (simp add: act_def boot_stack_def ComposeUp_def docker_def andthen_def service_port_def wait_http_def wait_subscribers_def
        wait_outcome_def port_world_returns ok_http_ready live_subscriber_http on_part_def ow(1) boot read_seed_def
        seeds live_prov_facts(3) spec out Let_def)
  show ?thesis
    using boot' [of "?v\<lparr>keysTree := Some (Dir 0x1ED []), testdata := d\<rparr>"]
    by (simp add: startSingleNodeCompose_def out andthen_def pre stack)
qed

definition live_test :: "(string, string) test_world" where
  "live_test = \<lparr>tProcess = demo_host, tCompose = demo_stack\<rparr>"

text \<open>Both runtimes start it.\<close>

lemma live_single:
  "\<exists>env sn w. StartSingleNode (\<lambda>_. []) demo_out demo_cout live_spec live_test = (Inr (On_process env sn), w)"
  "\<exists>env w. StartSingleNode (\<lambda>_. ''compose'') demo_out demo_cout live_spec live_test = (Inr (On_compose env), w)"
  using live_start live_stack
  by (auto simp: StartSingleNode_def ComposeRuntime_def on_part_def andthen_def live_test_def)


lemma started_issued_witness:
  "(\<exists>env sn w. StartSingleNode (\<lambda>_. []) demo_out demo_cout live_spec live_test = (Inr (On_process env sn), w)
     \<and> issued demo_identity (eNodeBase env) ''/w/acme-pipeline/data/keys'' live_spec demo_registry (registry (tProcess w)))
   \<and> (\<exists>env w. StartSingleNode (\<lambda>_. ''compose'') demo_out demo_cout live_spec live_test = (Inr (On_compose env), w)
     \<and> issued demo_identity (ceNodeBase env) ''/s/simple/testdata/acme-pipeline/data/keys'' live_spec demo_registry
         (cRegistry (tCompose w)))"
proof -
  obtain env sn w where r: "StartSingleNode (\<lambda>_. []) demo_out demo_cout live_spec live_test = (Inr (On_process env sn), w)"
    using live_single(1) by blast
  obtain cenv v where c: "StartSingleNode (\<lambda>_. ''compose'') demo_out demo_cout live_spec live_test = (Inr (On_compose cenv), v)"
    using live_single(2) by blast
  have store: "path_join [process_store demo_out live_spec, ''keys''] = ''/w/acme-pipeline/data/keys''"
    "path_join [compose_store ''/s/simple'' live_spec, ''keys''] = ''/s/simple/testdata/acme-pipeline/data/keys''"
    by (code_simp, code_simp)
  have h: "ownerDir demo_out \<noteq> path_join [process_store demo_out live_spec, ''keys'']" "cwd demo_cout = Inr ''/s/simple''"
    "cOwnerDir demo_cout \<noteq> path_join [compose_store ''/s/simple'' live_spec, ''keys'']"
    unfolding store by (simp_all add: demo_out_def demo_cout_def)
  have start: "registry (tProcess live_test) = demo_registry" "cRegistry (tCompose live_test) = demo_registry"
    "identityLib demo_out = demo_identity" "cIdentityLib demo_cout = demo_identity"
    by (simp_all add: live_test_def demo_host_def demo_stack_def demo_out_def demo_cout_def)
  show ?thesis
    using r c started_issued [OF r h] started_issued [OF c h]
    unfolding single_node.case store start by blast
qed


end
