(* ===== verification/Pdp_Cmd.thy ===== *)
theory Pdp_Cmd
  imports PdpStub
begin

text \<open>
  The command \<^verbatim>\<open>cmd/pdpstub/main.go\<close>: one flag, then the handler of \<open>PdpStub\<close> is served.
  The flag is read the way Go's \<^verbatim>\<open>flag\<close> package reads one string flag of a command line that
  exits on errors.
\<close>

text \<open>What the process does: it exits at once with a status, or it listens on an address and
  exits with status 1 when serving ends, as \<^verbatim>\<open>log.Fatal\<close> does.\<close>

datatype command = Exits nat | Listens string

definition flag_addr :: string where "flag_addr = ''addr''"

text \<open>A flag's name and its value after an equals sign, which may not come first.\<close>

definition flag_parts :: "string \<Rightarrow> string \<times> string option" where
  "flag_parts s =
     (let n = takeWhile (\<lambda>ch. ch \<noteq> CHR ''='') (tl s); r = dropWhile (\<lambda>ch. ch \<noteq> CHR ''='') (tl s) in
      (hd s # n, if r = [] then None else Some (tl r)))"

fun flag_parse :: "string \<Rightarrow> string list \<Rightarrow> nat + string" where
  "flag_parse v [] = Inr v"
| "flag_parse v (s # args) =
     (if length s < 2 \<or> hd s \<noteq> CHR ''-'' \<or> s = ''--'' then Inr v
      else
        let name = (if s ! 1 = CHR ''-'' then drop 2 s else drop 1 s) in
        if name = [] \<or> hd name = CHR ''-'' \<or> hd name = CHR ''='' then Inl 2
        else
          (case flag_parts name of (n, given) \<Rightarrow>
             if n \<noteq> flag_addr then Inl (if n = ''help'' \<or> n = ''h'' then 0 else 2)
             else
               (case given of
                  Some x \<Rightarrow> flag_parse x args
                | None \<Rightarrow> (case args of [] \<Rightarrow> Inl 2 | x # rest \<Rightarrow> flag_parse x rest))))"

definition pdpstub_main :: "string list \<Rightarrow> command" where
  "pdpstub_main args = (case flag_parse '':9091'' args of Inl n \<Rightarrow> Exits n | Inr addr \<Rightarrow> Listens addr)"

lemma flag_parse_value:
  "flag_parse v ((''-addr='' @ x) # args) = flag_parse x args"
  "flag_parse v (''-addr'' # x # args) = flag_parse x args"
  by (simp_all add: Let_def flag_parts_def flag_addr_def)

text \<open>The stub listens on the last address it is given, in either spelling, and on port 9091 of
  every interface if it is given none.\<close>

fun spell :: "bool \<times> string \<Rightarrow> string list" where
  "spell (True, a) = [''-addr='' @ a]"
| "spell (False, a) = [''-addr'', a]"

theorem pdpstub_listens:
  "pdpstub_main (concat (map spell as)) = Listens (last ('':9091'' # map snd as))"
proof -
  have "flag_parse v (concat (map spell as)) = Inr (last (v # map snd as))" for v
  proof (induction as arbitrary: v)
    case (Cons a as)
    show ?case
      by (cases a; cases "fst a") (simp_all only: list.map concat.simps spell.simps append.simps
          flag_parse_value [simplified append.simps] fst_conv snd_conv Cons.IH last.simps list.distinct if_False)
  qed simp
  then show ?thesis by (simp add: pdpstub_main_def)
qed

text \<open>A misspelt flag, or one without its value, never starts a server.\<close>

lemma pdpstub_rejects:
  "pdpstub_main [''-addr''] = Exits 2" "pdpstub_main [''-port'', '':1''] = Exits 2" "pdpstub_main [''--help''] = Exits 0"
  by (code_simp, code_simp, code_simp)

end
