(* ===== verification/Spec2Isabelle.thy ===== *)
theory Spec2Isabelle
  imports Prelude Emission PdpStub Config Conf_Syntax Conf_Read Polling Process FsTree Runtimes Bootstrap
    Node_Env Compose_Env Single_Node Pdp_Cmd
begin

text \<open>
  A verification development for the end-to-end harness of provin
  (\<^verbatim>\<open>src/internal/harness\<close>, \<^verbatim>\<open>src/internal/pdpstub\<close>): the Go code that provisions,
  configures, boots, watches and tears down the nodes every scenario runs against, on two
  runtimes, subprocesses and docker compose.

  \<^bold>\<open>Conventions\<close> (\<open>Prelude\<close>).  A helper ends the test with \<^verbatim>\<open>t.Fatalf\<close> and does not return:
  a result is a sum, its left side the format and the arguments of the abort.  A helper that
  changes something is a program \<^verbatim>\<open>world => outcome * world\<close>; \<open>andthen\<close> is Go's sequencing,
  \<open>for_each\<close> its range loop, and \<open>triple\<close> and \<open>keeps\<close> are the program logic.  Strings are lists
  of bytes, Go maps are HOL maps, and where Go iterates over a map the order is an argument.

  \<^bold>\<open>The program and its theories\<close>

  \<^item> \<open>Go_Text\<close>, \<open>Go_Utf8\<close>, \<open>Go_Quote\<close>, \<open>Go_Net\<close>, \<open>Json\<close>: what the code uses of Go's standard
    library, executable: the string functions, UTF-8 decoding, \<^verbatim>\<open>%q\<close>, \<^verbatim>\<open>url.Parse\<close>,
    \<^verbatim>\<open>netip.ParseAddr\<close>, \<^verbatim>\<open>encoding/json\<close>.  The table of printable code points above U+00FF
    is an argument.
  \<^item> \<open>Emission\<close>: \<^verbatim>\<open>emissionlog.go\<close>, the reconciliation of an emission log with what a consumer
    has seen: which records are reported, in which order, and that an unreadable one stops it.
  \<^item> \<open>PdpStub\<close>, \<open>Pdp_Cmd\<close>: \<^verbatim>\<open>pdpstub.go\<close>, the two endpoints of the allow-all PDP and the
    routing of the mux in front of them, and the command line of \<^verbatim>\<open>cmd/pdpstub\<close>.
  \<^item> \<open>Config\<close>, \<open>Conf_Syntax\<close>, \<open>Conf_Read\<close>: \<^verbatim>\<open>config.go\<close> and \<^verbatim>\<open>SplitNodeConfig\<close> of
    \<^verbatim>\<open>separated.go\<close>; the text of a node's configuration byte for byte, how one description
    becomes two configurations, that no setting can change the text's shape, and, with a reader
    of the part of HOCON the text is in, that the text says exactly what the settings are.  Go's
    \<^verbatim>\<open>%q\<close> has escapes that HOCON's JSON strings lack; \<open>hocon_safe\<close> are the values that need none.
  \<^item> \<open>Polling\<close>: the seven deadline loops of \<^verbatim>\<open>node.go\<close>, \<^verbatim>\<open>compose.go\<close> and \<^verbatim>\<open>nats.go\<close>, over a
    world that scripts what each look sees, how long it takes, or that it never comes back.
  \<^item> \<open>Process\<close>: \<^verbatim>\<open>node.go\<close>; \<^verbatim>\<open>Stop\<close> as a machine of the process, the goroutine that reaps it
    and the caller.  \<open>free_step\<close> are the moves that may never come (the process ends by itself,
    a call begins), \<open>must_step\<close> those that come if nothing else does (the caller's next
    statement, the reaping of an ended process, a millisecond of the grace period).  A
    \<open>node_run\<close> is any sequence of both, and \<open>Stop\<close> comes back on each, by the kill if need be.  Also
    the log buffer, the sink lines of both runtimes, the once-per-binary builds.
  \<^item> \<open>FsTree\<close>: the directory trees of \<^verbatim>\<open>compose.go\<close> and \<^verbatim>\<open>separated.go\<close>; the two permission
    walks and the three writers of configuration files.
  \<^item> \<open>Broker\<close>, \<open>Runtimes\<close>: \<^verbatim>\<open>nats.go\<close> and the provisioning half of \<^verbatim>\<open>compose.go\<close>; accounts,
    grants and the bridge to the running broker.  \<open>broker_run\<close> is a broker in use, with the set of
    accounts whose JWT may have changed on disk behind its back.  \<open>Runtimes\<close> states the interface of a
    registry of accounts as a locale, interprets it for the live and for the preloaded broker
    and proves that both provision alike.
  \<^item> \<open>Bootstrap\<close>: \<^verbatim>\<open>bootstrap.go\<close> and the key provisioning of \<^verbatim>\<open>separated.go\<close>; the requests of
    a bootstrap and where the private keys are.
  \<^item> \<open>Lifecycle\<close>, \<open>Node_Env\<close>: the specification of a node's life in events, each with the number
    of the launch it belongs to, and
    \<^verbatim>\<open>runNodeProcess\<close>, \<^verbatim>\<open>StartSeparatedNode\<close>, \<^verbatim>\<open>SeparatedNode.Stop\<close> and
    \<^verbatim>\<open>startSingleNodeProcess\<close> with its \<^verbatim>\<open>RestartNode\<close> and \<^verbatim>\<open>StopNode\<close> (\<^verbatim>\<open>node.go\<close>,
    \<^verbatim>\<open>separated.go\<close>, \<^verbatim>\<open>env.go\<close>), composed of the parts above and proved to refine it.
  \<^item> \<open>Compose_Env\<close>: the docker commands of \<^verbatim>\<open>compose.go\<close> and \<^verbatim>\<open>startSingleNodeCompose\<close> of
    \<^verbatim>\<open>env.go\<close>, and that every stack brought up is taken down.  The events of a stack are those of
    the services in the compose file (\<open>upServices\<close>), started by \<^verbatim>\<open>up\<close> and stopped and started by
    the commands on one service.
  \<^item> \<open>Single_Node\<close>: \<^verbatim>\<open>StartSingleNode\<close>, and what a scenario may rely on whichever runtime it
    got: its owner and DIDs are issued, the files agree with the addresses it was given.  On
    subprocesses a restart keeps what it should keep; on compose it restarts the network under a
    running pipeline and returns the newly published address.

  \<^bold>\<open>How the parts interact\<close>.  A start builds the binaries, draws ports, serves the PDP, starts
  the broker, provisions the keys of all DIDs into the pipeline's data directory, writes the
  two configurations, boots network before pipeline, waits for the loops to subscribe and
  bootstraps the identities.  Each part has its own world; \<open>on_part\<close> runs a part's program on
  its field of the environment's world, so a composition is the code's sequence of calls.

  \<^bold>\<open>Time and termination\<close>.  A deadline loop is a partial function whose value is \<open>None\<close> if it
  does not return.  A look through a client with a timeout ends after it, so those waits always
  return; the others fail to return exactly when a look never comes back, which is proved, as is
  after how many looks each wait ends at the latest.  In the environments the looks come back
  (\<open>steady\<close>), so the outcome \<open>wait_outcome\<close> has for a wait that hangs is never taken there: a test
  that hangs is ended by \<^verbatim>\<open>go test\<close>, and its cleanups do not run.  \<open>Stop\<close> is back within
  the 10 000 ms of grace and six further steps, counting a millisecond as one; this takes
  \<^verbatim>\<open>cmd.Wait\<close> to return once the process has ended, so no grandchild may keep its output
  pipes open.  Other loops are structural or have a measure: \<open>walk_up\<close> the length of the path,
  \<open>quote_body\<close> and \<open>unquote_body\<close> what is left of the text, the JSON reader what is left of its
  input.

  \<^bold>\<open>Arguments of the model\<close>.  Code that is not here, and what the machine does: the NATS account
  operator, JWT codec and server (\<open>natsop\<close>); key generation, the file key store, the DID,
  credential and delegation libraries (\<open>identity_lib\<close>); the replies of the registry, of HTTP
  servers and of docker; the errors of the file system and of \<^verbatim>\<open>go build\<close>; SHA-256 in the
  project name of compose.  They are arbitrary in every theorem; the witnesses use concrete ones.

  \<^bold>\<open>Not modelled\<close>.  Directories of
  \<^verbatim>\<open>t.TempDir\<close> are arguments and their removal is no event.  A panic of \<^verbatim>\<open>RunServer\<close>,
  the reaping goroutine of a process inside an environment and its ending by itself there (a
  \<open>Stopped\<close> event says that this launch is gone from then on, however it ended; the
  interleavings are in \<open>Process\<close>), symbolic links, and writers that race with a walk.  The
  scenarios under \<^verbatim>\<open>src/scenarios\<close> and the tests beside the harness: they are assertions
  about the product's binaries, which are not in this repository.
\<close>

end
